(* ===== verification/Cxx_Prelude.thy ===== *)
theory Cxx_Prelude
  imports Main "HOL-Library.Monad_Syntax" "HOL-Library.Sublist"
begin

text \<open>
  The parts of C++11 and its standard library that the modelled programs share: \<open>int\<close>
  arithmetic with undefined overflow, \<open>char\<close> as a signed byte, NUL terminated strings,
  \<open>std::string\<close> searches, \<open>std::to_string\<close>, \<open>atoi\<close>, formatted hexadecimal input,
  and \<open>std::set\<close> of pointers. A value of an option type whose \<open>None\<close> stands for undefined
  behaviour is marked so at its definition.
\<close>

named_theorems cxx_arith "definitions of the C++ arithmetic and character conversions"
named_theorems cxx_set "what insertion and erasure do to an ordered set of pointers"

section \<open>Integers and characters\<close>

text \<open>
  \<open>int\<close> is 32 bits wide. A signed result out of range is undefined behaviour, so it is
  \<open>None\<close>.
\<close>

definition int_max :: int where
  [cxx_arith]: "int_max = 2147483647"

definition int_min :: int where
  [cxx_arith]: "int_min = - 2147483648"

definition c_int :: "int \<Rightarrow> int option" where
  "c_int v = (if int_min \<le> v \<and> v \<le> int_max then Some v else None)"

text \<open>The conversion of an \<open>int\<close> to the 64 bit \<open>std::size_t\<close>.\<close>

definition to_size :: "int \<Rightarrow> nat" where
  "to_size v = nat (v mod 2 ^ 64)"

lemma to_size_small:
  assumes "- (2 ^ 63) < v" "v < 2 ^ 63"
  shows "to_size v = (if 0 \<le> v then nat v else nat (v + 2 ^ 64))"
proof (cases "0 \<le> v")
  case False
  have "v mod 2 ^ 64 = (v + 2 ^ 64) mod 2 ^ 64" by simp
  also have "\<dots> = v + 2 ^ 64" using False assms by (intro mod_pos_pos_trivial) auto
  finally show ?thesis using False by (simp add: to_size_def)
qed (use assms in \<open>simp add: to_size_def\<close>)

text \<open>
  \<open>char\<close> is signed on the targets the Makefiles build for (g++ on x86): bytes above 127 are
  negative when they are promoted to \<open>int\<close>. The conversion back keeps the low eight bits.
\<close>

definition char_to_int :: "char \<Rightarrow> int" where
  [cxx_arith]: "char_to_int c = (if (of_char c :: int) < 128 then of_char c else of_char c - 256)"

definition int_to_char :: "int \<Rightarrow> char" where
  [cxx_arith]: "int_to_char v = char_of (nat (v mod 256))"

abbreviation NUL :: char where
  "NUL \<equiv> CHR 0x00"

abbreviation TAB :: char where
  "TAB \<equiv> CHR 0x09"

abbreviation LF :: char where
  "LF \<equiv> CHR 0x0A"

abbreviation CR :: char where
  "CR \<equiv> CHR 0x0D"

lemma c_int_Some_iff: "c_int v = Some w \<longleftrightarrow> w = v \<and> int_min \<le> v \<and> v \<le> int_max"
  by (auto simp: c_int_def)

lemma c_int_None_iff: "c_int v = None \<longleftrightarrow> v < int_min \<or> int_max < v"
  by (auto simp: c_int_def)

lemma of_char_range: "(0 :: int) \<le> of_char c" "(of_char c :: int) < 256"
proof -
  have "(of_char c :: int) = int (of_char c :: nat)"
    by (simp only: of_nat_of_char)
  moreover have "(of_char c :: nat) < 256"
    by (rule nat_of_char_less_256)
  ultimately show "(0 :: int) \<le> of_char c" "(of_char c :: int) < 256"
    by simp_all
qed

lemma char_to_int_bounds: "- 128 \<le> char_to_int c \<and> char_to_int c \<le> 127"
  using of_char_range [of c] by (auto simp: cxx_arith)

lemma int_to_char_to_int [simp]: "int_to_char (char_to_int c) = c"
proof -
  have "char_to_int c mod 256 = of_char c"
    using of_char_range [of c] by (auto simp: cxx_arith)
  moreover have "(of_char c :: int) = int (of_char c)"
    by (simp only: of_nat_of_char)
  ultimately show ?thesis
    by (simp add: int_to_char_def)
qed

section \<open>Decimal and hexadecimal digits\<close>

definition is_dec :: "char \<Rightarrow> bool" where
  "is_dec c \<longleftrightarrow> 48 \<le> char_to_int c \<and> char_to_int c \<le> 57"

definition dec_digit :: "nat \<Rightarrow> char" where
  "dec_digit d = char_of (48 + d)"

definition dec_value :: "string \<Rightarrow> int" where
  "dec_value s = foldl (\<lambda>v c. v * 10 + (char_to_int c - 48)) 0 s"

text \<open>\<open>std::to_string\<close> of an unsigned value.\<close>

fun nat_to_string :: "nat \<Rightarrow> string" where
  "nat_to_string n =
     (if n < 10 then [dec_digit n] else nat_to_string (n div 10) @ [dec_digit (n mod 10)])"

declare nat_to_string.simps [simp del]

lemma dec_digit_chars:
  "dec_digit 0 = CHR ''0''" "dec_digit 1 = CHR ''1''" "dec_digit (Suc 0) = CHR ''1''"
  "dec_digit 2 = CHR ''2''" "dec_digit 3 = CHR ''3''" "dec_digit 4 = CHR ''4''" "dec_digit 5 = CHR ''5''"
  by (simp_all add: dec_digit_def char_of_def bit_iff_odd_drop_bit)

lemma char_to_int_dec_digit: "d < 10 \<Longrightarrow> char_to_int (dec_digit d) = 48 + int d"
proof -
  assume "d < 10"
  then have "(of_char (dec_digit d) :: nat) = 48 + d"
    by (simp add: dec_digit_def)
  then have "(of_char (dec_digit d) :: int) = 48 + int d"
    by (metis of_nat_of_char of_nat_add of_nat_numeral)
  with \<open>d < 10\<close> show ?thesis by (simp add: char_to_int_def)
qed

lemma is_dec_dec_digit: "d < 10 \<Longrightarrow> is_dec (dec_digit d)"
  by (simp add: is_dec_def char_to_int_dec_digit)

lemma dec_value_Nil [simp]: "dec_value [] = 0"
  by (simp add: dec_value_def)

lemma dec_value_snoc [simp]: "dec_value (s @ [c]) = dec_value s * 10 + (char_to_int c - 48)"
  by (simp add: dec_value_def)

lemma dec_value_nonneg: "\<forall>c \<in> set s. is_dec c \<Longrightarrow> 0 \<le> dec_value s"
  by (induction s rule: rev_induct) (auto simp: is_dec_def)

lemma nat_to_string_nonempty: "nat_to_string n \<noteq> []"
  by (subst nat_to_string.simps) simp

lemma nat_to_string_digits: "\<forall>c \<in> set (nat_to_string n). is_dec c"
proof (induction n rule: nat_to_string.induct)
  case (1 n)
  then show ?case
    by (cases "n < 10") (auto simp: nat_to_string.simps [of n] is_dec_dec_digit)
qed

lemma dec_value_nat_to_string [simp]: "dec_value (nat_to_string n) = int n"
proof (induction n rule: nat_to_string.induct)
  case (1 n)
  show ?case
  proof (cases "n < 10")
    case True
    then show ?thesis
      by (simp add: nat_to_string.simps [of n] dec_value_def char_to_int_dec_digit)
  next
    case False
    with "1" have "dec_value (nat_to_string (n div 10)) = int (n div 10)" by simp
    with False show ?thesis
      by (simp add: nat_to_string.simps [of n] char_to_int_dec_digit)
         (simp add: zdiv_int zmod_int)
  qed
qed

text \<open>The bytes \<open>isspace\<close> accepts in the C locale.\<close>

definition is_space :: "char \<Rightarrow> bool" where
  "is_space c \<longleftrightarrow> c \<in> {CHR '' '', TAB, LF, CHR 0x0B, CHR 0x0C, CR}"

text \<open>
  \<open>std::atoi\<close>: white space, an optional sign, then as many decimal digits as there are. A value
  out of the range of \<open>int\<close> is undefined behaviour; the header of a chat message has four
  characters and cannot have one, the programs that convert an argument ask with \<open>c_int\<close>.
\<close>

definition atoi :: "string \<Rightarrow> int" where
  "atoi s =
     (case dropWhile is_space s of
        [] \<Rightarrow> 0
      | c # t \<Rightarrow>
          if c = CHR ''-'' then - dec_value (takeWhile is_dec t)
          else if c = CHR ''+'' then dec_value (takeWhile is_dec t)
          else dec_value (takeWhile is_dec (c # t)))"

lemma nat_to_string_length: "n < 10000 \<Longrightarrow> length (nat_to_string n) \<le> 4"
proof -
  assume "n < 10000"
  then have "n div 10 div 10 div 10 < 10" by simp
  then show ?thesis
    by (simp add: nat_to_string.simps [of n] nat_to_string.simps [of "n div 10"]
        nat_to_string.simps [of "n div 10 div 10"] nat_to_string.simps [of "n div 10 div 10 div 10"])
qed

lemma dec_not_special:
  "is_dec c \<Longrightarrow> \<not> is_space c \<and> c \<noteq> CHR ''-'' \<and> c \<noteq> CHR ''+'' \<and> c \<noteq> NUL"
  by (auto simp: is_dec_def is_space_def char_to_int_def)

lemma dropWhile_space_digits:
  "\<forall>c \<in> set ds. is_dec c \<Longrightarrow> dropWhile is_space ds = ds"
  using dec_not_special by (cases ds) auto

lemma dec_value_zeros: "dec_value (replicate k CHR ''0'' @ ds) = dec_value ds"
proof -
  have "foldl (\<lambda>v c. v * 10 + (char_to_int c - 48)) 0 (replicate k CHR ''0'') = 0"
    by (induction k) (simp_all add: char_to_int_def)
  then show ?thesis by (simp add: dec_value_def)
qed

definition hex_digit :: "char \<Rightarrow> int option" where
  "hex_digit c =
     (let v = char_to_int c in
      if 48 \<le> v \<and> v \<le> 57 then Some (v - 48)
      else if 65 \<le> v \<and> v \<le> 70 then Some (v - 55)
      else if 97 \<le> v \<and> v \<le> 102 then Some (v - 87)
      else None)"

fun hex_digits :: "string \<Rightarrow> int list" where
  "hex_digits [] = []"
| "hex_digits (c # s) = (case hex_digit c of None \<Rightarrow> [] | Some d \<Rightarrow> d # hex_digits s)"

definition hex_value :: "int list \<Rightarrow> int" where
  "hex_value ds = foldl (\<lambda>v d. v * 16 + d) 0 ds"

text \<open>
  \<open>is >> std::hex >> value\<close> on a string stream: leading white space is skipped, then an
  optional sign, an optional \<open>0x\<close> and at least one hexadecimal digit are read; what follows
  the digits stays in the stream and is not an error. \<open>None\<close> is the fail state. (The fields
  the program reads are two characters long, so the value always fits an \<open>int\<close>.)
\<close>

definition hex_magnitude :: "string \<Rightarrow> int option" where
  "hex_magnitude s =
     (let t = (case s of c # d # u \<Rightarrow>
                 if c = CHR ''0'' \<and> (d = CHR ''x'' \<or> d = CHR ''X'') then u else s
               | _ \<Rightarrow> s)
      in case hex_digits t of [] \<Rightarrow> None | ds \<Rightarrow> Some (hex_value ds))"

definition extract_hex :: "string \<Rightarrow> int option" where
  "extract_hex s =
     (case dropWhile is_space s of
        [] \<Rightarrow> None
      | c # t \<Rightarrow>
          if c = CHR ''-'' then map_option uminus (hex_magnitude t)
          else if c = CHR ''+'' then hex_magnitude t
          else hex_magnitude (c # t))"

lemma hex_digit_range: "hex_digit c = Some d \<Longrightarrow> 0 \<le> d \<and> d \<le> 15"
  by (auto simp: hex_digit_def Let_def split: if_splits)

section \<open>Strings\<close>

text \<open>What \<open>c_str()\<close> shows to a C function: the bytes before the first NUL.\<close>

definition c_str :: "string \<Rightarrow> string" where
  "c_str s = takeWhile (\<lambda>c. c \<noteq> NUL) s"

text \<open>
  \<open>std::string::find\<close> and \<open>find_last_of\<close> (of one character), with \<open>None\<close> for
  \<open>npos\<close>.
\<close>

fun find_sub :: "string \<Rightarrow> string \<Rightarrow> nat option" where
  "find_sub sub [] = (if sub = [] then Some 0 else None)"
| "find_sub sub (c # s) =
     (if prefix sub (c # s) then Some 0 else map_option Suc (find_sub sub s))"

fun find_last_of :: "char \<Rightarrow> string \<Rightarrow> nat option" where
  "find_last_of x [] = None"
| "find_last_of x (c # s) =
     (case find_last_of x s of
        Some i \<Rightarrow> Some (Suc i)
      | None \<Rightarrow> if c = x then Some 0 else None)"

lemma find_sub_None_iff: "find_sub sub s = None \<longleftrightarrow> \<not> sublist sub s"
  by (induction s) (auto simp: sublist_Cons_right)

lemma find_last_of_None_iff: "find_last_of x s = None \<longleftrightarrow> x \<notin> set s"
  by (induction s) (auto split: option.splits)

lemma find_last_of_SomeD:
  "find_last_of x s = Some i \<Longrightarrow> i < length s \<and> s ! i = x \<and> x \<notin> set (drop (Suc i) s)"
proof (induction s arbitrary: i)
  case Nil
  then show ?case by simp
next
  case (Cons c s)
  then show ?case
    by (auto split: option.splits if_splits simp: find_last_of_None_iff)
qed

lemma c_str_prefix: "prefix (c_str s) s"
  unfolding c_str_def by (metis prefix_def takeWhile_dropWhile_id)

lemma c_str_no_NUL: "NUL \<notin> set (c_str s)"
  by (auto simp: c_str_def dest: set_takeWhileD)

lemma c_str_id: "NUL \<notin> set s \<Longrightarrow> c_str s = s"
  unfolding c_str_def by (rule takeWhile_eq_all_conv [THEN iffD2]) auto

lemma c_str_append: "NUL \<notin> set s \<Longrightarrow> c_str (s @ t) = s @ c_str t"
  by (induction s) (auto simp: c_str_def)

section \<open>Lists\<close>

lemma in_remove1D: "y \<in> set (remove1 x xs) \<Longrightarrow> y \<in> set xs"
  using set_remove1_subset [of x xs] by auto

section \<open>Ordered sets of pointers\<close>

text \<open>
  \<open>std::set<std::shared_ptr<T>>\<close> orders its elements by address and holds each once. An object
  is named by its address, a \<open>nat\<close>; the set is the list of its addresses in iteration order.
\<close>

type_synonym address = nat

definition std_set_insert :: "address \<Rightarrow> address list \<Rightarrow> address list" where
  "std_set_insert a xs = insort_insert a xs"

definition std_set_erase :: "address \<Rightarrow> address list \<Rightarrow> address list" where
  "std_set_erase a xs = filter (\<lambda>b. b \<noteq> a) xs"

definition std_set_ok :: "address list \<Rightarrow> bool" where
  "std_set_ok xs \<longleftrightarrow> sorted xs \<and> distinct xs"

lemma std_set_insert_elems [simp, cxx_set]: "set (std_set_insert a xs) = insert a (set xs)"
  by (simp add: std_set_insert_def set_insort_insert)

lemma std_set_erase_elems [simp, cxx_set]: "set (std_set_erase a xs) = set xs - {a}"
  by (auto simp: std_set_erase_def)

lemma std_set_ok_Nil [simp, cxx_set]: "std_set_ok []"
  by (simp add: std_set_ok_def)

lemma std_set_ok_insert [simp, cxx_set]: "std_set_ok xs \<Longrightarrow> std_set_ok (std_set_insert a xs)"
  by (simp add: std_set_ok_def std_set_insert_def sorted_insort_insert distinct_insort_insert)

lemma std_set_ok_erase [simp, cxx_set]: "std_set_ok xs \<Longrightarrow> std_set_ok (std_set_erase a xs)"
  by (simp add: std_set_ok_def std_set_erase_def sorted_filter [of id, simplified])

lemma std_set_erase_absent: "a \<notin> set xs \<Longrightarrow> std_set_erase a xs = xs"
  by (auto simp: std_set_erase_def filter_id_conv)

section \<open>Counting outstanding operations\<close>

lemma count_list_remove1 [simp]: "count_list (remove1 x xs) y = count_list xs y - (if x = y then 1 else 0)"
  by (induction xs) (auto simp: Suc_diff_Suc count_list_0_iff)

lemma count_list_pos: "x \<in> set xs \<longleftrightarrow> 0 < count_list xs x"
  using count_list_0_iff [of xs x] by auto

text \<open>\<open>std::to_string\<close> of an \<open>int\<close>, and what \<open>std::cout\<close> shows of one.\<close>

definition int_to_string :: "int \<Rightarrow> string" where
  "int_to_string v = (if v < 0 then CHR ''-'' # nat_to_string (nat (- v)) else nat_to_string (nat v))"

section \<open>Programs\<close>

text \<open>
  The usage text and \<open>return 1\<close>; an exception caught in \<open>main\<close>, which then returns 0; one that
  leaves \<open>main\<close> and terminates the program; undefined behaviour; or the event loop with the
  server in its first state.
\<close>

datatype 's main_run = Main_usage | Main_caught | Main_terminated | Main_undefined | Main_runs 's

text \<open>The status of a program that ends by itself.\<close>

definition exit_status :: "'s main_run \<Rightarrow> nat option" where
  "exit_status m = (case m of Main_usage \<Rightarrow> Some 1 | Main_caught \<Rightarrow> Some 0 | _ \<Rightarrow> None)"

end
