(* ===== verification/Chat_Message.thy ===== *)
theory Chat_Message
  imports Cxx_Prelude
begin

text \<open>
  \<open>class chat_message\<close> of boost_chat/chat_message.hpp: a fixed buffer of a four character
  header and at most 512 characters of body, and the length of the body. The constructor leaves
  the buffer uninitialised, so a byte of it is \<open>None\<close> until something writes it. The operations
  return \<open>None\<close> where the code has undefined behaviour: an access outside the buffer, or the
  use of an uninitialised byte as a value.
\<close>

section \<open>The message and its operations\<close>

definition header_length :: nat where
  "header_length = 4"

definition max_body_length :: nat where
  "max_body_length = 512"

record chat_message =
  msg_data :: "char option list"
  msg_body_length :: nat

definition new_message :: chat_message where
  "new_message =
     \<lparr>msg_data = replicate (header_length + max_body_length) None, msg_body_length = 0\<rparr>"

definition msg_length :: "chat_message \<Rightarrow> nat" where
  "msg_length m = header_length + msg_body_length m"

definition set_body_length :: "nat \<Rightarrow> chat_message \<Rightarrow> chat_message" where
  "set_body_length new_length m =
     (if new_length > max_body_length then m\<lparr>msg_body_length := max_body_length\<rparr>
      else m\<lparr>msg_body_length := new_length\<rparr>)"

text \<open>
  Copying characters to \<open>msg_data + off\<close>, as \<open>memcpy\<close> and a socket read do: nothing may be
  written beyond the array.
\<close>

definition store :: "nat \<Rightarrow> string \<Rightarrow> chat_message \<Rightarrow> chat_message option" where
  "store off cs m =
     (if off + length cs \<le> length (msg_data m)
      then Some (m\<lparr>msg_data := take off (msg_data m) @ map Some cs @ drop (off + length cs) (msg_data m)\<rparr>)
      else None)"

definition store_body :: "string \<Rightarrow> chat_message \<Rightarrow> chat_message option" where
  "store_body cs m = store header_length cs m"

text \<open>\<open>strncat(header, msg_data, n)\<close> into an empty string: up to \<open>n\<close> characters before a NUL.\<close>

fun strncat :: "nat \<Rightarrow> char option list \<Rightarrow> string option" where
  "strncat 0 ds = Some []"
| "strncat (Suc n) [] = None"
| "strncat (Suc n) (d # ds) =
     (case d of
        None \<Rightarrow> None
      | Some c \<Rightarrow> if c = NUL then Some [] else map_option ((#) c) (strncat n ds))"

definition decode_header :: "chat_message \<Rightarrow> (bool \<times> chat_message) option" where
  "decode_header m =
     map_option
       (\<lambda>header.
          let n = to_size (atoi header)
          in if n > max_body_length then (False, m\<lparr>msg_body_length := 0\<rparr>)
             else (True, m\<lparr>msg_body_length := n\<rparr>))
       (strncat header_length (msg_data m))"

text \<open>
  \<open>sprintf(header, "%4d", n)\<close> for a non-negative number: padded with spaces to four
  characters. The array \<open>header\<close> has room for four and the NUL.
\<close>

definition format_4d :: "nat \<Rightarrow> string" where
  "format_4d n = replicate (4 - length (nat_to_string n)) CHR '' '' @ nat_to_string n"

definition encode_header :: "chat_message \<Rightarrow> chat_message option" where
  "encode_header m =
     (let header = format_4d (msg_body_length m)
      in if length header > header_length then None else store 0 header m)"

text \<open>The bytes a write of \<open>length()\<close> characters from \<open>data()\<close> sends.\<close>

definition wire_bytes :: "chat_message \<Rightarrow> char option list" where
  "wire_bytes m = take (msg_length m) (msg_data m)"

text \<open>The characters of the body, when all of them have been written.\<close>

definition body_text :: "chat_message \<Rightarrow> char option list" where
  "body_text m = take (msg_body_length m) (drop header_length (msg_data m))"

section \<open>Well-formed messages\<close>

definition message_wf :: "chat_message \<Rightarrow> bool" where
  "message_wf m \<longleftrightarrow>
     length (msg_data m) = header_length + max_body_length \<and> msg_body_length m \<le> max_body_length"

lemmas message_consts = header_length_def max_body_length_def

lemma new_message_wf [simp]: "message_wf new_message"
  by (simp add: message_wf_def new_message_def)

lemma set_body_length_wf [simp]: "message_wf m \<Longrightarrow> message_wf (set_body_length n m)"
  by (simp add: message_wf_def set_body_length_def)

lemma store_wf: "store off cs m = Some m' \<Longrightarrow> message_wf m \<Longrightarrow> message_wf m'"
  by (auto simp: store_def message_wf_def split: if_splits)

lemma store_Some_iff: "message_wf m \<Longrightarrow> store off cs m \<noteq> None \<longleftrightarrow> off + length cs \<le> 516"
  by (auto simp: store_def message_wf_def message_consts)

lemma decode_header_wf: "decode_header m = Some (ok, m') \<Longrightarrow> message_wf m \<Longrightarrow> message_wf m'"
  by (auto simp: decode_header_def message_wf_def Let_def split: if_splits)

lemma format_4d_length: "n < 10000 \<Longrightarrow> length (format_4d n) = 4"
  using nat_to_string_length [of n] by (simp add: format_4d_def)

lemma encode_header_defined:
  assumes "message_wf m"
  shows "\<exists>m'. encode_header m = Some m' \<and> message_wf m'"
proof -
  have "msg_body_length m < 10000"
    using assms by (simp add: message_wf_def message_consts)
  then have "length (format_4d (msg_body_length m)) = 4" by (rule format_4d_length)
  moreover obtain m' where "store 0 (format_4d (msg_body_length m)) m = Some m'"
    using store_Some_iff [OF assms, of 0 "format_4d (msg_body_length m)"] calculation by auto
  ultimately show ?thesis
    using store_wf [OF _ assms] by (auto simp: encode_header_def header_length_def)
qed

section \<open>Encoding and decoding\<close>

lemma strncat_chars:
  "NUL \<notin> set cs \<Longrightarrow> strncat (length cs) (map Some cs @ ds) = Some cs"
  by (induction cs) auto

lemma strncat_c_str:
  "strncat (length cs) (map Some cs @ ds) = Some (c_str cs)"
  by (induction cs) (auto simp: c_str_def)

lemma atoi_digits:
  assumes "ds \<noteq> []" "\<forall>c \<in> set ds. is_dec c"
  shows "atoi (replicate k CHR '' '' @ ds) = dec_value ds"
proof -
  obtain d ds' where ds: "ds = d # ds'" using assms(1) by (cases ds) auto
  have "is_space CHR '' ''" by (simp add: is_space_def)
  then have "dropWhile is_space (replicate k CHR '' '' @ ds) = ds"
    using assms(2) dec_not_special by (induction k) (simp_all add: ds)
  then show ?thesis
    using assms(2) dec_not_special [of d]
    by (simp add: atoi_def ds takeWhile_eq_all_conv [THEN iffD2])
qed

text \<open>A number written with at most four characters is far from overflowing.\<close>

lemma dec_value_bound:
  "\<forall>c \<in> set ds. is_dec c \<Longrightarrow> 0 \<le> dec_value ds \<and> dec_value ds < 10 ^ length ds"
  by (induction ds rule: rev_induct) (auto simp: is_dec_def)

lemma dec_value_takeWhile_bound:
  "length ds \<le> 4 \<Longrightarrow> 0 \<le> dec_value (takeWhile is_dec ds) \<and> dec_value (takeWhile is_dec ds) < 10000"
proof -
  assume "length ds \<le> 4"
  then have "length (takeWhile is_dec ds) \<le> 4"
    using length_takeWhile_le [of is_dec ds] by linarith
  then have "(10 :: int) ^ length (takeWhile is_dec ds) \<le> 10 ^ 4"
    by (intro power_increasing) auto
  moreover have "\<forall>c \<in> set (takeWhile is_dec ds). is_dec c"
    using set_takeWhileD by fast
  ultimately show ?thesis
    using dec_value_bound [of "takeWhile is_dec ds"] by simp
qed

lemma atoi_bound: "length cs \<le> 4 \<Longrightarrow> - 10000 < atoi cs \<and> atoi cs < 10000"
proof -
  assume "length cs \<le> 4"
  then have len: "length (dropWhile is_space cs) \<le> 4"
    using length_dropWhile_le [of is_space cs] by linarith
  show ?thesis
  proof (cases "dropWhile is_space cs")
    case (Cons c t)
    with len dec_value_takeWhile_bound [of t] dec_value_takeWhile_bound [of "c # t"]
    show ?thesis by (simp add: atoi_def)
  next
    case Nil
    show ?thesis unfolding atoi_def Nil by simp
  qed
qed

lemma atoi_format_4d: "atoi (format_4d n) = int n"
  by (simp add: format_4d_def atoi_digits nat_to_string_nonempty nat_to_string_digits)

lemma format_4d_no_NUL: "NUL \<notin> set (format_4d n)"
  using nat_to_string_digits [of n] dec_not_special by (auto simp: format_4d_def)

lemma decode_of_header:
  assumes "msg_data m = map Some (format_4d n) @ ds" "n \<le> max_body_length"
  shows "decode_header m = Some (True, m\<lparr>msg_body_length := n\<rparr>)"
proof -
  have "length (format_4d n) = header_length"
    using format_4d_length [of n] assms(2) by (simp add: message_consts)
  then have "strncat header_length (msg_data m) = Some (format_4d n)"
    using strncat_chars [OF format_4d_no_NUL [of n], of ds] assms(1) by simp
  moreover have "to_size (atoi (format_4d n)) = n"
    using assms(2) by (simp add: to_size_def atoi_format_4d message_consts)
  ultimately show ?thesis using assms(2) by (simp add: decode_header_def)
qed

lemma encode_header_eq:
  assumes "message_wf m" "encode_header m = Some m'"
  shows "msg_data m' = map Some (format_4d (msg_body_length m)) @ drop header_length (msg_data m)"
    "msg_body_length m' = msg_body_length m"
proof -
  have "length (format_4d (msg_body_length m)) = 4"
    using assms(1) by (intro format_4d_length) (simp add: message_wf_def message_consts)
  with assms show "msg_data m' = map Some (format_4d (msg_body_length m)) @ drop header_length (msg_data m)"
    "msg_body_length m' = msg_body_length m"
    by (auto simp: encode_header_def store_def header_length_def Let_def split: if_splits)
qed

lemma decode_header_spec:
  assumes "message_wf m" and "take header_length (msg_data m) = map Some cs"
  shows "\<exists>ok m'. decode_header m = Some (ok, m') \<and> message_wf m' \<and> msg_data m' = msg_data m
    \<and> (ok \<longleftrightarrow> 0 \<le> atoi (c_str cs) \<and> atoi (c_str cs) \<le> 512)
    \<and> (ok \<longrightarrow> int (msg_body_length m') = atoi (c_str cs))"
proof -
  have "length cs = header_length"
    using arg_cong [OF assms(2), of length] assms(1) by (simp add: message_wf_def message_consts)
  moreover have "msg_data m = map Some cs @ drop header_length (msg_data m)"
    using assms(2) append_take_drop_id [of header_length "msg_data m"] by simp
  ultimately have "strncat header_length (msg_data m) = Some (c_str cs)"
    using strncat_c_str by metis
  then have dec: "decode_header m =
      (if to_size (atoi (c_str cs)) > 512 then Some (False, m\<lparr>msg_body_length := 0\<rparr>)
       else Some (True, m\<lparr>msg_body_length := to_size (atoi (c_str cs))\<rparr>))"
    by (simp add: decode_header_def max_body_length_def Let_def)
  have "length (c_str cs) \<le> 4"
    using \<open>length cs = header_length\<close> length_takeWhile_le [of "\<lambda>c. c \<noteq> NUL" cs]
    by (simp add: c_str_def header_length_def)
  then have "to_size (atoi (c_str cs)) \<le> 512 \<longleftrightarrow> 0 \<le> atoi (c_str cs) \<and> atoi (c_str cs) \<le> 512"
    "to_size (atoi (c_str cs)) \<le> 512 \<Longrightarrow> int (to_size (atoi (c_str cs))) = atoi (c_str cs)"
    using to_size_small [of "atoi (c_str cs)"] atoi_bound [of "c_str cs"] by (auto split: if_splits)
  then show ?thesis
    using assms(1)
    by (cases "to_size (atoi (c_str cs)) \<le> 512") (auto simp: dec message_wf_def max_body_length_def)
qed

section \<open>Properties\<close>

text \<open>
  Property C29. The header survives the wire: a receiver whose buffer starts with the header
  of an encoded message decodes exactly its body length, whatever its own message held before,
  and encoding leaves the body alone.
\<close>

theorem header_round_trip:
  assumes "message_wf m" and "encode_header m = Some m'"
    and "store 0 (map the (take header_length (msg_data m'))) r = Some r'"
  shows "decode_header r' = Some (True, r'\<lparr>msg_body_length := msg_body_length m\<rparr>)
    \<and> body_text m' = body_text m"
proof
  note eq = encode_header_eq [OF assms(1, 2)]
  have len: "length (format_4d (msg_body_length m)) = header_length"
    using assms(1) format_4d_length [of "msg_body_length m"]
    by (simp add: message_wf_def message_consts)
  then have "map the (take header_length (msg_data m')) = format_4d (msg_body_length m)"
    by (simp add: eq(1) comp_def)
  with assms(3) have "msg_data r' = map Some (format_4d (msg_body_length m)) @ drop header_length (msg_data r)"
    using len by (auto simp: store_def split: if_splits)
  then show "decode_header r' = Some (True, r'\<lparr>msg_body_length := msg_body_length m\<rparr>)"
    using assms(1) by (intro decode_of_header) (simp_all add: message_wf_def)
  show "body_text m' = body_text m"
    using len by (simp add: body_text_def eq)
qed

theorem header_round_trip_witness:
  "\<exists>m' r'. encode_header (set_body_length 7 new_message) = Some m'
     \<and> decode_header r' = Some (True, r'\<lparr>msg_body_length := 7\<rparr>)"
proof -
  have len: "msg_body_length (set_body_length 7 new_message) = 7"
    by (simp add: set_body_length_def max_body_length_def)
  let ?m = "set_body_length 7 new_message"
  obtain m' where m': "encode_header ?m = Some m'" "message_wf m'"
    using encode_header_defined [of ?m] by auto
  obtain r' where "store 0 (map the (take header_length (msg_data m'))) new_message = Some r'"
    using store_Some_iff [OF new_message_wf, of 0 "map the (take header_length (msg_data m'))"]
    by (auto simp: header_length_def)
  from header_round_trip [OF _ m'(1) this] m'(1) show ?thesis
    unfolding len by auto
qed

text \<open>
  Property C30. No header can make a message claim more than 512 characters: decoding is
  defined whenever the four bytes have been received, keeps the message well-formed, and
  succeeds exactly when the number is between 0 and 512 (a negative one wraps around to a huge
  length and is refused).
\<close>

theorem decode_header_bounds:
  assumes "message_wf m" and "take header_length (msg_data m) = map Some cs"
  shows "\<exists>ok m'. decode_header m = Some (ok, m') \<and> message_wf m' \<and> msg_data m' = msg_data m
    \<and> (ok \<longleftrightarrow> 0 \<le> atoi (c_str cs) \<and> atoi (c_str cs) \<le> 512)
    \<and> (ok \<longrightarrow> int (msg_body_length m') = atoi (c_str cs))"
  using assms by (rule decode_header_spec)

theorem decode_header_bounds_witness:
  "let m = new_message\<lparr>msg_data := map Some ''  17'' @ replicate 512 None\<rparr>
   in \<exists>ok m'. decode_header m = Some (ok, m')
     \<and> (ok \<longleftrightarrow> 0 \<le> atoi (c_str ''  17'') \<and> atoi (c_str ''  17'') \<le> 512)"
proof -
  let ?m = "new_message\<lparr>msg_data := map Some ''  17'' @ replicate 512 None\<rparr>"
  have "message_wf ?m" "take header_length (msg_data ?m) = map Some ''  17''"
    by (simp_all add: message_wf_def new_message_def message_consts)
  from decode_header_bounds [OF this] show ?thesis unfolding Let_def by blast
qed

end
