(* ===== verification/Asio.thy ===== *)
theory Asio
  imports Cxx_Prelude
begin

text \<open>
  What the programs see of Boost.Asio: the error code a completion handler gets, and the
  registries of shared pointers that keep sessions alive. Asio itself is not modelled; it
  appears as the nondeterministic choice of which outstanding operation completes next, and
  with what result. Operations are started by adding them to a list of outstanding
  operations; a completion takes the operation out of the list and runs its handler.
\<close>

section \<open>Error codes\<close>

text \<open>
  \<open>boost::system::error_code\<close> as the handlers distinguish it: no error,
  \<open>operation_aborted\<close> (the socket was closed under the operation), \<open>message_size\<close> (a
  datagram longer than the buffer), \<open>eof\<close>, and any other error.
\<close>

datatype error_code = No_error | Operation_aborted | Message_size | Eof | Other_error

section \<open>Registries\<close>

text \<open>
  A registry holds the shared pointers of the live participants in a \<open>std::set\<close>: the HTTP
  server's connection manager and the chat room both are one. What a provider promises is that
  entering inserts and leaving erases; what a client may use is below.
\<close>

datatype registry_op = Enter address | Leave address

fun registry_effect :: "registry_op list \<Rightarrow> address set \<Rightarrow> address set" where
  "registry_effect [] A = A"
| "registry_effect (Enter a # ops) A = registry_effect ops (insert a A)"
| "registry_effect (Leave a # ops) A = registry_effect ops (A - {a})"

locale registry =
  fixes members :: "'s \<Rightarrow> address list"
    and enter :: "address \<Rightarrow> 's \<Rightarrow> 's"
    and leave :: "address \<Rightarrow> 's \<Rightarrow> 's"
  assumes members_enter: "members (enter a s) = std_set_insert a (members s)"
    and members_leave: "members (leave a s) = std_set_erase a (members s)"
begin

definition apply_op :: "registry_op \<Rightarrow> 's \<Rightarrow> 's" where
  "apply_op r s = (case r of Enter a \<Rightarrow> enter a s | Leave a \<Rightarrow> leave a s)"

lemma ok_apply_op: "std_set_ok (members s) \<Longrightarrow> std_set_ok (members (apply_op r s))"
  by (cases r) (simp_all add: apply_op_def members_enter members_leave)

lemma members_run:
  "set (members (fold apply_op ops s)) = registry_effect ops (set (members s))"
  by (induction ops "set (members s)" arbitrary: s rule: registry_effect.induct)
     (simp_all add: apply_op_def members_enter members_leave)

lemma ok_run: "std_set_ok (members s) \<Longrightarrow> std_set_ok (members (fold apply_op ops s))"
  by (induction ops arbitrary: s) (simp_all add: ok_apply_op)

lemma leave_absent: "a \<notin> set (members s) \<Longrightarrow> members (leave a s) = members s"
  by (simp add: members_leave std_set_erase_absent)

lemma leave_twice: "members (leave a (leave a s)) = members (leave a s)"
  by (simp add: members_leave std_set_erase_absent)

end

end
