(* ===== verification/Write_Queue.thy ===== *)
theory Write_Queue
  imports Asio
begin

text \<open>
  The pattern by which both chat programs write: a queue of messages of which at most one, the
  front, is being written. A new message starts a write only when the queue was empty, and the
  completion of a write pops the front and starts the next one. The locale is the contract;
  the session of the chat server and the chat client provide it.
\<close>

datatype 'm queue_event = Pushed 'm | Written

locale write_queue =
  fixes queue :: "'s \<Rightarrow> 'm list"
    and writing :: "'s \<Rightarrow> bool"
    and live :: "'s \<Rightarrow> bool"
    and push :: "'m \<Rightarrow> 's \<Rightarrow> 's"
    and written :: "'s \<Rightarrow> 's"
  assumes queue_push: "live s \<Longrightarrow> queue (push m s) = queue s @ [m]"
    and writing_push: "live s \<Longrightarrow> writing (push m s) \<longleftrightarrow> writing s \<or> queue s = []"
    and live_push: "live s \<Longrightarrow> live (push m s)"
    and queue_written: "live s \<Longrightarrow> writing s \<Longrightarrow> queue s \<noteq> [] \<Longrightarrow> queue (written s) = tl (queue s)"
    and writing_written:
      "live s \<Longrightarrow> writing s \<Longrightarrow> queue s \<noteq> [] \<Longrightarrow> writing (written s) \<longleftrightarrow> tl (queue s) \<noteq> []"
    and live_written: "live s \<Longrightarrow> writing s \<Longrightarrow> queue s \<noteq> [] \<Longrightarrow> live (written s)"
begin

text \<open>The state of rest: a write is in progress exactly when there is something to write.\<close>

definition steady :: "'s \<Rightarrow> bool" where
  "steady s \<longleftrightarrow> live s \<and> (writing s \<longleftrightarrow> queue s \<noteq> [])"

lemma steady_push: "steady s \<Longrightarrow> steady (push m s)"
  by (simp add: steady_def queue_push writing_push live_push)

lemma steady_written: "steady s \<Longrightarrow> queue s \<noteq> [] \<Longrightarrow> steady (written s)"
  by (simp add: steady_def queue_written writing_written live_written)

text \<open>
  A run of the queue: messages are pushed, and writes complete when one is in progress. The
  second component collects what has been written.
\<close>

fun queue_run :: "'m queue_event list \<Rightarrow> 's \<Rightarrow> 'm list \<Rightarrow> ('s \<times> 'm list) option" where
  "queue_run [] s out = Some (s, out)"
| "queue_run (Pushed m # es) s out = queue_run es (push m s) out"
| "queue_run (Written # es) s out =
     (if writing s then queue_run es (written s) (out @ [hd (queue s)]) else None)"

fun pushes :: "'m queue_event list \<Rightarrow> 'm list" where
  "pushes [] = []"
| "pushes (Pushed m # es) = m # pushes es"
| "pushes (Written # es) = pushes es"

lemma fifo:
  "queue_run es s out = Some (t, out') \<Longrightarrow> steady s \<Longrightarrow>
     steady t \<and> out' @ queue t = out @ queue s @ pushes es"
proof (induction es s out rule: queue_run.induct)
  case (2 m es s out)
  from 2(3) have "live s" by (simp add: steady_def)
  with 2(1) [OF _ steady_push [OF 2(3)]] 2(2) show ?case by (simp add: queue_push)
next
  case (3 es s out)
  then have s: "queue s \<noteq> []" "writing s" "live s" by (auto simp: steady_def split: if_splits)
  with 3(1) [OF s(2) _ steady_written [OF 3(3) s(1)]] 3(2) show ?case
    by (simp add: queue_written)
qed simp

text \<open>The same without the record: iterating the completion empties the queue.\<close>

lemma completions:
  "steady s \<Longrightarrow> n \<le> length (queue s) \<Longrightarrow>
     steady ((written ^^ n) s) \<and> queue ((written ^^ n) s) = drop n (queue s)"
proof (induction n)
  case (Suc n)
  then have "steady ((written ^^ n) s)" "queue ((written ^^ n) s) = drop n (queue s)"
    "drop n (queue s) \<noteq> []" by auto
  then show ?case
    using steady_written [of "(written ^^ n) s"] queue_written [of "(written ^^ n) s"]
    by (simp add: steady_def drop_Suc tl_drop)
qed simp

text \<open>A steady queue empties after as many completions as it has messages, in order.\<close>

lemma drains:
  "steady s \<Longrightarrow> \<exists>t. queue_run (replicate (length (queue s)) Written) s out = Some (t, out @ queue s)
     \<and> steady t \<and> queue t = []"
proof (induction "queue s" arbitrary: s out)
  case (Cons m ms)
  then have "queue s \<noteq> []" "writing s" "live s" by (auto simp: steady_def)
  moreover from this have "queue (written s) = ms" "length (queue s) = Suc (length ms)"
    using Cons.hyps(2) by (auto simp: queue_written dest: sym)
  moreover have "hd (queue s) = m" "queue s = m # ms" using Cons.hyps(2) by (metis list.sel(1))+
  ultimately show ?case
    using Cons.hyps(1) [of "written s" "out @ [m]"] steady_written [OF Cons.prems] by simp
qed simp

end

end
