(* ===== verification/Chat_Server.thy ===== *)
theory Chat_Server
  imports Chat_Message Write_Queue
begin

text \<open>
  boost_chat/chat_server.cpp: \<open>class chat_room\<close>, \<open>class chat_session\<close> and
  \<open>class chat_server\<close>, as functions on the state of one server (main builds one per port; they
  share nothing but the \<open>io_service\<close>). The fields of a session below the queue, and the log of
  the room, are history: the operations append to them and never read them. As in the HTTP
  server each handler is a function from the moment asio calls it until it returns, and
  \<open>None\<close> is undefined behaviour.
\<close>

section \<open>State\<close>

record chat_session =
  read_msg :: chat_message
  write_msgs :: "chat_message list"
  sess_in :: string
  sess_out :: "char option list"
  sess_offered :: "chat_message list"
  sess_posted :: "chat_message list"

datatype chat_op =
    Accept_chat
  | Header_op address
  | Body_op address nat
  | Send_op address

record chat_state =
  chat_ops :: "chat_op list"
  chat_objects :: "address \<Rightarrow> chat_session option"
  participants :: "address list"
  recent_msgs :: "chat_message list"
  room_log :: "chat_message list"

definition new_session :: chat_session where
  "new_session =
     \<lparr>read_msg = new_message, write_msgs = [], sess_in = [], sess_out = [], sess_offered = [],
      sess_posted = []\<rparr>"

definition chat_set :: "address \<Rightarrow> chat_session \<Rightarrow> chat_state \<Rightarrow> chat_state" where
  "chat_set a c s = s\<lparr>chat_objects := (chat_objects s)(a \<mapsto> c)\<rparr>"

definition chat_begin :: "chat_op \<Rightarrow> chat_state \<Rightarrow> chat_state" where
  "chat_begin p s = s\<lparr>chat_ops := chat_ops s @ [p]\<rparr>"

definition chat_finish :: "chat_op \<Rightarrow> chat_state \<Rightarrow> chat_state" where
  "chat_finish p s = s\<lparr>chat_ops := remove1 p (chat_ops s)\<rparr>"

section \<open>Sessions and the room\<close>

definition session_write :: "address \<Rightarrow> chat_state \<Rightarrow> chat_state" where
  "session_write a s = chat_begin (Send_op a) s"

definition session_deliver :: "address \<Rightarrow> chat_message \<Rightarrow> chat_state \<Rightarrow> chat_state" where
  "session_deliver a msg s =
     (case chat_objects s a of
        None \<Rightarrow> s
      | Some c \<Rightarrow>
          let write_in_progress = write_msgs c \<noteq> [];
              s1 = chat_set a (c\<lparr>write_msgs := write_msgs c @ [msg],
                                sess_offered := sess_offered c @ [msg]\<rparr>) s
          in if \<not> write_in_progress then session_write a s1 else s1)"

fun deliver_history :: "address \<Rightarrow> chat_message list \<Rightarrow> chat_state \<Rightarrow> chat_state" where
  "deliver_history a [] s = s"
| "deliver_history a (msg # msgs) s = deliver_history a msgs (session_deliver a msg s)"

fun deliver_each :: "address list \<Rightarrow> chat_message \<Rightarrow> chat_state \<Rightarrow> chat_state" where
  "deliver_each [] msg s = s"
| "deliver_each (a # as) msg s = deliver_each as msg (session_deliver a msg s)"

definition room_join :: "address \<Rightarrow> chat_state \<Rightarrow> chat_state" where
  "room_join a s =
     deliver_history a (recent_msgs s) (s\<lparr>participants := std_set_insert a (participants s)\<rparr>)"

definition room_leave :: "address \<Rightarrow> chat_state \<Rightarrow> chat_state" where
  "room_leave a s = s\<lparr>participants := std_set_erase a (participants s)\<rparr>"

definition max_recent_msgs :: nat where
  "max_recent_msgs = 100"

text \<open>The loop that drops the oldest messages, one at a time.\<close>

fun trim_recent :: "chat_message list \<Rightarrow> chat_message list" where
  "trim_recent q = (if length q > max_recent_msgs then trim_recent (tl q) else q)"

declare trim_recent.simps [simp del]

definition room_deliver :: "chat_message \<Rightarrow> chat_state \<Rightarrow> chat_state" where
  "room_deliver msg s =
     (let s1 = s\<lparr>recent_msgs := trim_recent (recent_msgs s @ [msg]), room_log := room_log s @ [msg]\<rparr>
      in deliver_each (participants s1) msg s1)"

definition do_read_header :: "address \<Rightarrow> chat_state \<Rightarrow> chat_state" where
  "do_read_header a s = chat_begin (Header_op a) s"

text \<open>The buffer for the body has the length of the whole message.\<close>

definition do_read_body :: "address \<Rightarrow> chat_message \<Rightarrow> chat_state \<Rightarrow> chat_state" where
  "do_read_body a m s = chat_begin (Body_op a (msg_length m)) s"

definition session_start :: "address \<Rightarrow> chat_state \<Rightarrow> chat_state" where
  "session_start a s = do_read_header a (room_join a s)"

section \<open>Completion handlers\<close>

text \<open>
  The header has been read, or as much of it (\<open>bytes\<close>) as came before the error.
\<close>

definition on_header :: "address \<Rightarrow> error_code \<Rightarrow> string \<Rightarrow> chat_state \<Rightarrow> chat_state option" where
  "on_header a ec bytes s =
     (case chat_objects s a of
        None \<Rightarrow> None
      | Some c \<Rightarrow>
          (case store 0 bytes (read_msg c) of
             None \<Rightarrow> None
           | Some m \<Rightarrow>
               let c1 = c\<lparr>read_msg := m, sess_in := sess_in c @ bytes\<rparr>
               in if ec = No_error then
                    (case decode_header m of
                       None \<Rightarrow> None
                     | Some (decoded, m1) \<Rightarrow>
                         let s1 = chat_set a (c1\<lparr>read_msg := m1\<rparr>) s
                         in if decoded then Some (do_read_body a m1 s1)
                            else Some (room_leave a s1))
                  else Some (room_leave a (chat_set a c1 s))))"

definition on_body :: "address \<Rightarrow> error_code \<Rightarrow> string \<Rightarrow> chat_state \<Rightarrow> chat_state option" where
  "on_body a ec bytes s =
     (case chat_objects s a of
        None \<Rightarrow> None
      | Some c \<Rightarrow>
          (case store_body bytes (read_msg c) of
             None \<Rightarrow> None
           | Some m \<Rightarrow>
               let c1 = c\<lparr>read_msg := m, sess_in := sess_in c @ bytes\<rparr>
               in if ec = No_error then
                    Some (do_read_header a
                      (room_deliver m (chat_set a (c1\<lparr>sess_posted := sess_posted c @ [m]\<rparr>) s)))
                  else Some (room_leave a (chat_set a c1 s))))"

text \<open>\<open>n\<close> bytes of the front of the queue have been written.\<close>

definition on_sent :: "address \<Rightarrow> error_code \<Rightarrow> nat \<Rightarrow> chat_state \<Rightarrow> chat_state option" where
  "on_sent a ec n s =
     (case chat_objects s a of
        None \<Rightarrow> None
      | Some c \<Rightarrow>
          (case write_msgs c of
             [] \<Rightarrow> None
           | m # ms \<Rightarrow>
               let c1 = c\<lparr>sess_out := sess_out c @ take n (wire_bytes m)\<rparr>
               in if ec = No_error then
                    let s1 = chat_set a (c1\<lparr>write_msgs := ms\<rparr>) s
                    in Some (if ms \<noteq> [] then session_write a s1 else s1)
                  else Some (room_leave a (chat_set a c1 s))))"

definition accept_next :: "chat_state \<Rightarrow> chat_state" where
  "accept_next s = chat_begin Accept_chat s"

definition on_connect :: "error_code \<Rightarrow> address \<Rightarrow> chat_state \<Rightarrow> chat_state" where
  "on_connect ec a s =
     accept_next (if ec = No_error then session_start a (chat_set a new_session s) else s)"

definition new_chat_server :: chat_state where
  "new_chat_server =
     accept_next
       \<lparr>chat_ops = [], chat_objects = (\<lambda>_. None), participants = [], recent_msgs = [],
        room_log = []\<rparr>"

section \<open>What the operations change\<close>

lemma chat_set_simps [simp]:
  "chat_ops (chat_set a c s) = chat_ops s"
  "chat_objects (chat_set a c s) = (chat_objects s)(a \<mapsto> c)"
  "participants (chat_set a c s) = participants s"
  "recent_msgs (chat_set a c s) = recent_msgs s"
  "room_log (chat_set a c s) = room_log s"
  by (simp_all add: chat_set_def)

lemma chat_begin_simps [simp]:
  "chat_ops (chat_begin p s) = chat_ops s @ [p]"
  "chat_objects (chat_begin p s) = chat_objects s"
  "participants (chat_begin p s) = participants s"
  "recent_msgs (chat_begin p s) = recent_msgs s"
  "room_log (chat_begin p s) = room_log s"
  by (simp_all add: chat_begin_def)

lemma chat_finish_simps [simp]:
  "chat_ops (chat_finish p s) = remove1 p (chat_ops s)"
  "chat_objects (chat_finish p s) = chat_objects s"
  "participants (chat_finish p s) = participants s"
  "recent_msgs (chat_finish p s) = recent_msgs s"
  "room_log (chat_finish p s) = room_log s"
  by (simp_all add: chat_finish_def)

lemma room_leave_simps [simp]:
  "chat_ops (room_leave a s) = chat_ops s"
  "chat_objects (room_leave a s) = chat_objects s"
  "participants (room_leave a s) = std_set_erase a (participants s)"
  "recent_msgs (room_leave a s) = recent_msgs s"
  "room_log (room_leave a s) = room_log s"
  by (simp_all add: room_leave_def)

text \<open>A session that is offered messages.\<close>

definition offer :: "chat_message list \<Rightarrow> chat_session \<Rightarrow> chat_session" where
  "offer msgs c =
     c\<lparr>write_msgs := write_msgs c @ msgs, sess_offered := sess_offered c @ msgs\<rparr>"

lemma offer_simps [simp]:
  "offer [] c = c"
  "offer msgs' (offer msgs c) = offer (msgs @ msgs') c"
  "write_msgs (offer msgs c) = write_msgs c @ msgs"
  "sess_offered (offer msgs c) = sess_offered c @ msgs"
  "read_msg (offer msgs c) = read_msg c"
  "sess_in (offer msgs c) = sess_in c"
  "sess_out (offer msgs c) = sess_out c"
  "sess_posted (offer msgs c) = sess_posted c"
  by (simp_all add: offer_def)

lemma session_deliver_simps [simp]:
  "participants (session_deliver a msg s) = participants s"
  "recent_msgs (session_deliver a msg s) = recent_msgs s"
  "room_log (session_deliver a msg s) = room_log s"
  "chat_objects (session_deliver a msg s) =
     (chat_objects s)(a := map_option (offer [msg]) (chat_objects s a))"
  by (auto simp: session_deliver_def session_write_def offer_def Let_def split: option.split)

lemma session_deliver_ops:
  "chat_ops (session_deliver a msg s) =
     chat_ops s @ (case chat_objects s a of None \<Rightarrow> []
                   | Some c \<Rightarrow> if write_msgs c = [] then [Send_op a] else [])"
  by (simp add: session_deliver_def session_write_def Let_def split: option.split)

text \<open>The session's queue is a write queue.\<close>

definition session_queue :: "address \<Rightarrow> chat_state \<Rightarrow> chat_message list" where
  "session_queue a s = (case chat_objects s a of None \<Rightarrow> [] | Some c \<Rightarrow> write_msgs c)"

definition session_writing :: "address \<Rightarrow> chat_state \<Rightarrow> bool" where
  "session_writing a s \<longleftrightarrow> Send_op a \<in> set (chat_ops s)"

definition session_live :: "address \<Rightarrow> chat_state \<Rightarrow> bool" where
  "session_live a s \<longleftrightarrow> chat_objects s a \<noteq> None \<and> count_list (chat_ops s) (Send_op a) \<le> 1
     \<and> (session_writing a s \<longrightarrow> session_queue a s \<noteq> [])"

definition session_sent :: "address \<Rightarrow> chat_state \<Rightarrow> chat_state" where
  "session_sent a s =
     (case on_sent a No_error (length (wire_bytes (hd (session_queue a s)))) (chat_finish (Send_op a) s)
      of None \<Rightarrow> s | Some t \<Rightarrow> t)"

lemma session_sent_eq:
  assumes "chat_objects s a = Some c" "write_msgs c = m # ms"
  shows "session_sent a s =
    (let s1 = chat_set a (c\<lparr>sess_out := sess_out c @ wire_bytes m, write_msgs := ms\<rparr>)
       (chat_finish (Send_op a) s)
     in if ms \<noteq> [] then session_write a s1 else s1)"
  using assms by (simp add: session_sent_def on_sent_def session_queue_def Let_def)

lemma session_liveE:
  assumes "session_live a s"
  obtains c where "chat_objects s a = Some c" "session_queue a s = write_msgs c"
    "count_list (chat_ops s) (Send_op a) \<le> 1"
    "Send_op a \<in> set (chat_ops s) \<longrightarrow> write_msgs c \<noteq> []"
proof -
  from assms obtain c where "chat_objects s a = Some c" by (auto simp: session_live_def)
  with assms show ?thesis
    by (intro that [of c]) (simp_all add: session_live_def session_queue_def session_writing_def)
qed

interpretation chat_queue: write_queue "session_queue a" "session_writing a" "session_live a"
    "session_deliver a" "session_sent a" for a
proof
  fix s m
  assume "session_live a s"
  then obtain c where c: "chat_objects s a = Some c" "session_queue a s = write_msgs c"
    "count_list (chat_ops s) (Send_op a) \<le> 1"
    "Send_op a \<in> set (chat_ops s) \<longrightarrow> write_msgs c \<noteq> []"
    by (rule session_liveE)
  show "session_queue a (session_deliver a m s) = session_queue a s @ [m]"
    using c by (simp add: session_queue_def)
  show "session_writing a (session_deliver a m s) \<longleftrightarrow> session_writing a s \<or> session_queue a s = []"
    using c by (simp add: session_writing_def session_deliver_ops)
  show "session_live a (session_deliver a m s)"
    using c by (auto simp: session_live_def session_queue_def session_deliver_ops count_list_pos)
next
  fix s
  assume live: "session_live a s" "session_writing a s" "session_queue a s \<noteq> []"
  obtain c where c0: "chat_objects s a = Some c" "session_queue a s = write_msgs c"
    "count_list (chat_ops s) (Send_op a) \<le> 1"
    using live(1) by (rule session_liveE)
  moreover have "0 < count_list (chat_ops s) (Send_op a)"
    using live(2) by (simp add: session_writing_def count_list_pos)
  moreover obtain m ms where "write_msgs c = m # ms"
    using live(3) c0(2) by (cases "write_msgs c") auto
  ultimately have c: "chat_objects s a = Some c" "session_queue a s = write_msgs c"
    "count_list (chat_ops s) (Send_op a) = 1" "write_msgs c = m # ms" by simp_all
  note eq = session_sent_eq [OF c(1, 4)]
  have none: "Send_op a \<notin> set (remove1 (Send_op a) (chat_ops s))"
    using c(3) by (simp add: count_list_pos)
  show "session_queue a (session_sent a s) = tl (session_queue a s)"
    using c by (simp add: eq session_queue_def session_write_def Let_def)
  show "session_writing a (session_sent a s) \<longleftrightarrow> tl (session_queue a s) \<noteq> []"
    using c none by (simp add: eq session_writing_def session_write_def Let_def)
  show "session_live a (session_sent a s)"
    using c none by (simp add: eq session_live_def session_writing_def session_queue_def
        session_write_def Let_def)
qed

text \<open>The room is a registry of sessions.\<close>

lemma deliver_history_simps [simp]:
  "participants (deliver_history a msgs s) = participants s"
  "recent_msgs (deliver_history a msgs s) = recent_msgs s"
  "room_log (deliver_history a msgs s) = room_log s"
  "chat_objects (deliver_history a msgs s) =
     (chat_objects s)(a := map_option (offer msgs) (chat_objects s a))"
  by (induction a msgs s rule: deliver_history.induct)
     (auto simp: fun_eq_iff option.map_comp comp_def map_option_case split: option.split)

interpretation chat_registry: registry participants room_join room_leave
  by unfold_locales (simp_all add: room_join_def)

end
