(* ===== verification/Chat_Service.thy ===== *)
theory Chat_Service
  imports Chat_Server "HOL-Library.Sublist"
begin

text \<open>
  The chat server as a process: the steps (asio completes one outstanding operation), the
  invariant of the reachable states, and what follows for the participants: which messages a
  session makes of the bytes it receives, and which bytes each client is sent.
\<close>

section \<open>Steps\<close>

fun chat_op_on :: "address \<Rightarrow> chat_op \<Rightarrow> bool" where
  "chat_op_on a Accept_chat \<longleftrightarrow> False"
| "chat_op_on a (Header_op b) \<longleftrightarrow> a = b"
| "chat_op_on a (Body_op b k) \<longleftrightarrow> a = b"
| "chat_op_on a (Send_op b) \<longleftrightarrow> a = b"

definition chat_referenced :: "address \<Rightarrow> chat_state \<Rightarrow> bool" where
  "chat_referenced a s \<longleftrightarrow>
     a \<in> set (participants s) \<or> (\<exists>p \<in> set (chat_ops s). chat_op_on a p)"

text \<open>
  Asio's contract for the composed operations is in the premises: \<open>async_read\<close> reports
  success exactly when the buffer is full, and a write without error has sent everything.
\<close>

inductive chat_step :: "chat_state \<Rightarrow> chat_state \<Rightarrow> bool" where
  connect_done: "Accept_chat \<in> set (chat_ops s) \<Longrightarrow> \<not> chat_referenced a s \<Longrightarrow>
     chat_objects s a = None \<Longrightarrow> chat_step s (on_connect ec a (chat_finish Accept_chat s))"
| header_done: "Header_op a \<in> set (chat_ops s) \<Longrightarrow> length bytes \<le> header_length \<Longrightarrow>
     (ec = No_error \<longleftrightarrow> length bytes = header_length) \<Longrightarrow>
     on_header a ec bytes (chat_finish (Header_op a) s) = Some t \<Longrightarrow> chat_step s t"
| body_done: "Body_op a k \<in> set (chat_ops s) \<Longrightarrow> length bytes \<le> k \<Longrightarrow>
     (ec = No_error \<longleftrightarrow> length bytes = k) \<Longrightarrow>
     on_body a ec bytes (chat_finish (Body_op a k) s) = Some t \<Longrightarrow> chat_step s t"
| sent_done: "Send_op a \<in> set (chat_ops s) \<Longrightarrow>
     (ec = No_error \<longrightarrow> n = length (wire_bytes (hd (session_queue a s)))) \<Longrightarrow>
     on_sent a ec n (chat_finish (Send_op a) s) = Some t \<Longrightarrow> chat_step s t"
| session_released: "chat_objects s a = Some c \<Longrightarrow> \<not> chat_referenced a s \<Longrightarrow>
     chat_step s (s\<lparr>chat_objects := (chat_objects s)(a := None)\<rparr>)"

inductive chat_reachable :: "chat_state \<Rightarrow> bool" where
  chat_start: "chat_reachable new_chat_server"
| chat_next: "chat_reachable s \<Longrightarrow> chat_step s t \<Longrightarrow> chat_reachable t"

section \<open>What a session makes of its input\<close>

text \<open>
  The code reads four characters for the header and then \<open>length()\<close>, four more than the body
  has: a frame of the stream it understands is a header, the body and four characters that are
  not part of the message.
\<close>

definition announced :: "string \<Rightarrow> int" where
  "announced s = atoi (c_str (take header_length s))"

definition frame_ok :: "string \<Rightarrow> bool" where
  "frame_ok f \<longleftrightarrow> 0 \<le> announced f \<and> announced f \<le> 512
     \<and> length f = nat (announced f) + 8"

function frames :: "string \<Rightarrow> string list" where
  "frames s =
     (if 8 \<le> length s \<and> 0 \<le> announced s \<and> announced s \<le> 512
         \<and> nat (announced s) + 8 \<le> length s
      then take (nat (announced s) + 8) s # frames (drop (nat (announced s) + 8) s)
      else [])"
  by auto
termination by (relation "measure length") auto

declare frames.simps [simp del]

text \<open>What the other participants are sent for a frame: all but its last four characters.\<close>

definition relayed :: "string \<Rightarrow> char option list" where
  "relayed f = map Some (take (length f - 4) f)"

lemma announced_append: "4 \<le> length f \<Longrightarrow> announced (f @ r) = announced f"
  by (simp add: announced_def header_length_def)

lemma frames_short: "length s < 8 \<Longrightarrow> frames s = []"
  by (subst frames.simps) simp

lemma frames_incomplete: "int (length s) < announced s + 8 \<Longrightarrow> frames s = []"
  by (subst frames.simps) auto

lemma frames_Cons: "frame_ok f \<Longrightarrow> frames (f @ r) = f # frames r"
  by (subst frames.simps) (simp add: frame_ok_def announced_append)

lemma frames_concat: "\<forall>f \<in> set fs. frame_ok f \<Longrightarrow> frames (concat fs @ r) = fs @ frames r"
  by (induction fs) (simp_all add: frames_Cons)

lemma frames_frame_ok: "\<forall>f \<in> set (frames s). frame_ok f"
proof (induction s rule: frames.induct)
  case (1 s)
  show ?case
  proof (cases "8 \<le> length s \<and> 0 \<le> announced s \<and> announced s \<le> 512
      \<and> nat (announced s) + 8 \<le> length s")
    case True
    then have "announced (take (nat (announced s) + 8) s) = announced s"
      by (simp add: announced_def header_length_def min_def)
    with True have "frame_ok (take (nat (announced s) + 8) s)"
      by (simp add: frame_ok_def)
    with True 1 show ?thesis unfolding frames.simps [of s] by simp
  next
    case False
    then have "frames s = []" unfolding frames.simps [of s] by (rule if_not_P)
    then show ?thesis by simp
  qed
qed

lemma frames_extend: "frames (concat (frames s) @ r) = frames s @ frames r"
  by (rule frames_concat [OF frames_frame_ok])

section \<open>The invariant of one session\<close>

definition good_message :: "chat_message \<Rightarrow> bool" where
  "good_message m \<longleftrightarrow> message_wf m \<and> None \<notin> set (wire_bytes m)"

definition wire :: "chat_message list \<Rightarrow> char option list" where
  "wire ms = concat (map wire_bytes ms)"

lemma wire_simps [simp]: "wire [] = []" "wire (m # ms) = wire_bytes m @ wire ms"
  "wire (ms @ ms') = wire ms @ wire ms'"
  by (simp_all add: wire_def)

text \<open>Where the input of a session that has an outstanding read stands.\<close>

fun reading_at :: "chat_session \<Rightarrow> chat_op \<Rightarrow> bool" where
  "reading_at c (Header_op b) \<longleftrightarrow> sess_in c = concat (frames (sess_in c))"
| "reading_at c (Body_op b k) \<longleftrightarrow>
     (\<exists>h. sess_in c = concat (frames (sess_in c)) @ h \<and> length h = 4
        \<and> take header_length (msg_data (read_msg c)) = map Some h
        \<and> announced h = int (msg_body_length (read_msg c))
        \<and> k = msg_body_length (read_msg c) + 4)"
| "reading_at c p \<longleftrightarrow> False"

definition input_ok :: "chat_session \<Rightarrow> chat_op list \<Rightarrow> bool" where
  "input_ok c rs \<longleftrightarrow> message_wf (read_msg c)
     \<and> map wire_bytes (sess_posted c) = map relayed (frames (sess_in c))
     \<and> length rs \<le> 1 \<and> (\<forall>p \<in> set rs. reading_at c p)"

text \<open>
  The messages a session has been offered are a stretch of the room's log, for a participant
  the end of it, with at least the recent messages; what has been sent is the beginning of them,
  in whole messages as long as the session can still write.
\<close>

definition output_ok ::
    "chat_message list \<Rightarrow> chat_message list \<Rightarrow> bool \<Rightarrow> nat \<Rightarrow> chat_session \<Rightarrow> bool" where
  "output_ok log recent joined n c \<longleftrightarrow>
     sublist (sess_offered c) log
     \<and> (joined \<longrightarrow> suffix (sess_offered c) log \<and> suffix recent (sess_offered c))
     \<and> n \<le> 1 \<and> (n = 1 \<longrightarrow> write_msgs c \<noteq> []) \<and> (joined \<longrightarrow> write_msgs c \<noteq> [] \<longrightarrow> n = 1)
     \<and> prefix (sess_out c) (wire (sess_offered c))
     \<and> (\<exists>w. sess_offered c = w @ write_msgs c \<and> (joined \<or> n = 1 \<longrightarrow> sess_out c = wire w))"

definition reads :: "address \<Rightarrow> chat_state \<Rightarrow> chat_op list" where
  "reads a s = filter (\<lambda>p. p = Header_op a \<or> (\<exists>k. p = Body_op a k)) (chat_ops s)"

definition sends :: "address \<Rightarrow> chat_state \<Rightarrow> nat" where
  "sends a s = count_list (chat_ops s) (Send_op a)"

definition session_ok :: "address \<Rightarrow> chat_state \<Rightarrow> bool" where
  "session_ok a s \<longleftrightarrow>
     (case chat_objects s a of
        None \<Rightarrow> a \<notin> set (participants s) \<and> reads a s = [] \<and> sends a s = 0
      | Some c \<Rightarrow> input_ok c (reads a s)
          \<and> output_ok (room_log s) (recent_msgs s) (a \<in> set (participants s)) (sends a s) c)"

definition room_ok :: "chat_state \<Rightarrow> bool" where
  "room_ok s \<longleftrightarrow> std_set_ok (participants s)
     \<and> recent_msgs s = drop (length (room_log s) - max_recent_msgs) (room_log s)
     \<and> (\<forall>m \<in> set (room_log s). good_message m)"

definition chat_core :: "chat_state \<Rightarrow> bool" where
  "chat_core s \<longleftrightarrow> room_ok s \<and> (\<forall>a. session_ok a s)"

definition chat_ok :: "chat_state \<Rightarrow> bool" where
  "chat_ok s \<longleftrightarrow> chat_core s \<and> (\<forall>a \<in> set (participants s). reads a s \<noteq> [])
     \<and> count_list (chat_ops s) Accept_chat = 1"

section \<open>How the pieces change\<close>

lemma reads_simps [simp]:
  "reads a (chat_set b c s) = reads a s"
  "reads a (chat_begin p s) =
     reads a s @ (if p = Header_op a \<or> (\<exists>k. p = Body_op a k) then [p] else [])"
  "reads a (room_leave b s) = reads a s"
  "reads a (s\<lparr>participants := as\<rparr>) = reads a s"
  "reads a (s\<lparr>recent_msgs := q, room_log := l\<rparr>) = reads a s"
  "reads a (s\<lparr>chat_objects := f\<rparr>) = reads a s"
  by (simp_all add: reads_def)

lemma sends_simps [simp]:
  "sends a (chat_set b c s) = sends a s"
  "sends a (chat_begin p s) = sends a s + (if p = Send_op a then 1 else 0)"
  "sends a (chat_finish p s) = sends a s - (if p = Send_op a then 1 else 0)"
  "sends a (room_leave b s) = sends a s"
  "sends a (s\<lparr>participants := as\<rparr>) = sends a s"
  "sends a (s\<lparr>recent_msgs := q, room_log := l\<rparr>) = sends a s"
  "sends a (s\<lparr>chat_objects := f\<rparr>) = sends a s"
  by (simp_all add: sends_def)

lemma reads_finish:
  "reads a (chat_finish p s) =
     (if p = Header_op a \<or> (\<exists>k. p = Body_op a k) then remove1 p (reads a s) else reads a s)"
  by (simp add: reads_def filter_remove1 remove1_idem)

lemma reads_finish_other [simp]:
  "reads a (chat_finish Accept_chat s) = reads a s"
  "reads a (chat_finish (Send_op b) s) = reads a s"
  "a \<noteq> b \<Longrightarrow> reads a (chat_finish (Header_op b) s) = reads a s"
  "a \<noteq> b \<Longrightarrow> reads a (chat_finish (Body_op b k) s) = reads a s"
  by (simp_all add: reads_finish)

lemma reads_deliver [simp]: "reads a (session_deliver b m s) = reads a s"
  by (simp add: reads_def session_deliver_ops split: option.split)

lemma reads_deliver_history [simp]: "reads a (deliver_history b ms s) = reads a s"
  by (induction b ms s rule: deliver_history.induct) simp_all

lemma sends_deliver:
  "sends a (session_deliver b m s) =
     sends a s + (if a = b \<and> chat_objects s a \<noteq> None \<and> session_queue a s = [] then 1 else 0)"
  by (auto simp: sends_def session_deliver_ops session_queue_def split: option.split)

lemma reads_pos: "p \<in> set (chat_ops s) \<Longrightarrow> p = Header_op a \<or> (\<exists>k. p = Body_op a k) \<Longrightarrow> p \<in> set (reads a s)"
  by (auto simp: reads_def)

lemma sends_pos: "Send_op a \<in> set (chat_ops s) \<longleftrightarrow> 0 < sends a s"
  by (simp add: sends_def count_list_pos)

lemma not_chat_referenced:
  "\<not> chat_referenced a s \<longleftrightarrow> a \<notin> set (participants s) \<and> reads a s = [] \<and> sends a s = 0"
proof -
  have "(\<exists>p \<in> set (chat_ops s). chat_op_on a p) \<longleftrightarrow> reads a s \<noteq> [] \<or> 0 < sends a s"
  proof
    assume "\<exists>p \<in> set (chat_ops s). chat_op_on a p"
    then obtain p where p: "p \<in> set (chat_ops s)" "chat_op_on a p" by blast
    show "reads a s \<noteq> [] \<or> 0 < sends a s"
    proof (cases "p = Send_op a")
      case True
      with p show ?thesis by (simp add: sends_pos [symmetric])
    next
      case False
      with p have "p \<in> set (reads a s)"
        by (cases p rule: chat_op.exhaust) (auto simp: reads_def)
      then show ?thesis by auto
    qed
  next
    assume "reads a s \<noteq> [] \<or> 0 < sends a s"
    then show "\<exists>p \<in> set (chat_ops s). chat_op_on a p"
      by (auto simp: sends_pos [symmetric] reads_def filter_empty_conv
          intro: bexI [of _ "Header_op a"] bexI [of _ "Body_op a _"] bexI [of _ "Send_op a"])
  qed
  then show ?thesis by (auto simp: chat_referenced_def)
qed

lemma trim_recent_drop: "trim_recent q = drop (length q - max_recent_msgs) q"
proof (induction q rule: trim_recent.induct)
  case (1 q)
  then show ?case
    by (subst trim_recent.simps)
       (cases q; auto simp: Suc_diff_le)
qed

section \<open>Delivering\<close>

lemma deliver_each_simps [simp]:
  "participants (deliver_each as m s) = participants s"
  "recent_msgs (deliver_each as m s) = recent_msgs s"
  "room_log (deliver_each as m s) = room_log s"
  "reads a (deliver_each as m s) = reads a s"
  by (induction as m s rule: deliver_each.induct) simp_all

lemma session_queue_deliver:
  "b \<noteq> a \<Longrightarrow> session_queue b (session_deliver a m s) = session_queue b s"
  by (simp add: session_queue_def)

lemma deliver_each_objects:
  "distinct as \<Longrightarrow> chat_objects (deliver_each as m s) b =
     (if b \<in> set as then map_option (offer [m]) (chat_objects s b) else chat_objects s b)"
  by (induction as m s rule: deliver_each.induct) auto

lemma deliver_each_sends:
  "distinct as \<Longrightarrow> sends b (deliver_each as m s) =
     sends b s + (if b \<in> set as \<and> chat_objects s b \<noteq> None \<and> session_queue b s = [] then 1 else 0)"
proof (induction as m s rule: deliver_each.induct)
  case (2 a as m s)
  show ?case
  proof (cases "b = a")
    case True
    with 2 show ?thesis by (simp add: sends_deliver)
  next
    case False
    with 2 show ?thesis by (simp add: sends_deliver session_queue_deliver)
  qed
qed simp

lemma deliver_history_sends:
  "sends b (deliver_history a ms s) =
     sends b s + (if b = a \<and> ms \<noteq> [] \<and> chat_objects s b \<noteq> None \<and> session_queue b s = [] then 1 else 0)"
proof (induction a ms s rule: deliver_history.induct)
  case (2 a m ms s)
  then show ?case
    by (auto simp: sends_deliver session_queue_def split: option.splits)
qed simp

lemma output_leave: "output_ok log recent j n c \<Longrightarrow> output_ok log recent' False n c"
  by (auto simp: output_ok_def)

lemma output_log: "output_ok log recent False n c \<Longrightarrow> output_ok (log @ [m]) recent' False n c"
  by (auto simp: output_ok_def sublist_snoc)

text \<open>A participant is offered a new message, which extends the log and the recent ones.\<close>

lemma output_offer:
  assumes "output_ok log recent True n c"
    and "suffix recent' (recent @ [m])"
  shows "output_ok (log @ [m]) recent' True (n + (if write_msgs c = [] then 1 else 0)) (offer [m] c)"
proof -
  from assms(1) have suf: "suffix (sess_offered c) log" "suffix recent (sess_offered c)"
    and n: "n \<le> 1" "n = 1 \<longleftrightarrow> write_msgs c \<noteq> []" by (auto simp: output_ok_def)
  from assms(1) obtain w where w: "sess_offered c = w @ write_msgs c" "sess_out c = wire w"
    by (auto simp: output_ok_def)
  have "suffix recent' (sess_offered c @ [m])"
    using assms(2) suf(2) by (meson same_suffix_suffix snoc_suffix_snoc suffix_order.trans)
  moreover have "suffix (sess_offered c @ [m]) (log @ [m])" using suf(1) by simp
  moreover have "n + (if write_msgs c = [] then 1 else 0) = 1" using n by auto
  moreover have "prefix (sess_out c) (wire (sess_offered c @ [m]))" by (simp add: w)
  ultimately show ?thesis
    unfolding output_ok_def using w by (auto simp del: suffix_snoc)
qed

lemma input_offer [simp]: "input_ok (offer ms c) rs = input_ok c rs"
proof -
  have "reading_at (offer ms c) p = reading_at c p" for p
    by (cases p) simp_all
  then show ?thesis by (simp add: input_ok_def)
qed

lemma input_irrelevant [simp]:
  "input_ok (c\<lparr>sess_out := b\<rparr>) rs = input_ok c rs"
  "input_ok (c\<lparr>write_msgs := q\<rparr>) rs = input_ok c rs"
proof -
  have "reading_at (c\<lparr>sess_out := b\<rparr>) p = reading_at c p"
    "reading_at (c\<lparr>write_msgs := q\<rparr>) p = reading_at c p" for p
    by (cases p rule: chat_op.exhaust; simp)+
  then show "input_ok (c\<lparr>sess_out := b\<rparr>) rs = input_ok c rs"
    "input_ok (c\<lparr>write_msgs := q\<rparr>) rs = input_ok c rs" by (simp_all add: input_ok_def)
qed

lemma recent_trimmed:
  assumes "recent = drop (length log - max_recent_msgs) log"
  shows "trim_recent (recent @ [m]) = drop (length (log @ [m]) - max_recent_msgs) (log @ [m])"
proof (cases "length log \<le> max_recent_msgs")
  case True
  with assms show ?thesis by (simp add: trim_recent_drop)
next
  case False
  then have "length log - max_recent_msgs + 1 = length (log @ [m]) - max_recent_msgs" by simp
  with False assms show ?thesis
    by (simp add: trim_recent_drop max_recent_msgs_def)
qed

lemma core_deliver:
  assumes "chat_core s" "good_message m"
  shows "chat_core (room_deliver m s)"
proof -
  from assms(1) have room: "room_ok s" and sess: "\<And>a. session_ok a s" by (auto simp: chat_core_def)
  from room have dist: "distinct (participants s)" by (simp add: room_ok_def std_set_ok_def)
  have trim: "suffix (trim_recent (recent_msgs s @ [m])) (recent_msgs s @ [m])"
    by (simp only: trim_recent_drop suffix_drop)
  have "room_ok (room_deliver m s)"
    using room assms(2) recent_trimmed [of "recent_msgs s" "room_log s" m]
    by (simp add: room_ok_def room_deliver_def Let_def)
  moreover have "session_ok a (room_deliver m s)" for a
  proof (cases "chat_objects s a")
    case None
    with sess [of a] show ?thesis
      by (simp add: session_ok_def room_deliver_def Let_def deliver_each_objects deliver_each_sends dist)
  next
    case (Some c)
    then have q: "session_queue a s = write_msgs c" by (simp add: session_queue_def)
    show ?thesis
    proof (cases "a \<in> set (participants s)")
      case True
      with sess [of a] Some
      have ok: "input_ok c (reads a s)" "output_ok (room_log s) (recent_msgs s) True (sends a s) c"
        by (simp_all add: session_ok_def)
      from output_offer [OF ok(2) trim] ok(1) True Some q show ?thesis
        by (simp add: session_ok_def room_deliver_def Let_def deliver_each_objects
            deliver_each_sends dist session_queue_def)
    next
      case False
      with sess [of a] Some
      have ok: "input_ok c (reads a s)" "output_ok (room_log s) (recent_msgs s) False (sends a s) c"
        by (simp_all add: session_ok_def)
      from output_log [OF ok(2)] ok(1) False Some show ?thesis
        by (simp add: session_ok_def room_deliver_def Let_def deliver_each_objects
            deliver_each_sends dist)
    qed
  qed
  ultimately show ?thesis by (simp add: chat_core_def)
qed

section \<open>The other operations\<close>

lemma core_leave:
  assumes "chat_core s"
  shows "chat_core (room_leave a s)"
proof -
  have "session_ok b (room_leave a s)" for b
  proof (cases "chat_objects s b")
    case None
    with assms show ?thesis by (auto simp: chat_core_def session_ok_def dest: spec [of _ b])
  next
    case (Some c)
    with assms have "session_ok b s" by (simp add: chat_core_def)
    with Some show ?thesis
      by (cases "b = a") (auto simp: session_ok_def dest: output_leave)
  qed
  with assms show ?thesis by (simp add: chat_core_def room_ok_def)
qed

text \<open>A handler has taken its operation, on \<open>a\<close>, and changes the session.\<close>

lemma reads_finish_on: "chat_op_on a p \<Longrightarrow> b \<noteq> a \<Longrightarrow> reads b (chat_finish p s) = reads b s"
  by (cases p) (auto simp: reads_finish)

lemma sends_finish_on: "chat_op_on a p \<Longrightarrow> b \<noteq> a \<Longrightarrow> sends b (chat_finish p s) = sends b s"
  by (cases p) auto

lemma core_finish_set:
  assumes "chat_core s" "chat_op_on a p"
    and "input_ok c (reads a (chat_finish p s))"
    and "output_ok (room_log s) (recent_msgs s) (a \<in> set (participants s))
      (sends a (chat_finish p s)) c"
  shows "chat_core (chat_set a c (chat_finish p s))"
proof -
  have "session_ok b (chat_set a c (chat_finish p s))" for b
  proof (cases "b = a")
    case True
    with assms(3, 4) show ?thesis by (simp add: session_ok_def)
  next
    case False
    have "session_ok b s" using assms(1) by (simp add: chat_core_def)
    with False reads_finish_on [OF assms(2) False] sends_finish_on [OF assms(2) False]
    show ?thesis by (simp add: session_ok_def del: sends_simps(3) split: option.splits)
  qed
  with assms(1) show ?thesis by (simp add: chat_core_def room_ok_def)
qed

lemma core_begin_read:
  assumes "chat_core s" "chat_objects s a = Some c" "reads a s = []"
    and "p = Header_op a \<or> (\<exists>k. p = Body_op a k)" "reading_at c p"
  shows "chat_core (chat_begin p s)"
proof -
  have "session_ok b (chat_begin p s)" for b
  proof (cases "b = a")
    case True
    have "session_ok a s" using assms(1) by (simp add: chat_core_def)
    with True assms(2-5) show ?thesis by (auto simp: session_ok_def input_ok_def)
  next
    case False
    have "session_ok b s" using assms(1) by (simp add: chat_core_def)
    with False assms(4) show ?thesis by (auto simp: session_ok_def split: option.splits)
  qed
  with assms(1) show ?thesis by (simp add: chat_core_def room_ok_def)
qed

lemma core_accept:
  assumes "chat_core s"
  shows "chat_core (accept_next s)" "chat_core (chat_finish Accept_chat s)"
proof -
  have "session_ok b (accept_next s) = session_ok b s"
    "session_ok b (chat_finish Accept_chat s) = session_ok b s" for b
    by (simp_all add: session_ok_def accept_next_def cong: option.case_cong)
  moreover have "room_ok (accept_next s) = room_ok s"
    "room_ok (chat_finish Accept_chat s) = room_ok s"
    by (simp_all add: room_ok_def accept_next_def)
  ultimately show "chat_core (accept_next s)" "chat_core (chat_finish Accept_chat s)"
    using assms by (simp_all add: chat_core_def)
qed

text \<open>Room operations never touch the reads, and the accept operation.\<close>

lemma accept_count [simp]:
  "count_list (chat_ops (room_deliver m s)) Accept_chat = count_list (chat_ops s) Accept_chat"
  "count_list (chat_ops (room_join a s)) Accept_chat = count_list (chat_ops s) Accept_chat"
proof -
  have one: "count_list (chat_ops (session_deliver a m s)) Accept_chat
      = count_list (chat_ops s) Accept_chat" for a m s
    by (simp add: session_deliver_ops split: option.split)
  have "count_list (chat_ops (deliver_each as m s)) Accept_chat
      = count_list (chat_ops s) Accept_chat" for as m s
    by (induction as m s rule: deliver_each.induct) (simp_all add: one)
  then show "count_list (chat_ops (room_deliver m s)) Accept_chat
      = count_list (chat_ops s) Accept_chat"
    by (simp add: room_deliver_def Let_def)
  have "count_list (chat_ops (deliver_history a ms s)) Accept_chat
      = count_list (chat_ops s) Accept_chat" for ms s
    by (induction a ms s rule: deliver_history.induct) (simp_all add: one)
  then show "count_list (chat_ops (room_join a s)) Accept_chat
      = count_list (chat_ops s) Accept_chat"
    by (simp add: room_join_def)
qed

lemma room_deliver_frame [simp]:
  "participants (room_deliver m s) = participants s"
  "reads a (room_deliver m s) = reads a s"
  by (simp_all add: room_deliver_def Let_def)

lemma room_join_frame [simp]:
  "participants (room_join a s) = std_set_insert a (participants s)"
  "reads b (room_join a s) = reads b s"
  by (simp_all add: room_join_def)

section \<open>Every handler preserves the invariant\<close>

lemma core_change:
  assumes "chat_core s" "room_log t = room_log s" "recent_msgs t = recent_msgs s"
    and "std_set_ok (participants t)"
    and "\<And>b. b \<noteq> a \<Longrightarrow> b \<in> set (participants t) \<longleftrightarrow> b \<in> set (participants s)"
    and "\<And>b. b \<noteq> a \<Longrightarrow> chat_objects t b = chat_objects s b"
    and "\<And>b. b \<noteq> a \<Longrightarrow> reads b t = reads b s" "\<And>b. b \<noteq> a \<Longrightarrow> sends b t = sends b s"
    and "session_ok a t"
  shows "chat_core t"
proof -
  have "session_ok b t" for b
  proof (cases "b = a")
    case False
    have "session_ok b s" using assms(1) by (simp add: chat_core_def)
    with assms(2,3) assms(5-8) [OF False] show ?thesis
      by (simp add: session_ok_def cong: option.case_cong)
  qed (use assms(9) in simp)
  with assms(1-4) show ?thesis by (simp add: chat_core_def room_ok_def)
qed

lemma chat_okI:
  assumes "chat_ok s" "chat_core t"
    and "\<And>b. b \<noteq> a \<Longrightarrow> b \<in> set (participants t) \<Longrightarrow> b \<in> set (participants s)"
    and "\<And>b. b \<noteq> a \<Longrightarrow> reads b t = reads b s"
    and "a \<in> set (participants t) \<Longrightarrow> reads a t \<noteq> []"
    and "count_list (chat_ops t) Accept_chat = count_list (chat_ops s) Accept_chat"
  shows "chat_ok t"
proof -
  have "reads b t \<noteq> []" if "b \<in> set (participants t)" for b
    using that assms(1,3,4,5) by (cases "b = a") (auto simp: chat_ok_def)
  with assms(1,2,6) show ?thesis by (simp add: chat_ok_def)
qed

lemma output_irrelevant [simp]:
  "output_ok log r j n (c\<lparr>read_msg := m\<rparr>) = output_ok log r j n c"
  "output_ok log r j n (c\<lparr>sess_in := i\<rparr>) = output_ok log r j n c"
  "output_ok log r j n (c\<lparr>sess_posted := q\<rparr>) = output_ok log r j n c"
  by (simp_all add: output_ok_def)

lemma core_join:
  assumes "chat_core s" "chat_objects s a = None"
  shows "chat_core (room_join a (chat_set a new_session s))"
proof (rule core_change [OF assms(1)])
  have room: "room_ok s" and none: "session_ok a s" using assms(1) by (simp_all add: chat_core_def)
  from none assms(2) have no: "reads a s = []" "sends a s = 0" by (simp_all add: session_ok_def)
  from room have suf: "suffix (recent_msgs s) (room_log s)"
    by (simp add: room_ok_def suffix_drop)
  from room show "std_set_ok (participants (room_join a (chat_set a new_session s)))"
    by (simp add: room_ok_def)
  have "input_ok new_session []"
    by (simp add: input_ok_def new_session_def frames_short)
  moreover have "output_ok (room_log s) (recent_msgs s) True (if recent_msgs s = [] then 0 else 1)
      (offer (recent_msgs s) new_session)"
    using suf by (simp add: output_ok_def new_session_def)
  ultimately show "session_ok a (room_join a (chat_set a new_session s))"
    using no by (auto simp: session_ok_def room_join_def deliver_history_sends session_queue_def
        new_session_def)
qed (simp_all add: room_join_def deliver_history_sends)

lemma on_connect_ok:
  assumes "chat_ok s" "Accept_chat \<in> set (chat_ops s)" "\<not> chat_referenced a s"
    and "chat_objects s a = None"
  shows "chat_ok (on_connect ec a (chat_finish Accept_chat s))"
proof (rule chat_okI [OF assms(1), of _ a])
  let ?s = "chat_finish Accept_chat s"
  have core: "chat_core ?s" using assms(1) by (simp add: chat_ok_def core_accept)
  have join: "chat_core (room_join a (chat_set a new_session ?s))"
    using core_join [OF core] assms(4) by simp
  have "reads a ?s = []" using assms(3) by (simp add: not_chat_referenced)
  then have "chat_core (session_start a (chat_set a new_session ?s))"
    unfolding session_start_def do_read_header_def
    by (intro core_begin_read [OF join, of a "offer (recent_msgs s) new_session"])
       (simp_all add: room_join_def new_session_def frames_short)
  then show "chat_core (on_connect ec a ?s)"
    using core by (simp add: on_connect_def core_accept)
  have one: "count_list (chat_ops s) Accept_chat = 1" using assms(1) by (simp add: chat_ok_def)
  then show "count_list (chat_ops (on_connect ec a ?s)) Accept_chat = count_list (chat_ops s) Accept_chat"
    by (simp add: on_connect_def accept_next_def session_start_def do_read_header_def)
qed (use assms(3) in \<open>auto simp: on_connect_def accept_next_def session_start_def
      do_read_header_def not_chat_referenced split: if_splits\<close>)

text \<open>What is known of the session whose operation completes.\<close>

lemma read_completes:
  assumes "chat_ok s" "p \<in> set (chat_ops s)" "p = Header_op a \<or> (\<exists>k. p = Body_op a k)"
  obtains c where "chat_objects s a = Some c" "reading_at c p" "input_ok c []"
    "reads a (chat_finish p s) = []"
    "output_ok (room_log s) (recent_msgs s) (a \<in> set (participants s)) (sends a s) c"
proof -
  have ok: "session_ok a s" using assms(1) by (simp add: chat_ok_def chat_core_def)
  have p: "p \<in> set (reads a s)" by (rule reads_pos [OF assms(2,3)])
  with ok obtain c where c: "chat_objects s a = Some c" "input_ok c (reads a s)"
    "output_ok (room_log s) (recent_msgs s) (a \<in> set (participants s)) (sends a s) c"
    by (auto simp: session_ok_def split: option.splits)
  moreover from c(2) p have "reads a s = [p]"
    by (cases "reads a s") (auto simp: input_ok_def)
  moreover from this assms(3) have "reads a (chat_finish p s) = []" by (auto simp: reads_finish)
  ultimately show thesis using that [of c] by (auto simp: input_ok_def)
qed

lemma store_header:
  assumes "store 0 bytes m = Some m'" "length bytes = header_length"
  shows "take header_length (msg_data m') = map Some bytes"
  using assms by (auto simp: store_def split: if_splits)

text \<open>A header, whole or not, does not complete a frame.\<close>

lemma header_keeps_frames:
  assumes "sess_in c = concat (frames (sess_in c))" "length bytes \<le> 4"
  shows "frames (sess_in c @ bytes) = frames (sess_in c)"
  using frames_extend [of "sess_in c" bytes] assms frames_short [of bytes] by simp

lemma on_header_ok:
  assumes ok: "chat_ok s" and p: "Header_op a \<in> set (chat_ops s)"
    and len: "length bytes \<le> header_length" and ec: "ec = No_error \<longleftrightarrow> length bytes = header_length"
    and t: "on_header a ec bytes (chat_finish (Header_op a) s) = Some t"
  shows "chat_ok t"
proof -
  let ?s = "chat_finish (Header_op a) s"
  have core: "chat_core s" using ok by (simp add: chat_ok_def)
  obtain c where c: "chat_objects s a = Some c" "reading_at c (Header_op a)" "input_ok c []"
    "reads a ?s = []"
    "output_ok (room_log s) (recent_msgs s) (a \<in> set (participants s)) (sends a s) c"
    using read_completes [OF ok p, of a] by auto
  from t c(1) obtain m where m: "store 0 bytes (read_msg c) = Some m"
    by (auto simp: on_header_def split: option.splits)
  have wf: "message_wf m" using store_wf [OF m] c(3) by (simp add: input_ok_def)
  have frames: "frames (sess_in c @ bytes) = frames (sess_in c)"
    using header_keeps_frames [of c bytes] c(2) len by (simp add: header_length_def)
  define c1 where "c1 = c\<lparr>read_msg := m, sess_in := sess_in c @ bytes\<rparr>"
  have inp: "input_ok (c1\<lparr>read_msg := m1\<rparr>) []" if "message_wf m1" for m1
    using c(3) frames that by (simp add: input_ok_def c1_def)
  have set_core: "chat_core (chat_set a (c1\<lparr>read_msg := m1\<rparr>) ?s)" if "message_wf m1" for m1
    using core_finish_set [OF core, of a "Header_op a" "c1\<lparr>read_msg := m1\<rparr>"] c(4,5) inp [OF that]
    by (simp add: c1_def)
  have acc: "count_list (chat_ops s) Accept_chat = 1" using ok by (simp add: chat_ok_def)
  have left: "chat_ok (room_leave a (chat_set a (c1\<lparr>read_msg := m1\<rparr>) ?s))" if "message_wf m1" for m1
    by (rule chat_okI [OF ok core_leave [OF set_core [OF that]], of a])
       (auto simp: acc)
  show ?thesis
  proof (cases "ec = No_error")
    case False
    with t c(1) m have "t = room_leave a (chat_set a c1 ?s)"
      by (simp add: on_header_def Let_def c1_def)
    moreover have "c1\<lparr>read_msg := m\<rparr> = c1" by (cases c) (simp add: c1_def)
    ultimately show ?thesis using left [OF wf] by simp
  next
    case True
    then have hdr: "length bytes = header_length" using ec by simp
    note data = store_header [OF m hdr]
    obtain okm m1 where d: "decode_header m = Some (okm, m1)" "message_wf m1"
      "msg_data m1 = msg_data m" "okm \<longrightarrow> int (msg_body_length m1) = atoi (c_str bytes)"
      using decode_header_spec [OF wf data] by blast
    show ?thesis
    proof (cases okm)
      case False
      with t c(1) m d(1) True have "t = room_leave a (chat_set a (c1\<lparr>read_msg := m1\<rparr>) ?s)"
        by (simp add: on_header_def Let_def c1_def)
      with left [OF d(2)] show ?thesis by simp
    next
      case decoded: True
      let ?u = "chat_set a (c1\<lparr>read_msg := m1\<rparr>) ?s"
      have t': "t = chat_begin (Body_op a (msg_length m1)) ?u"
        using t c(1) m d(1) True decoded by (simp add: on_header_def Let_def c1_def do_read_body_def)
      have rd: "sess_in c @ bytes = concat (frames (sess_in c @ bytes)) @ bytes"
        using c(2) frames by simp
      have "chat_core t"
        unfolding t'
        by (rule core_begin_read [OF set_core [OF d(2)], of a "c1\<lparr>read_msg := m1\<rparr>"])
           (use rd hdr d(3,4) data decoded c(4) in
             \<open>simp_all add: c1_def announced_def msg_length_def header_length_def\<close>)
      then show ?thesis
        by (rule chat_okI [OF ok, of _ a]) (simp_all add: t' acc)
    qed
  qed
qed

text \<open>A body with the four characters that follow it completes a frame.\<close>

lemma store_body_data:
  assumes "store_body bytes m = Some m'" "message_wf m" "take header_length (msg_data m) = map Some h"
  shows "\<exists>ds. msg_data m' = map Some (h @ bytes) @ ds" "msg_body_length m' = msg_body_length m"
  using assms by (auto simp: store_body_def store_def split: if_splits)

lemma on_body_ok:
  assumes ok: "chat_ok s" and p: "Body_op a k \<in> set (chat_ops s)"
    and len: "length bytes \<le> k" and ec: "ec = No_error \<longleftrightarrow> length bytes = k"
    and t: "on_body a ec bytes (chat_finish (Body_op a k) s) = Some t"
  shows "chat_ok t"
proof -
  let ?s = "chat_finish (Body_op a k) s"
  have core: "chat_core s" using ok by (simp add: chat_ok_def)
  obtain c where c: "chat_objects s a = Some c" "reading_at c (Body_op a k)" "input_ok c []"
    "reads a ?s = []"
    "output_ok (room_log s) (recent_msgs s) (a \<in> set (participants s)) (sends a s) c"
    using read_completes [OF ok p, of a] by auto
  obtain h where h: "sess_in c = concat (frames (sess_in c)) @ h" "length h = 4"
    "take header_length (msg_data (read_msg c)) = map Some h"
    "announced h = int (msg_body_length (read_msg c))" "k = msg_body_length (read_msg c) + 4"
    using c(2) by auto
  from t c(1) obtain m where m: "store_body bytes (read_msg c) = Some m"
    by (auto simp: on_body_def split: option.splits)
  have wf0: "message_wf (read_msg c)" using c(3) by (simp add: input_ok_def)
  have wf: "message_wf m" using store_wf m wf0 unfolding store_body_def by blast
  obtain ds where ds: "msg_data m = map Some (h @ bytes) @ ds"
    and blen: "msg_body_length m = msg_body_length (read_msg c)"
    using store_body_data [OF m wf0 h(3)] by blast
  have hv: "announced (h @ bytes) = int (msg_body_length m)"
    using announced_append [of h bytes] h(2,4) blen by simp
  have ext: "frames (sess_in c @ bytes) = frames (sess_in c) @ frames (h @ bytes)"
    using frames_extend [of "sess_in c" "h @ bytes"] h(1) by (metis append.assoc)
  have acc: "count_list (chat_ops s) Accept_chat = 1" using ok by (simp add: chat_ok_def)
  define c1 where "c1 = c\<lparr>read_msg := m, sess_in := sess_in c @ bytes\<rparr>"
  show ?thesis
  proof (cases "ec = No_error")
    case False
    then have "length bytes < k" using len ec by simp
    then have "frames (sess_in c @ bytes) = frames (sess_in c)"
      using ext hv h(2,5) blen by (simp add: frames_incomplete)
    then have "input_ok c1 []" using c(3) wf by (simp add: input_ok_def c1_def)
    then have "chat_core (chat_set a c1 ?s)"
      using core_finish_set [OF core, of a "Body_op a k" c1] c(4,5) by (simp add: c1_def)
    moreover have "t = room_leave a (chat_set a c1 ?s)"
      using t c(1) m False by (simp add: on_body_def Let_def c1_def)
    ultimately show ?thesis
      by (intro chat_okI [OF ok, of t a]) (auto simp: acc core_leave)
  next
    case True
    then have full: "length bytes = msg_body_length m + 4" using ec h(5) blen by simp
    have body: "msg_body_length m \<le> 512" using wf by (simp add: message_wf_def message_consts)
    then have fok: "frame_ok (h @ bytes)" using hv full h(2) by (simp add: frame_ok_def)
    have fr: "frames (sess_in c @ bytes) = frames (sess_in c) @ [h @ bytes]"
      using ext frames_Cons [OF fok, of "[]"] by (simp add: frames_short)
    have wire_m: "wire_bytes m = relayed (h @ bytes)"
      using full h(2) by (simp add: wire_bytes_def msg_length_def header_length_def ds relayed_def
          take_map flip: map_append)
    then have good: "good_message m" using wf by (auto simp: good_message_def relayed_def)
    define c2 where "c2 = c1\<lparr>sess_posted := sess_posted c @ [m]\<rparr>"
    have "input_ok c2 []"
      using c(3) wf fr wire_m by (simp add: input_ok_def c1_def c2_def)
    then have "chat_core (chat_set a c2 ?s)"
      using core_finish_set [OF core, of a "Body_op a k" c2] c(4,5) by (simp add: c1_def c2_def)
    then have post: "chat_core (room_deliver m (chat_set a c2 ?s))"
      using good by (rule core_deliver)
    have t': "t = chat_begin (Header_op a) (room_deliver m (chat_set a c2 ?s))"
      using t c(1) m True by (simp add: on_body_def Let_def c1_def c2_def do_read_header_def)
    have "distinct (participants s)"
      using core by (simp add: chat_core_def room_ok_def std_set_ok_def)
    then obtain ms where obj: "chat_objects (room_deliver m (chat_set a c2 ?s)) a = Some (offer ms c2)"
      by (cases "a \<in> set (participants s)")
         (simp_all add: room_deliver_def Let_def deliver_each_objects, metis offer_simps(1))
    have "sess_in c2 = concat (frames (sess_in c2))"
      using fr h(1) by (simp add: c1_def c2_def)
    then have "chat_core t"
      unfolding t' using c(4) by (intro core_begin_read [OF post obj]) simp_all
    then show ?thesis
      by (rule chat_okI [OF ok, of _ a]) (simp_all add: t' acc)
  qed
qed

lemma send_completes:
  assumes "chat_ok s" "Send_op a \<in> set (chat_ops s)"
  obtains c m ms w where "chat_objects s a = Some c" "write_msgs c = m # ms"
    "input_ok c (reads a s)" "sends a s = 1" "sess_offered c = w @ m # ms" "sess_out c = wire w"
    "output_ok (room_log s) (recent_msgs s) (a \<in> set (participants s)) (sends a s) c"
proof -
  have ok: "session_ok a s" using assms(1) by (simp add: chat_ok_def chat_core_def)
  have pos: "0 < sends a s" using assms(2) by (simp add: sends_pos)
  with ok obtain c where c: "chat_objects s a = Some c" "input_ok c (reads a s)"
    "output_ok (room_log s) (recent_msgs s) (a \<in> set (participants s)) (sends a s) c"
    by (auto simp: session_ok_def split: option.splits)
  from c(3) pos have one: "sends a s = 1" and "write_msgs c \<noteq> []" by (auto simp: output_ok_def)
  then obtain m ms where "write_msgs c = m # ms" by (cases "write_msgs c") auto
  moreover obtain w where "sess_offered c = w @ write_msgs c" "sess_out c = wire w"
    using c(3) one by (auto simp: output_ok_def)
  ultimately show thesis using that [of c m ms w] c one by simp
qed

lemma on_sent_ok:
  assumes ok: "chat_ok s" and p: "Send_op a \<in> set (chat_ops s)"
    and n: "ec = No_error \<longrightarrow> n = length (wire_bytes (hd (session_queue a s)))"
    and t: "on_sent a ec n (chat_finish (Send_op a) s) = Some t"
  shows "chat_ok t"
proof -
  let ?s = "chat_finish (Send_op a) s"
  have core: "chat_core s" using ok by (simp add: chat_ok_def)
  then have parts: "std_set_ok (participants s)" by (simp add: chat_core_def room_ok_def)
  obtain c m ms w where c: "chat_objects s a = Some c" "write_msgs c = m # ms"
    "input_ok c (reads a s)" "sends a s = 1" "sess_offered c = w @ m # ms" "sess_out c = wire w"
    "output_ok (room_log s) (recent_msgs s) (a \<in> set (participants s)) (sends a s) c"
    by (rule send_completes [OF ok p])
  have acc: "count_list (chat_ops s) Accept_chat = 1" using ok by (simp add: chat_ok_def)
  show ?thesis
  proof (cases "ec = No_error")
    case False
    define c1 where "c1 = c\<lparr>sess_out := sess_out c @ take n (wire_bytes m)\<rparr>"
    have t': "t = room_leave a (chat_set a c1 ?s)"
      using t c(1,2) False by (simp add: on_sent_def Let_def c1_def)
    have "prefix (sess_out c1) (wire (sess_offered c1))"
      using take_is_prefix [of n "wire_bytes m"] by (simp add: c1_def c(5,6) prefix_prefix)
    then have out: "output_ok (room_log s) (recent_msgs s) False 0 c1"
      using c(2,5,7) by (simp add: output_ok_def c1_def)
    have "input_ok c1 (reads a s)"
      using c(3) by (simp add: c1_def)
    with out have "session_ok a t" by (simp add: session_ok_def t' c(4))
    then have "chat_core t"
      by (intro core_change [OF core, of t a]) (auto simp: t' parts)
    then show ?thesis
      by (rule chat_okI [OF ok, of _ a]) (auto simp: t' acc)
  next
    case True
    define c1 where "c1 = c\<lparr>sess_out := sess_out c @ wire_bytes m, write_msgs := ms\<rparr>"
    have n': "n = length (wire_bytes m)"
      using n True c(1,2) by (simp add: session_queue_def)
    have t': "t = (if ms \<noteq> [] then session_write a (chat_set a c1 ?s) else chat_set a c1 ?s)"
      using t c(1,2) True n' by (auto simp: on_sent_def Let_def c1_def)
    have sends: "sends a t = (if ms = [] then 0 else 1)"
      by (simp add: t' session_write_def c(4))
    have "output_ok (room_log s) (recent_msgs s) (a \<in> set (participants s)) (sends a t) c1"
      using c(5-7) unfolding sends output_ok_def c1_def
      by (auto intro!: exI [of _ "w @ [m]"])
    moreover have "input_ok c1 (reads a s)"
      using c(3) by (simp add: c1_def)
    ultimately have "session_ok a t"
      by (auto simp: session_ok_def t' session_write_def)
    then have "chat_core t"
      by (intro core_change [OF core, of t a]) (auto simp: t' session_write_def parts)
    then show ?thesis
      using ok by (intro chat_okI [OF ok, of t a])
        (auto simp: t' session_write_def acc chat_ok_def split: if_splits)
  qed
qed

lemma released_ok:
  assumes "chat_ok s" "\<not> chat_referenced a s"
  shows "chat_ok (s\<lparr>chat_objects := (chat_objects s)(a := None)\<rparr>)" (is "chat_ok ?t")
proof (rule chat_okI [OF assms(1), of _ a])
  have core: "chat_core s" using assms(1) by (simp add: chat_ok_def)
  then have "std_set_ok (participants s)" by (simp add: chat_core_def room_ok_def)
  moreover have "session_ok a ?t" using assms(2) by (simp add: session_ok_def not_chat_referenced)
  ultimately show "chat_core ?t" by (intro core_change [OF core, of _ a]) simp_all
qed (use assms(2) in \<open>simp_all add: not_chat_referenced\<close>)

lemma new_chat_server_ok: "chat_ok new_chat_server"
  by (simp add: chat_ok_def chat_core_def room_ok_def session_ok_def new_chat_server_def
      accept_next_def reads_def sends_def chat_begin_def)

inductive_cases chat_stepE: "chat_step s t"

lemma chat_step_ok: "chat_step s t \<Longrightarrow> chat_ok s \<Longrightarrow> chat_ok t"
proof (induction rule: chat_step.induct)
  case connect_done
  then show ?case by (blast intro: on_connect_ok)
next
  case header_done
  then show ?case by (blast intro: on_header_ok)
next
  case body_done
  then show ?case by (blast intro: on_body_ok)
next
  case sent_done
  then show ?case by (blast intro: on_sent_ok)
next
  case session_released
  then show ?case by (blast intro: released_ok)
qed

lemma chat_reachable_ok: "chat_reachable s \<Longrightarrow> chat_ok s"
  by (induction rule: chat_reachable.induct) (auto simp: new_chat_server_ok intro: chat_step_ok)

section \<open>When the handlers are defined\<close>

lemma header_defined:
  assumes "chat_ok s" "Header_op a \<in> set (chat_ops s)" "length bytes \<le> header_length"
    "ec = No_error \<longrightarrow> length bytes = header_length"
  shows "\<exists>t. on_header a ec bytes (chat_finish (Header_op a) s) = Some t"
proof -
  obtain c where c: "chat_objects s a = Some c" "input_ok c []"
    using read_completes [OF assms(1,2), of a] by auto
  then have wf: "message_wf (read_msg c)" by (simp add: input_ok_def)
  then obtain m where m: "store 0 bytes (read_msg c) = Some m"
    using store_Some_iff [OF wf, of 0 bytes] assms(3) by (auto simp: header_length_def)
  have "\<exists>d m1. decode_header m = Some (d, m1)" if "ec = No_error"
    using decode_header_spec [OF store_wf [OF m wf] store_header [OF m]] that assms(4) by blast
  with c(1) m show ?thesis by (cases "ec = No_error") (auto simp: on_header_def Let_def)
qed

lemma body_defined_iff:
  assumes "chat_ok s" "Body_op a k \<in> set (chat_ops s)"
  shows "on_body a ec bytes (chat_finish (Body_op a k) s) = None \<longleftrightarrow> 512 < length bytes"
proof -
  obtain c where c: "chat_objects s a = Some c" "input_ok c []"
    using read_completes [OF assms, of a] by auto
  then have wf: "message_wf (read_msg c)" by (simp add: input_ok_def)
  have "store_body bytes (read_msg c) = None \<longleftrightarrow> 512 < length bytes"
    using store_Some_iff [OF wf, of header_length bytes]
    by (auto simp: store_body_def header_length_def)
  with c(1) show ?thesis by (auto simp: on_body_def Let_def split: option.split)
qed

lemma sent_defined:
  assumes "chat_ok s" "Send_op a \<in> set (chat_ops s)"
  shows "\<exists>t. on_sent a ec n (chat_finish (Send_op a) s) = Some t"
proof -
  obtain c m ms where "chat_objects s a = Some c" "write_msgs c = m # ms"
    by (rule send_completes [OF assms])
  then show ?thesis by (simp add: on_sent_def Let_def)
qed

text \<open>A header with an acceptable length makes the session wait for the body.\<close>

lemma header_progress:
  assumes ok: "chat_ok s" and p: "Header_op a \<in> set (chat_ops s)"
    and len: "length bytes = 4" and v: "0 \<le> announced bytes" "announced bytes \<le> 512"
    and c: "chat_objects s a = Some c"
  shows "\<exists>t c'. on_header a No_error bytes (chat_finish (Header_op a) s) = Some t
    \<and> Body_op a (nat (announced bytes) + 4) \<in> set (chat_ops t)
    \<and> chat_objects t a = Some c' \<and> sess_in c' = sess_in c @ bytes"
proof -
  have inp: "input_ok c []"
    using read_completes [OF ok p, of a] c by auto
  then have wf: "message_wf (read_msg c)" by (simp add: input_ok_def)
  then obtain m where m: "store 0 bytes (read_msg c) = Some m"
    using store_Some_iff [OF wf, of 0 bytes] len by auto
  have len': "length bytes = header_length" using len by (simp add: header_length_def)
  obtain d m1 where d: "decode_header m = Some (d, m1)"
    "d \<longleftrightarrow> 0 \<le> atoi (c_str bytes) \<and> atoi (c_str bytes) \<le> 512"
    "d \<longrightarrow> int (msg_body_length m1) = atoi (c_str bytes)"
    using decode_header_spec [OF store_wf [OF m wf] store_header [OF m len']] by blast
  have hv: "announced bytes = atoi (c_str bytes)"
    using len' by (simp add: announced_def)
  with d(2,3) v have "d" "int (msg_body_length m1) = announced bytes" by simp_all
  moreover from this have "nat (announced bytes) = msg_body_length m1" by simp
  ultimately show ?thesis
    using c m d(1) by (simp add: on_header_def Let_def do_read_body_def msg_length_def header_length_def)
qed

section \<open>An example run\<close>

definition one_session :: chat_state where
  "one_session = on_connect No_error 7 (chat_finish Accept_chat new_chat_server)"

lemma one_session_reachable: "chat_reachable one_session"
  unfolding one_session_def
  by (rule chat_next [OF chat_start], rule connect_done)
     (simp_all add: new_chat_server_def accept_next_def chat_begin_def chat_referenced_def)

lemma one_session_simps:
  "chat_ops one_session = [Header_op 7, Accept_chat]"
  "participants one_session = [7]"
  "chat_objects one_session = [7 \<mapsto> new_session]"
  "room_log one_session = []"
  by (simp_all add: one_session_def new_chat_server_def accept_next_def chat_begin_def
      chat_finish_def on_connect_def session_start_def do_read_header_def room_join_def chat_set_def
      std_set_insert_def insort_insert_key_def)

text \<open>After a header: the session waits for a body, of which some bytes may still come.\<close>

lemma after_header:
  assumes "length bytes = 4" "0 \<le> announced bytes" "announced bytes \<le> 512"
  shows "\<exists>s c. chat_reachable s \<and> Body_op 7 (nat (announced bytes) + 4) \<in> set (chat_ops s)
    \<and> chat_objects s 7 = Some c \<and> sess_in c = bytes"
proof -
  have obj: "chat_objects one_session 7 = Some new_session" "Header_op 7 \<in> set (chat_ops one_session)"
    by (simp_all add: one_session_simps)
  from header_progress [OF chat_reachable_ok [OF one_session_reachable] obj(2) assms obj(1)]
  obtain t c where t: "on_header 7 No_error bytes (chat_finish (Header_op 7) one_session) = Some t"
    "Body_op 7 (nat (announced bytes) + 4) \<in> set (chat_ops t)"
    "chat_objects t 7 = Some c" "sess_in c = bytes" by (auto simp: new_session_def)
  then have "chat_reachable t"
    using obj(2) assms(1)
    by (intro chat_next [OF one_session_reachable] header_done) (auto simp: header_length_def)
  with t show ?thesis by blast
qed

lemma after_body:
  assumes "length h = 4" "0 \<le> announced h" "announced h \<le> 512"
    and "length b \<le> nat (announced h) + 4" "length b \<le> 512"
  shows "\<exists>s c. chat_reachable s \<and> chat_objects s 7 = Some c \<and> sess_in c = h @ b"
proof -
  obtain s c where s: "chat_reachable s" "Body_op 7 (nat (announced h) + 4) \<in> set (chat_ops s)"
    "chat_objects s 7 = Some c" "sess_in c = h" using after_header [OF assms(1-3)] by blast
  define ec where "ec = (if length b = nat (announced h) + 4 then No_error else Eof)"
  obtain t where t: "on_body 7 ec b (chat_finish (Body_op 7 (nat (announced h) + 4)) s) = Some t"
    using body_defined_iff [OF chat_reachable_ok [OF s(1)] s(2), of ec b] assms(5) by fastforce
  then have "chat_reachable t"
    using s(2) assms(4) by (intro chat_next [OF s(1)] body_done) (auto simp: ec_def)
  moreover have "\<exists>c. chat_objects t 7 = Some c \<and> sess_in c = h @ b"
  proof -
    have "distinct (participants s)"
      using chat_reachable_ok [OF s(1)]
      by (simp add: chat_ok_def chat_core_def room_ok_def std_set_ok_def)
    with t s(3,4) show ?thesis
      by (auto simp: on_body_def Let_def do_read_header_def room_deliver_def deliver_each_objects
          split: option.splits if_splits)
  qed
  ultimately show ?thesis by blast
qed

section \<open>Encoded messages on the wire\<close>

definition encoded :: "string \<Rightarrow> string" where
  "encoded body = format_4d (length body) @ body"

lemma encoded_length: "length body \<le> 512 \<Longrightarrow> length (encoded body) = 4 + length body"
  by (simp add: encoded_def format_4d_length)

lemma announced_format:
  assumes "n \<le> 512"
  shows "announced (format_4d n @ r) = int n" "announced (format_4d n) = int n"
proof -
  have "length (format_4d n) = header_length"
    using assms by (simp add: format_4d_length header_length_def)
  moreover have "c_str (format_4d n) = format_4d n"
    using format_4d_no_NUL [of n] by (auto simp: c_str_def takeWhile_eq_all_conv)
  ultimately show "announced (format_4d n @ r) = int n" "announced (format_4d n) = int n"
    by (simp_all add: announced_def atoi_format_4d)
qed

lemma announced_encoded:
  "length body \<le> 512 \<Longrightarrow> announced (encoded body @ r) = int (length body)"
  by (simp add: encoded_def announced_format)

lemma frame_encoded:
  assumes "length body \<le> 512" "length pad = 4"
  shows "frame_ok (encoded body @ pad)" "relayed (encoded body @ pad) = map Some (encoded body)"
  using assms by (simp_all add: frame_ok_def announced_encoded encoded_length relayed_def)

lemma frames_encoded_alone: "length body \<le> 512 \<Longrightarrow> frames (encoded body) = []"
  using announced_encoded [of body "[]"] by (simp add: frames_incomplete encoded_length)

section \<open>Draining a queue\<close>

lemma steady_participant:
  assumes "chat_ok s" "a \<in> set (participants s)"
  shows "chat_queue.steady a s"
proof -
  have "session_ok a s" using assms(1) by (simp add: chat_ok_def chat_core_def)
  with assms(2) obtain c where "chat_objects s a = Some c"
    "output_ok (room_log s) (recent_msgs s) True (sends a s) c"
    by (auto simp: session_ok_def split: option.splits)
  then show ?thesis
    by (auto simp: chat_queue.steady_def session_live_def session_writing_def session_queue_def
        sends_pos output_ok_def) (simp_all add: sends_def)
qed

lemma session_sent_step:
  assumes "chat_reachable s" "Send_op a \<in> set (chat_ops s)"
  shows "chat_reachable (session_sent a s)" "participants (session_sent a s) = participants s"
proof -
  let ?n = "length (wire_bytes (hd (session_queue a s)))"
  have ok: "chat_ok s" by (rule chat_reachable_ok [OF assms(1)])
  then obtain t where t: "on_sent a No_error ?n (chat_finish (Send_op a) s) = Some t"
    using sent_defined [OF ok assms(2)] by blast
  then have "session_sent a s = t" by (simp add: session_sent_def)
  moreover have "chat_step s t" using t assms(2) by (intro sent_done) auto
  moreover have "participants t = participants s"
    using t by (auto simp: on_sent_def Let_def session_write_def split: option.splits list.splits if_splits)
  ultimately show "chat_reachable (session_sent a s)"
    "participants (session_sent a s) = participants s"
    using assms(1) by (auto intro: chat_next)
qed

lemma sends_reachable:
  assumes "chat_reachable s" "a \<in> set (participants s)" "n \<le> length (session_queue a s)"
  shows "chat_reachable ((session_sent a ^^ n) s)
    \<and> participants ((session_sent a ^^ n) s) = participants s"
  using assms(3)
proof (induction n)
  case (Suc n)
  let ?s = "(session_sent a ^^ n) s"
  have "chat_queue.steady a ?s \<and> session_queue a ?s = drop n (session_queue a s)"
    using chat_queue.completions [OF steady_participant [OF chat_reachable_ok [OF assms(1)] assms(2)], of n]
      Suc.prems by simp
  then have "Send_op a \<in> set (chat_ops ?s)"
    using Suc.prems by (auto simp: chat_queue.steady_def session_writing_def)
  with Suc session_sent_step [of ?s a] show ?case by simp
qed (simp add: assms(1))

section \<open>Properties\<close>

text \<open>
  Property C9. Every reachable state satisfies the invariant: the room remembers the last 100
  messages, a session has at most one read and one write outstanding, a participant always
  reads, and writes exactly when its queue is not empty.
\<close>

theorem chat_invariant: "chat_reachable s \<Longrightarrow> chat_ok s"
  by (rule chat_reachable_ok)

theorem chat_invariant_witness: "chat_ok one_session"
  by (rule chat_invariant [OF one_session_reachable])

text \<open>
  What a client of the chat receives, even one that has left, is the beginning of
  the encoding of a stretch of the room's log: messages arrive whole, in the order in which the
  room got them, none twice and none skipped, and no uninitialised byte is ever sent.
\<close>

theorem clients_receive_the_log:
  assumes "chat_reachable s" and "chat_objects s a = Some c"
  shows "\<exists>part. sublist part (room_log s) \<and> prefix (sess_out c) (wire part)
    \<and> None \<notin> set (wire part)"
proof -
  have ok: "chat_ok s" by (rule chat_reachable_ok [OF assms(1)])
  then have "session_ok a s" by (simp add: chat_ok_def chat_core_def)
  with assms(2) have out: "sublist (sess_offered c) (room_log s)"
    "prefix (sess_out c) (wire (sess_offered c))" by (simp_all add: session_ok_def output_ok_def)
  have "\<forall>m \<in> set (sess_offered c). good_message m"
    using out(1) ok set_mono_sublist [OF out(1)]
    by (auto simp: chat_ok_def chat_core_def room_ok_def)
  then have "None \<notin> set (wire (sess_offered c))" by (auto simp: wire_def good_message_def)
  with out show ?thesis by blast
qed

theorem clients_receive_the_log_witness:
  "\<exists>c. chat_objects one_session 7 = Some c \<and>
     (\<exists>part. sublist part (room_log one_session) \<and> prefix (sess_out c) (wire part)
        \<and> None \<notin> set (wire part))"
  using clients_receive_the_log [OF one_session_reachable, of 7 new_session]
  by (simp add: one_session_simps)

text \<open>
  Property C11. A participant is served: it has been offered the end of the room's log, with at
  least the last 100 messages, exactly one read on it is outstanding, a write is outstanding
  exactly when its queue is not empty, and what has been sent together with the queue is what
  it was offered.
\<close>

theorem participants_follow_the_room:
  assumes "chat_reachable s" and "a \<in> set (participants s)"
  shows "\<exists>c. chat_objects s a = Some c \<and> suffix (sess_offered c) (room_log s)
    \<and> suffix (drop (length (room_log s) - 100) (room_log s)) (sess_offered c)
    \<and> length (filter (\<lambda>p. p = Header_op a \<or> (\<exists>k. p = Body_op a k)) (chat_ops s)) = 1
    \<and> count_list (chat_ops s) (Send_op a) = (if write_msgs c = [] then 0 else 1)
    \<and> sess_out c @ wire (write_msgs c) = wire (sess_offered c)"
proof -
  have ok: "chat_ok s" by (rule chat_reachable_ok [OF assms(1)])
  then have "session_ok a s" "room_ok s" "reads a s \<noteq> []"
    using assms(2) by (simp_all add: chat_ok_def chat_core_def)
  with assms(2) obtain c where c: "chat_objects s a = Some c" "input_ok c (reads a s)"
    "output_ok (room_log s) (recent_msgs s) True (sends a s) c"
    by (auto simp: session_ok_def split: option.splits)
  have "length (reads a s) = 1"
    using c(2) \<open>reads a s \<noteq> []\<close> by (cases "reads a s") (auto simp: input_ok_def)
  moreover have "sends a s = (if write_msgs c = [] then 0 else 1)"
    "sess_out c @ wire (write_msgs c) = wire (sess_offered c)"
    using c(3) by (auto simp: output_ok_def)
  ultimately show ?thesis
    using c(1,3) \<open>room_ok s\<close>
    by (auto simp: output_ok_def room_ok_def reads_def sends_def max_recent_msgs_def)
qed

theorem participants_follow_the_room_witness:
  "\<exists>c. chat_objects one_session 7 = Some c \<and> count_list (chat_ops one_session) (Send_op 7) = 0"
  using participants_follow_the_room [OF one_session_reachable, of 7]
  by (auto simp: one_session_simps new_session_def)

text \<open>
  Property C19. A participant's queue always drains: from any reachable state, as many
  successful writes as there are messages in the queue empty it, and then the client has been
  sent everything its session was offered.
\<close>

theorem participant_queue_drains:
  assumes "chat_reachable s" and "a \<in> set (participants s)" and "chat_objects s a = Some c"
  shows "\<exists>t d. t = (session_sent a ^^ length (write_msgs c)) s \<and> chat_reachable t
    \<and> chat_objects t a = Some d \<and> write_msgs d = [] \<and> sess_out d = wire (sess_offered d)"
proof -
  have ok: "chat_ok s" by (rule chat_reachable_ok [OF assms(1)])
  have q: "session_queue a s = write_msgs c" using assms(3) by (simp add: session_queue_def)
  define t where "t = (session_sent a ^^ length (write_msgs c)) s"
  have t: "chat_reachable t" "a \<in> set (participants t)"
    using sends_reachable [OF assms(1,2), of "length (write_msgs c)"] assms(2) q
    by (simp_all add: t_def)
  have "session_queue a t = []"
    using chat_queue.completions [OF steady_participant [OF ok assms(2)], of "length (write_msgs c)"] q
    by (simp add: t_def)
  moreover have "session_ok a t"
    using chat_reachable_ok [OF t(1)] by (simp add: chat_ok_def chat_core_def)
  ultimately obtain d where "chat_objects t a = Some d" "write_msgs d = []"
    "sess_out d = wire (sess_offered d)"
    using t(2) by (auto simp: session_ok_def output_ok_def session_queue_def split: option.splits)
  with t show ?thesis unfolding t_def by blast
qed

theorem participant_queue_drains_witness:
  "\<exists>d. chat_objects one_session 7 = Some d \<and> sess_out d = wire (sess_offered d)"
  using participant_queue_drains [OF one_session_reachable, of 7 new_session]
  by (simp add: one_session_simps new_session_def)

lemma example_frame:
  "\<exists>s c. chat_reachable s \<and> chat_objects s 7 = Some c \<and> sess_in c = encoded ''hi'' @ ''    ''
     \<and> frames (sess_in c) = [encoded ''hi'' @ ''    '']"
proof -
  have hv: "announced (format_4d 2) = 2" "length (format_4d 2) = 4"
    by (simp_all add: announced_format format_4d_length)
  have "\<exists>s c. chat_reachable s \<and> chat_objects s 7 = Some c \<and> sess_in c = format_4d 2 @ ''hi    ''"
    by (rule after_body) (simp_all add: hv)
  then obtain s c where s: "chat_reachable s" "chat_objects s 7 = Some c"
    "sess_in c = encoded ''hi'' @ ''    ''" by (auto simp: encoded_def numeral_2_eq_2)
  have "frames (sess_in c) = [encoded ''hi'' @ ''    '']"
    using frames_concat [of "[encoded ''hi'' @ ''    '']" "[]"] frame_encoded(1) [of "''hi''" "''    ''"]
    by (simp add: s(3) frames_short)
  with s show ?thesis by blast
qed

text \<open>
  Property C10. The functional behaviour of a session on its whole input, however it arrives:
  it posts to the room exactly the frames of the input, a frame being a header, the body it
  announces and four more characters, which are dropped.
\<close>

theorem session_posts_frames:
  assumes "chat_reachable s" and "chat_objects s a = Some c"
  shows "map wire_bytes (sess_posted c) = map relayed (frames (sess_in c))"
proof -
  have "session_ok a s"
    using chat_reachable_ok [OF assms(1)] by (simp add: chat_ok_def chat_core_def)
  with assms(2) show ?thesis by (simp add: session_ok_def input_ok_def)
qed

theorem session_posts_frames_witness:
  "\<exists>s c. chat_reachable s \<and> chat_objects s 7 = Some c \<and> sess_in c = encoded ''hi'' @ ''    ''
     \<and> map wire_bytes (sess_posted c) = [map Some (encoded ''hi'')]"
proof -
  obtain s c where s: "chat_reachable s" "chat_objects s 7 = Some c"
    "sess_in c = encoded ''hi'' @ ''    ''" "frames (sess_in c) = [encoded ''hi'' @ ''    '']"
    using example_frame by blast
  then have "map wire_bytes (sess_posted c) = [map Some (encoded ''hi'')]"
    using session_posts_frames [OF s(1,2)] frame_encoded(2) [of "''hi''" "''    ''"] by simp
  with s show ?thesis by - (rule exI [of _ s], rule exI [of _ c], intro conjI)
qed

text \<open>
  The session does not understand the messages of the protocol itself: the
  encoding of a single message, with nothing after it, is never posted to the room, because the
  read of the body waits for four characters more than the message has.
\<close>

theorem single_message_never_posted:
  assumes "chat_reachable s" and "chat_objects s a = Some c"
    and "length body \<le> 512" and "sess_in c = encoded body"
  shows "sess_posted c = []"
proof -
  have "session_ok a s"
    using chat_reachable_ok [OF assms(1)] by (simp add: chat_ok_def chat_core_def)
  with assms(2) have "map wire_bytes (sess_posted c) = map relayed (frames (sess_in c))"
    by (simp add: session_ok_def input_ok_def)
  with assms(3,4) show ?thesis by (simp add: frames_encoded_alone)
qed

theorem single_message_never_posted_witness:
  "\<exists>s c. chat_reachable s \<and> chat_objects s 7 = Some c \<and> sess_in c = encoded ''hi''
     \<and> sess_posted c = []"
proof -
  have hv: "announced (format_4d 2) = 2" "length (format_4d 2) = 4"
    by (simp_all add: announced_format format_4d_length)
  have "\<exists>s c. chat_reachable s \<and> chat_objects s 7 = Some c \<and> sess_in c = format_4d 2 @ ''hi''"
    by (rule after_body) (simp_all add: hv)
  then obtain s c where s: "chat_reachable s" "chat_objects s 7 = Some c"
    "sess_in c = encoded ''hi''" by (auto simp: encoded_def numeral_2_eq_2)
  with single_message_never_posted [OF s(1,2) _ s(3)] show ?thesis by auto
qed

text \<open>
  Property C24. The completion handlers never fault but in one place, whatever asio passes them. A
  read of a header may fail after any number of its bytes, and none of those is looked at then; a
  write may fail anywhere. A read of a body, successful or not, puts bytes beyond the message
  exactly when more than 512 have come, which the code allows because it asks for four more than
  the body has.
\<close>

theorem body_read_overflows:
  assumes "chat_reachable s"
  shows "(Header_op a \<in> set (chat_ops s) \<longrightarrow> length hdr \<le> 4 \<longrightarrow> (ec = No_error \<longrightarrow> length hdr = 4) \<longrightarrow>
      on_header a ec hdr (chat_finish (Header_op a) s) \<noteq> None)
    \<and> (Send_op a \<in> set (chat_ops s) \<longrightarrow> on_sent a ec n (chat_finish (Send_op a) s) \<noteq> None)
    \<and> (Body_op a k \<in> set (chat_ops s) \<longrightarrow>
      (on_body a ec bytes (chat_finish (Body_op a k) s) = None \<longleftrightarrow> 512 < length bytes))"
proof -
  have ok: "chat_ok s" by (rule chat_reachable_ok [OF assms])
  show ?thesis
    using header_defined [OF ok, of a hdr ec] sent_defined [OF ok, of a ec n]
      body_defined_iff [OF ok, of a k ec bytes]
    by (auto simp: header_length_def)
qed

theorem body_read_overflows_witness:
  "\<exists>s. chat_reachable s \<and> Body_op 7 516 \<in> set (chat_ops s)
     \<and> on_body 7 No_error (replicate 516 CHR ''x'') (chat_finish (Body_op 7 516) s) = None"
proof -
  have hv: "announced (format_4d 512) = 512" "length (format_4d 512) = 4"
    by (simp_all add: announced_format format_4d_length)
  then obtain s where s: "chat_reachable s" "Body_op 7 516 \<in> set (chat_ops s)"
    using after_header [of "format_4d 512"] by auto
  with body_read_overflows [OF s(1), of 7 "[]" No_error 0 516 "replicate 516 CHR ''x''"]
  show ?thesis by auto
qed

end
