(* ===== verification/Chat_Client.thy ===== *)
theory Chat_Client
  imports Chat_Service
begin

text \<open>
  boost_chat/chat_client.cpp: \<open>class chat_client\<close>, driven by the \<open>io_service\<close> thread, and the
  message main makes of each input line. The main thread only posts to the \<open>io_service\<close>, so the
  posted functions are outstanding operations like any other. The last four fields are history:
  what was queued, what went out, what came in, and what was printed of the messages received.
\<close>

section \<open>State and operations\<close>

datatype client_op =
    Connect_op
  | Read_header_op
  | Read_body_op nat
  | Write_msg_op
  | Posted_write chat_message
  | Posted_close

record client_state =
  cl_ops :: "client_op list"
  cl_socket_open :: bool
  cl_socket_closed :: bool
  cl_read_msg :: chat_message
  cl_write_msgs :: "chat_message list"
  cl_queued :: "chat_message list"
  cl_out :: "char option list"
  cl_in :: string
  cl_shown :: "char option list list"

definition client_begin :: "client_op \<Rightarrow> client_state \<Rightarrow> client_state" where
  "client_begin p s = s\<lparr>cl_ops := cl_ops s @ [p]\<rparr>"

definition client_finish :: "client_op \<Rightarrow> client_state \<Rightarrow> client_state" where
  "client_finish p s = s\<lparr>cl_ops := remove1 p (cl_ops s)\<rparr>"

text \<open>What asio has put into the buffer when it calls the handler of a read.\<close>

definition client_received :: "string \<Rightarrow> client_state \<Rightarrow> client_state" where
  "client_received bytes s = s\<lparr>cl_in := cl_in s @ bytes\<rparr>"

definition new_client :: client_state where
  "new_client =
     client_begin Connect_op
       \<lparr>cl_ops = [], cl_socket_open = True, cl_socket_closed = False, cl_read_msg = new_message,
        cl_write_msgs = [], cl_queued = [], cl_out = [], cl_in = [], cl_shown = []\<rparr>"

text \<open>What main builds of a line; it never calls \<open>encode_header\<close>.\<close>

definition line_message :: "string \<Rightarrow> chat_message option" where
  "line_message line =
     (let msg = set_body_length (length (c_str line)) new_message
      in store_body (take (msg_body_length msg) line) msg)"

text \<open>\<open>write\<close> and \<open>close\<close> post to the \<open>io_service\<close>.\<close>

definition client_write :: "chat_message \<Rightarrow> client_state \<Rightarrow> client_state" where
  "client_write msg s = client_begin (Posted_write msg) s"

definition client_close :: "client_state \<Rightarrow> client_state" where
  "client_close s = client_begin Posted_close s"

definition client_do_write :: "client_state \<Rightarrow> client_state" where
  "client_do_write s = client_begin Write_msg_op s"

definition client_read_header :: "client_state \<Rightarrow> client_state" where
  "client_read_header s = client_begin Read_header_op s"

definition client_read_body :: "chat_message \<Rightarrow> client_state \<Rightarrow> client_state" where
  "client_read_body m s = client_begin (Read_body_op (msg_body_length m)) s"

text \<open>\<open>socket_.close(); socket_closed = true\<close>.\<close>

definition shut_client :: "client_state \<Rightarrow> client_state" where
  "shut_client s = s\<lparr>cl_socket_open := False, cl_socket_closed := True\<rparr>"

definition on_posted_write :: "chat_message \<Rightarrow> client_state \<Rightarrow> client_state" where
  "on_posted_write msg s =
     (let write_in_progress = cl_write_msgs s \<noteq> [];
          s1 = s\<lparr>cl_write_msgs := cl_write_msgs s @ [msg], cl_queued := cl_queued s @ [msg]\<rparr>
      in if \<not> write_in_progress then client_do_write s1 else s1)"

definition on_posted_close :: "client_state \<Rightarrow> client_state" where
  "on_posted_close s = s\<lparr>cl_socket_open := False\<rparr>"

definition on_connected :: "error_code \<Rightarrow> client_state \<Rightarrow> client_state" where
  "on_connected ec s = (if ec = No_error then client_read_header s else s)"

text \<open>
  The branch that closes the socket decodes the header once more, to print the result, whether
  or not there is one.
\<close>

definition on_read_header :: "error_code \<Rightarrow> string \<Rightarrow> client_state \<Rightarrow> client_state option" where
  "on_read_header ec bytes s =
     (case store 0 bytes (cl_read_msg s) of
        None \<Rightarrow> None
      | Some m \<Rightarrow>
          let print_and_close = (\<lambda>m. case decode_header m of
                None \<Rightarrow> None
              | Some (_, m2) \<Rightarrow> Some (shut_client (s\<lparr>cl_read_msg := m2\<rparr>)))
          in if ec = No_error then
               (case decode_header m of
                  None \<Rightarrow> None
                | Some (decoded, m1) \<Rightarrow>
                    if decoded then Some (client_read_body m1 (s\<lparr>cl_read_msg := m1\<rparr>))
                    else print_and_close m1)
             else print_and_close m)"

definition on_read_body :: "error_code \<Rightarrow> string \<Rightarrow> client_state \<Rightarrow> client_state option" where
  "on_read_body ec bytes s =
     (case store_body bytes (cl_read_msg s) of
        None \<Rightarrow> None
      | Some m \<Rightarrow>
          if ec = No_error then
            Some (client_read_header
              (s\<lparr>cl_read_msg := m, cl_shown := cl_shown s @ [body_text m]\<rparr>))
          else Some (shut_client (s\<lparr>cl_read_msg := m\<rparr>)))"

definition on_written :: "error_code \<Rightarrow> nat \<Rightarrow> client_state \<Rightarrow> client_state option" where
  "on_written ec n s =
     (case cl_write_msgs s of
        [] \<Rightarrow> None
      | m # ms \<Rightarrow>
          let s1 = s\<lparr>cl_out := cl_out s @ take n (wire_bytes m)\<rparr>
          in if ec = No_error then
               let s2 = s1\<lparr>cl_write_msgs := ms\<rparr>
               in Some (if ms \<noteq> [] then client_do_write s2 else shut_client s2)
             else Some s1)"

section \<open>The queue\<close>

lemma client_begin_simps [simp]:
  "cl_ops (client_begin p s) = cl_ops s @ [p]"
  "cl_socket_open (client_begin p s) = cl_socket_open s"
  "cl_socket_closed (client_begin p s) = cl_socket_closed s"
  "cl_read_msg (client_begin p s) = cl_read_msg s"
  "cl_write_msgs (client_begin p s) = cl_write_msgs s"
  "cl_queued (client_begin p s) = cl_queued s"
  "cl_out (client_begin p s) = cl_out s"
  "cl_in (client_begin p s) = cl_in s"
  "cl_shown (client_begin p s) = cl_shown s"
  by (simp_all add: client_begin_def)

lemma client_finish_simps [simp]:
  "cl_ops (client_finish p s) = remove1 p (cl_ops s)"
  "cl_socket_open (client_finish p s) = cl_socket_open s"
  "cl_socket_closed (client_finish p s) = cl_socket_closed s"
  "cl_read_msg (client_finish p s) = cl_read_msg s"
  "cl_write_msgs (client_finish p s) = cl_write_msgs s"
  "cl_queued (client_finish p s) = cl_queued s"
  "cl_out (client_finish p s) = cl_out s"
  "cl_in (client_finish p s) = cl_in s"
  "cl_shown (client_finish p s) = cl_shown s"
  by (simp_all add: client_finish_def)

lemma client_received_simps [simp]:
  "cl_ops (client_received bytes s) = cl_ops s"
  "cl_socket_open (client_received bytes s) = cl_socket_open s"
  "cl_socket_closed (client_received bytes s) = cl_socket_closed s"
  "cl_read_msg (client_received bytes s) = cl_read_msg s"
  "cl_write_msgs (client_received bytes s) = cl_write_msgs s"
  "cl_queued (client_received bytes s) = cl_queued s"
  "cl_out (client_received bytes s) = cl_out s"
  "cl_in (client_received bytes s) = cl_in s @ bytes"
  "cl_shown (client_received bytes s) = cl_shown s"
  by (simp_all add: client_received_def)

lemmas client_ops_defs = client_write_def client_close_def client_do_write_def
  client_read_header_def client_read_body_def shut_client_def on_posted_write_def
  on_posted_close_def on_connected_def

definition client_writing :: "client_state \<Rightarrow> bool" where
  "client_writing s \<longleftrightarrow> Write_msg_op \<in> set (cl_ops s)"

definition client_live :: "client_state \<Rightarrow> bool" where
  "client_live s \<longleftrightarrow> count_list (cl_ops s) Write_msg_op \<le> 1
     \<and> (client_writing s \<longrightarrow> cl_write_msgs s \<noteq> [])"

definition client_sent :: "client_state \<Rightarrow> client_state" where
  "client_sent s =
     (case on_written No_error (length (wire_bytes (hd (cl_write_msgs s))))
        (client_finish Write_msg_op s) of None \<Rightarrow> s | Some t \<Rightarrow> t)"

interpretation client_queue: write_queue cl_write_msgs client_writing client_live
    on_posted_write client_sent
proof
  fix s m
  assume live: "client_live s"
  show "cl_write_msgs (on_posted_write m s) = cl_write_msgs s @ [m]"
    by (simp add: client_ops_defs Let_def)
  show "client_writing (on_posted_write m s) \<longleftrightarrow> client_writing s \<or> cl_write_msgs s = []"
    using live by (simp add: client_ops_defs client_writing_def Let_def)
  show "client_live (on_posted_write m s)"
    using live by (auto simp: client_ops_defs client_live_def client_writing_def Let_def
        count_list_pos)
next
  fix s
  assume live: "client_live s" "client_writing s" "cl_write_msgs s \<noteq> []"
  then obtain m ms where q: "cl_write_msgs s = m # ms" by (cases "cl_write_msgs s") auto
  have one: "count_list (cl_ops s) Write_msg_op = 1"
    using live by (simp add: client_live_def client_writing_def count_list_pos)
  then have none: "Write_msg_op \<notin> set (remove1 Write_msg_op (cl_ops s))"
    by (simp add: count_list_pos)
  show "cl_write_msgs (client_sent s) = tl (cl_write_msgs s)"
    by (simp add: client_sent_def on_written_def q client_ops_defs Let_def)
  show "client_writing (client_sent s) \<longleftrightarrow> tl (cl_write_msgs s) \<noteq> []"
    using none by (simp add: client_sent_def on_written_def q client_ops_defs client_writing_def Let_def)
  show "client_live (client_sent s)"
    using one none by (simp add: client_sent_def on_written_def q client_ops_defs client_live_def
        client_writing_def Let_def)
qed

section \<open>Steps\<close>

text \<open>
  The completions, run by the thread of the \<open>io_service\<close>.
\<close>

inductive client_io :: "client_state \<Rightarrow> client_state \<Rightarrow> bool" where
  connected: "Connect_op \<in> set (cl_ops s) \<Longrightarrow>
     client_io s (on_connected ec (client_finish Connect_op s))"
| header_read: "Read_header_op \<in> set (cl_ops s) \<Longrightarrow> length bytes \<le> header_length \<Longrightarrow>
     (ec = No_error \<longleftrightarrow> length bytes = header_length) \<Longrightarrow>
     on_read_header ec bytes (client_received bytes (client_finish Read_header_op s)) = Some t \<Longrightarrow>
     client_io s t"
| body_read: "Read_body_op k \<in> set (cl_ops s) \<Longrightarrow> length bytes \<le> k \<Longrightarrow>
     (ec = No_error \<longleftrightarrow> length bytes = k) \<Longrightarrow>
     on_read_body ec bytes (client_received bytes (client_finish (Read_body_op k) s)) = Some t \<Longrightarrow>
     client_io s t"
| msg_written: "Write_msg_op \<in> set (cl_ops s) \<Longrightarrow>
     (ec = No_error \<longrightarrow> n = length (wire_bytes (hd (cl_write_msgs s)))) \<Longrightarrow>
     on_written ec n (client_finish Write_msg_op s) = Some t \<Longrightarrow> client_io s t"
| write_posted: "Posted_write msg \<in> set (cl_ops s) \<Longrightarrow>
     client_io s (on_posted_write msg (client_finish (Posted_write msg) s))"
| close_posted: "Posted_close \<in> set (cl_ops s) \<Longrightarrow>
     client_io s (on_posted_close (client_finish Posted_close s))"

text \<open>
  Besides the completions there are the two things the main thread does: it posts the message of
  an input line of at most 512 characters, and it closes at the end. The flag it looks at before
  may have been set when it posts, so it is no condition here.
\<close>

inductive client_step :: "client_state \<Rightarrow> client_state \<Rightarrow> bool" where
  io_done: "client_io s t \<Longrightarrow> client_step s t"
| line_entered: "length line \<le> 512 \<Longrightarrow> line_message line = Some msg \<Longrightarrow>
     client_step s (client_write msg s)"
| input_ended: "client_step s (client_close s)"

inductive client_reachable :: "client_state \<Rightarrow> bool" where
  client_start: "client_reachable new_client"
| client_next: "client_reachable s \<Longrightarrow> client_step s t \<Longrightarrow> client_reachable t"

section \<open>The invariant\<close>

definition headless :: "chat_message \<Rightarrow> bool" where
  "headless m \<longleftrightarrow> message_wf m \<and> take header_length (msg_data m) = replicate header_length None"

lemma line_message_headless:
  assumes "line_message line = Some m"
  shows "headless m"
proof -
  let ?m0 = "set_body_length (length (c_str line)) new_message"
  from assms have st: "store header_length (take (msg_body_length ?m0) line) ?m0 = Some m"
    by (simp add: line_message_def store_body_def Let_def)
  have "message_wf m" by (rule store_wf [OF st]) simp
  moreover have "msg_data ?m0 = replicate header_length None @ replicate max_body_length None"
    by (simp add: set_body_length_def new_message_def replicate_add)
  then have "take header_length (msg_data m) = replicate header_length None"
    using st by (auto simp: store_def split: if_splits)
  ultimately show ?thesis by (simp add: headless_def)
qed

definition client_ok :: "client_state \<Rightarrow> bool" where
  "client_ok s \<longleftrightarrow> client_live s \<and> message_wf (cl_read_msg s)
     \<and> (\<forall>m. Posted_write m \<in> set (cl_ops s) \<longrightarrow> headless m) \<and> (\<forall>m \<in> set (cl_queued s). headless m)
     \<and> (\<forall>k. Read_body_op k \<in> set (cl_ops s) \<longrightarrow> k \<le> 512)
     \<and> prefix (cl_out s) (wire (cl_queued s))
     \<and> (\<exists>w. cl_queued s = w @ cl_write_msgs s
          \<and> (client_writing s \<or> cl_write_msgs s = [] \<longrightarrow> cl_out s = wire w))"

text \<open>
  The reading half of the state and the writing half are independent: what takes an operation
  of the reading half, and may start another one, leaves the writing half alone.
\<close>

lemma client_ok_reading:
  assumes ok: "client_ok s" and wf: "message_wf (cl_read_msg t)"
    and same: "cl_write_msgs t = cl_write_msgs s" "cl_queued t = cl_queued s" "cl_out t = cl_out s"
    and ops: "cl_ops t = remove1 p (cl_ops s) @ new" "p \<noteq> Write_msg_op"
    and new: "new = [] \<or> new = [Read_header_op] \<or> (\<exists>k. new = [Read_body_op k] \<and> k \<le> 512)"
  shows "client_ok t"
proof -
  have mem: "q \<in> set (cl_ops t) \<Longrightarrow> q \<in> set (cl_ops s) \<or> q \<in> set new" for q
    using ops(1) by (auto dest: in_remove1D)
  have "count_list (cl_ops t) Write_msg_op = count_list (cl_ops s) Write_msg_op"
    using ops new by auto
  then have "client_writing t = client_writing s" "client_live t = client_live s"
    using same by (simp_all add: client_writing_def client_live_def count_list_pos)
  moreover have "headless m" if "Posted_write m \<in> set (cl_ops t)" for m
    using mem [OF that] new ok by (auto simp: client_ok_def)
  moreover have "k \<le> 512" if "Read_body_op k \<in> set (cl_ops t)" for k
    using mem [OF that] new ok by (auto simp: client_ok_def)
  ultimately show ?thesis using ok wf same by (simp add: client_ok_def)
qed

lemma decode_length: "decode_header m = Some (d, m1) \<Longrightarrow> msg_body_length m1 \<le> 512"
  by (auto simp: decode_header_def max_body_length_def Let_def split: if_splits)

lemma on_read_header_cases:
  assumes "on_read_header ec bytes s = Some t" "message_wf (cl_read_msg s)"
  obtains (closed) m where "t = shut_client (s\<lparr>cl_read_msg := m\<rparr>)" "message_wf m"
  | (body) m where "t = client_read_body m (s\<lparr>cl_read_msg := m\<rparr>)" "message_wf m"
    "msg_body_length m \<le> 512"
proof -
  from assms(1) obtain m where m: "store 0 bytes (cl_read_msg s) = Some m"
    by (auto simp: on_read_header_def split: option.splits)
  have wf: "message_wf m" using store_wf [OF m] assms(2) by simp
  obtain d m1 where d: "decode_header m = Some (d, m1)"
    using assms(1) m by (cases "decode_header m") (auto simp: on_read_header_def Let_def split: if_splits)
  have wf1: "message_wf m1" "msg_body_length m1 \<le> 512"
    using decode_header_wf [OF d wf] decode_length [OF d] by simp_all
  show thesis
  proof (cases "ec = No_error")
    case False
    with assms(1) m d have "t = shut_client (s\<lparr>cl_read_msg := m1\<rparr>)"
      by (simp add: on_read_header_def Let_def)
    then show thesis using closed wf1 by blast
  next
    case True
    show thesis
    proof (cases d)
      case True
      with assms(1) m d \<open>ec = No_error\<close> have "t = client_read_body m1 (s\<lparr>cl_read_msg := m1\<rparr>)"
        by (simp add: on_read_header_def Let_def)
      then show thesis using body wf1 by blast
    next
      case False
      with assms(1) m d \<open>ec = No_error\<close> obtain d2 m2 where
        "decode_header m1 = Some (d2, m2)" "t = shut_client (s\<lparr>cl_read_msg := m2\<rparr>)"
        by (auto simp: on_read_header_def Let_def split: option.splits)
      then show thesis using closed decode_header_wf wf1 by blast
    qed
  qed
qed

lemma on_read_header_ok:
  assumes "client_ok s"
    "on_read_header ec bytes (client_received bytes (client_finish Read_header_op s)) = Some t"
  shows "client_ok t"
proof -
  have "message_wf (cl_read_msg (client_received bytes (client_finish Read_header_op s)))"
    using assms(1) by (simp add: client_ok_def)
  with assms(2) show ?thesis
  proof (cases rule: on_read_header_cases)
    case (closed m)
    then show ?thesis
      by (intro client_ok_reading [OF assms(1), of t Read_header_op "[]"]) (simp_all add: client_ops_defs)
  next
    case (body m)
    then show ?thesis
      by (intro client_ok_reading [OF assms(1), of t Read_header_op "[Read_body_op (msg_body_length m)]"])
         (simp_all add: client_ops_defs)
  qed
qed

lemma on_read_body_ok:
  assumes "client_ok s"
    "on_read_body ec bytes (client_received bytes (client_finish (Read_body_op k) s)) = Some t"
  shows "client_ok t"
proof -
  from assms(2) obtain m where m: "store header_length bytes (cl_read_msg s) = Some m"
    by (auto simp: on_read_body_def store_body_def split: option.splits)
  have wf: "message_wf m" using store_wf [OF m] assms(1) by (simp add: client_ok_def)
  show ?thesis
  proof (cases "ec = No_error")
    case True
    with assms(2) m wf show ?thesis
      by (intro client_ok_reading [OF assms(1), of t "Read_body_op k" "[Read_header_op]"])
         (auto simp: on_read_body_def store_body_def client_ops_defs)
  next
    case False
    with assms(2) m wf show ?thesis
      by (intro client_ok_reading [OF assms(1), of t "Read_body_op k" "[]"])
         (auto simp: on_read_body_def store_body_def client_ops_defs)
  qed
qed

lemma on_written_ok:
  assumes "client_ok s" "Write_msg_op \<in> set (cl_ops s)"
    and "ec = No_error \<longrightarrow> n = length (wire_bytes (hd (cl_write_msgs s)))"
    and "on_written ec n (client_finish Write_msg_op s) = Some t"
  shows "client_ok t"
proof -
  from assms(4) obtain m ms where q: "cl_write_msgs s = m # ms"
    by (auto simp: on_written_def split: list.splits)
  from assms(1,2) obtain w where w: "cl_queued s = w @ m # ms" "cl_out s = wire w"
    using q by (auto simp: client_ok_def client_writing_def)
  have one: "count_list (cl_ops s) Write_msg_op = 1"
    using assms(1,2) by (simp add: client_ok_def client_live_def count_list_pos)
  then have none: "Write_msg_op \<notin> set (remove1 Write_msg_op (cl_ops s))"
    by (simp add: count_list_pos)
  show ?thesis
  proof (cases "ec = No_error")
    case False
    then have t: "t = (client_finish Write_msg_op s)\<lparr>cl_out := cl_out s @ take n (wire_bytes m)\<rparr>"
      using assms(4) q by (simp add: on_written_def Let_def)
    have "prefix (cl_out t) (wire (cl_queued t))"
      using take_is_prefix [of n "wire_bytes m"] by (simp add: t w prefix_prefix)
    then show ?thesis
      using assms(1) one none q w
      by (auto simp: client_ok_def client_live_def client_writing_def t dest: in_remove1D)
  next
    case True
    with assms(3,4) q have t: "t = (let s2 = (client_finish Write_msg_op s)
        \<lparr>cl_out := cl_out s @ wire_bytes m, cl_write_msgs := ms\<rparr>
      in if ms \<noteq> [] then client_do_write s2 else shut_client s2)"
      by (auto simp: on_written_def Let_def)
    show ?thesis
      using assms(1) one none w
      by (auto simp: client_ok_def client_live_def client_writing_def client_ops_defs t Let_def
          dest: in_remove1D intro!: exI [of _ "w @ [m]"])
  qed
qed

lemma on_posted_write_ok:
  assumes "client_ok s" "Posted_write m \<in> set (cl_ops s)"
  shows "client_ok (on_posted_write m (client_finish (Posted_write m) s))"
proof -
  let ?s = "client_finish (Posted_write m) s"
  have live: "client_live ?s"
    using assms(1) by (simp add: client_ok_def client_live_def client_writing_def)
  have wr: "client_writing ?s = client_writing s" by (simp add: client_writing_def)
  from assms have m: "headless m" by (simp add: client_ok_def)
  from assms(1) obtain w where w: "cl_queued s = w @ cl_write_msgs s"
    "client_writing s \<or> cl_write_msgs s = [] \<longrightarrow> cl_out s = wire w"
    by (auto simp: client_ok_def)
  have eq: "cl_queued (on_posted_write m ?s) = cl_queued s @ [m]"
    "cl_out (on_posted_write m ?s) = cl_out s" "cl_read_msg (on_posted_write m ?s) = cl_read_msg s"
    "\<And>x. x \<in> set (cl_ops (on_posted_write m ?s)) \<Longrightarrow> x = Write_msg_op \<or> x \<in> set (cl_ops s)"
    by (auto simp: client_ops_defs Let_def split: if_splits dest: in_remove1D)
  have "client_live (on_posted_write m ?s)" by (rule client_queue.live_push [OF live])
  moreover have "client_writing (on_posted_write m ?s) \<longleftrightarrow> client_writing s \<or> cl_write_msgs s = []"
    using client_queue.writing_push [OF live, of m] wr by simp
  moreover have "cl_write_msgs (on_posted_write m ?s) = cl_write_msgs s @ [m]"
    using client_queue.queue_push [OF live, of m] by simp
  ultimately show ?thesis
    using assms(1) m w eq unfolding client_ok_def by (auto simp: prefix_append)
qed

lemma client_io_ok: "client_io s t \<Longrightarrow> client_ok s \<Longrightarrow> client_ok t"
proof (induction rule: client_io.induct)
  case (header_read s bytes ec t)
  then show ?case by (blast intro: on_read_header_ok)
next
  case (body_read k s bytes ec t)
  then show ?case by (blast intro: on_read_body_ok)
next
  case (msg_written s ec n t)
  then show ?case by (blast intro: on_written_ok)
next
  case (write_posted msg s)
  then show ?case by (blast intro: on_posted_write_ok)
qed (auto simp: client_ok_def client_live_def client_writing_def client_ops_defs dest: in_remove1D)

lemma client_step_ok: "client_step s t \<Longrightarrow> client_ok s \<Longrightarrow> client_ok t"
proof (induction rule: client_step.induct)
  case (io_done s t)
  then show ?case by (blast intro: client_io_ok)
next
  case (line_entered line msg s)
  then show ?case
    by (auto simp: client_ok_def client_write_def client_live_def client_writing_def
        line_message_headless)
qed (auto simp: client_ok_def client_live_def client_writing_def client_ops_defs dest: in_remove1D)

lemma client_reachable_ok: "client_reachable s \<Longrightarrow> client_ok s"
proof (induction rule: client_reachable.induct)
  case client_start
  show ?case
    by (auto simp: client_ok_def new_client_def client_live_def client_writing_def client_begin_def)
qed (blast intro: client_step_ok)

section \<open>Example states\<close>

definition connected_client :: client_state where
  "connected_client = on_connected No_error (client_finish Connect_op new_client)"

lemma connected_client_reachable: "client_reachable connected_client"
  unfolding connected_client_def
  by (rule client_next [OF client_start], rule io_done, rule connected) (simp add: new_client_def)

lemma connected_client_simps:
  "cl_ops connected_client = [Read_header_op]" "cl_read_msg connected_client = new_message"
  by (simp_all add: connected_client_def new_client_def client_ops_defs client_begin_def
      client_finish_def)

definition hi_message :: chat_message where
  "hi_message = (case line_message ''hi'' of Some m \<Rightarrow> m | None \<Rightarrow> new_message)"

lemma line_message_hi: "line_message ''hi'' = Some hi_message"
  by (simp add: hi_message_def line_message_def c_str_def set_body_length_def message_consts
      store_body_def store_def new_message_def)

definition writing_client :: client_state where
  "writing_client = on_posted_write hi_message
     (client_finish (Posted_write hi_message) (client_write hi_message connected_client))"

lemma writing_client_reachable: "client_reachable writing_client"
proof -
  have "client_reachable (client_write hi_message connected_client)"
    by (rule client_next [OF connected_client_reachable], rule line_entered [OF _ line_message_hi])
       (simp_all add: connected_client_def new_client_def client_ops_defs client_begin_def
         client_finish_def)
  then show ?thesis
    unfolding writing_client_def
    by (rule client_next, intro io_done write_posted) (simp add: client_write_def)
qed

lemma writing_client_simps:
  "Write_msg_op \<in> set (cl_ops writing_client)" "cl_write_msgs writing_client = [hi_message]"
  "\<not> cl_socket_closed writing_client" "cl_queued writing_client = [hi_message]"
  by (simp_all add: writing_client_def connected_client_def new_client_def client_ops_defs
      client_begin_def client_finish_def)

section \<open>Properties\<close>

text \<open>
  Property C31. What the client sends is the beginning of its queued messages in order, but
  none of them has a header: the first four bytes of every message are whatever the memory
  held, since nobody calls \<open>encode_header\<close>, and so is the first byte on the wire.
\<close>

theorem client_sends_no_header:
  assumes "client_reachable s"
  shows "prefix (cl_out s) (wire (cl_queued s))
    \<and> (\<forall>m \<in> set (cl_queued s). take 4 (wire_bytes m) = replicate 4 None)
    \<and> (cl_out s = [] \<or> hd (cl_out s) = None)"
proof -
  have ok: "client_ok s" by (rule client_reachable_ok [OF assms])
  then have out: "prefix (cl_out s) (wire (cl_queued s))"
    and head: "\<forall>m \<in> set (cl_queued s). take 4 (wire_bytes m) = replicate 4 None"
    by (auto simp: client_ok_def headless_def wire_bytes_def msg_length_def header_length_def
        min_def)
  have "hd (cl_out s) = None" if "cl_out s \<noteq> []"
  proof -
    from out that have "cl_queued s \<noteq> []" by (auto simp: prefix_def)
    then obtain m ms where q: "cl_queued s = m # ms" by (cases "cl_queued s") auto
    then have h: "take 4 (wire_bytes m) = replicate 4 None" using head by simp
    then obtain r where "wire_bytes m = None # r" by (cases "wire_bytes m") (auto simp: eval_nat_numeral)
    with out that q show ?thesis by (cases "cl_out s") auto
  qed
  then have "cl_out s = [] \<or> hd (cl_out s) = None" by (cases "cl_out s = []") simp_all
  with out head show ?thesis by (intro conjI)
qed

theorem client_sends_no_header_witness:
  "cl_queued writing_client = [hi_message] \<and> take 4 (wire_bytes hi_message) = replicate 4 None"
  using client_sends_no_header [OF writing_client_reachable] writing_client_simps(4) by simp

text \<open>
  The client hangs up as soon as it has nothing to send: when a successful write
  empties the queue everything queued has been sent, the socket is closed and the flag that
  stops main's input loop is set, while messages are still waiting the next write starts.
\<close>

theorem client_closes_when_drained:
  assumes "client_reachable s" and "Write_msg_op \<in> set (cl_ops s)" and "\<not> cl_socket_closed s"
    and "on_written No_error (length (wire_bytes (hd (cl_write_msgs s))))
      (client_finish Write_msg_op s) = Some t"
  shows "(cl_socket_closed t \<longleftrightarrow> cl_write_msgs t = [])
    \<and> (cl_write_msgs t = [] \<longrightarrow> \<not> cl_socket_open t \<and> cl_out t = wire (cl_queued t))
    \<and> (cl_write_msgs t \<noteq> [] \<longrightarrow> Write_msg_op \<in> set (cl_ops t))"
proof -
  have "client_ok s" by (rule client_reachable_ok [OF assms(1)])
  with assms(2) obtain w where w: "cl_queued s = w @ cl_write_msgs s" "cl_out s = wire w"
    by (auto simp: client_ok_def client_writing_def)
  with assms(3,4) show ?thesis
    by (cases "cl_write_msgs s") (auto simp: on_written_def client_ops_defs Let_def split: if_splits)
qed

theorem client_closes_when_drained_witness:
  "\<exists>t. on_written No_error (length (wire_bytes hi_message))
       (client_finish Write_msg_op writing_client) = Some t
     \<and> cl_write_msgs t = [] \<and> cl_socket_closed t \<and> \<not> cl_socket_open t"
proof -
  obtain t where t: "on_written No_error (length (wire_bytes hi_message))
      (client_finish Write_msg_op writing_client) = Some t" "cl_write_msgs t = []"
    by (simp add: on_written_def writing_client_simps client_ops_defs Let_def)
  with client_closes_when_drained [OF writing_client_reachable writing_client_simps(1,3), of t]
  show ?thesis by (simp add: writing_client_simps)
qed

text \<open>
  The client reads safely: the bytes of a body always fit, and a complete header
  is always decoded, with one exception, the branch taken when the very first header does not
  come, where it decodes a message that was never written.
\<close>

theorem client_reads:
  assumes "client_reachable s"
  shows "(Read_body_op k \<in> set (cl_ops s) \<longrightarrow> length bytes \<le> k \<longrightarrow>
      on_read_body ec bytes (client_finish (Read_body_op k) s) \<noteq> None)
    \<and> (length hdr = 4 \<longrightarrow> on_read_header No_error hdr (client_finish Read_header_op s) \<noteq> None)
    \<and> (cl_read_msg s = new_message \<longrightarrow>
      on_read_header Eof [] (client_finish Read_header_op s) = None)"
proof -
  have ok: "client_ok s" by (rule client_reachable_ok [OF assms])
  then have wf: "message_wf (cl_read_msg s)" by (simp add: client_ok_def)
  have "on_read_body ec bytes (client_finish (Read_body_op k) s) \<noteq> None"
    if "Read_body_op k \<in> set (cl_ops s)" "length bytes \<le> k"
  proof -
    have "k \<le> 512" using ok that(1) by (simp add: client_ok_def)
    then have "store header_length bytes (cl_read_msg s) \<noteq> None"
      using store_Some_iff [OF wf, of header_length bytes] that(2) by (simp add: header_length_def)
    then show ?thesis by (auto simp: on_read_body_def store_body_def)
  qed
  moreover have "on_read_header No_error hdr (client_finish Read_header_op s) \<noteq> None"
    if "length hdr = 4"
  proof -
    have len: "length hdr = header_length" using that by (simp add: header_length_def)
    then obtain m where m: "store 0 hdr (cl_read_msg s) = Some m"
      using store_Some_iff [OF wf, of 0 hdr] that
      by (cases "store 0 hdr (cl_read_msg s)") (simp_all add: header_length_def)
    have data: "take header_length (msg_data m) = map Some hdr" by (rule store_header [OF m len])
    obtain d m1 where d: "decode_header m = Some (d, m1)" "message_wf m1" "msg_data m1 = msg_data m"
      using decode_header_spec [OF store_wf [OF m wf] data] by blast
    then obtain d2 m2 where "decode_header m1 = Some (d2, m2)"
      using decode_header_spec [OF d(2), of hdr] data by auto
    with m d(1) show ?thesis by (simp add: on_read_header_def Let_def)
  qed
  moreover have "on_read_header Eof [] (client_finish Read_header_op s) = None"
    if "cl_read_msg s = new_message"
  proof -
    have "decode_header new_message = None"
      by (simp add: decode_header_def new_message_def message_consts eval_nat_numeral)
    with that show ?thesis by (simp add: on_read_header_def store_def Let_def new_message_def)
  qed
  ultimately show ?thesis by blast
qed

theorem client_reads_witness:
  "on_read_header Eof [] (client_finish Read_header_op connected_client) = None"
  using client_reads [OF connected_client_reachable] by (simp add: connected_client_simps)

end
