(* ===== verification/Chat_Log.thy ===== *)
theory Chat_Log
  imports Chat_Service
begin

text \<open>
  The chat server from the bytes of its clients to the bytes of its clients: the room's log is a
  merge of the frames of all inputs, and a client is sent the beginning of a stretch of that merge.
  Addresses are used again after a session is gone, so sessions are numbered as they come.
\<close>

section \<open>Frames of an input that grows\<close>

lemma input_frames_prefix: "\<exists>r. s = concat (frames s) @ r"
proof (induction s rule: frames.induct)
  case (1 s)
  show ?case
  proof (cases "8 \<le> length s \<and> 0 \<le> announced s \<and> announced s \<le> 512
      \<and> nat (announced s) + 8 \<le> length s")
    case True
    then obtain r where "drop (nat (announced s) + 8) s = concat (frames (drop (nat (announced s) + 8) s)) @ r"
      using 1 by blast
    moreover have "frames s = take (nat (announced s) + 8) s # frames (drop (nat (announced s) + 8) s)"
      using True unfolding frames.simps [of s] by (rule if_P)
    ultimately have "concat (frames s) @ r = s" by simp
    then show ?thesis by metis
  next
    case False
    then have "frames s = []" unfolding frames.simps [of s] by (rule if_not_P)
    then show ?thesis by simp
  qed
qed

lemma frames_grow: "\<exists>fs. frames (s @ t) = frames s @ fs"
proof -
  obtain r where "s = concat (frames s) @ r" using input_frames_prefix by blast
  then have "s @ t = concat (frames s) @ r @ t" by (metis append_assoc)
  then have "frames (s @ t) = frames s @ frames (r @ t)"
    using frames_extend [of s "r @ t"] by metis
  then show ?thesis by blast
qed

section \<open>The merge\<close>

definition frames_of :: "nat \<Rightarrow> (nat \<times> string) list \<Rightarrow> string list" where
  "frames_of i F = map snd (filter (\<lambda>p. fst p = i) F)"

text \<open>
  \<open>F\<close> are the frames in the order of the log, each with the number of its session; \<open>inp\<close> is what the
  sessions have received, also those that are gone; \<open>sid\<close> numbers the sessions there are, below \<open>n\<close>.
\<close>

definition merged ::
    "(nat \<times> string) list \<Rightarrow> (nat \<Rightarrow> string) \<Rightarrow> (address \<Rightarrow> nat) \<Rightarrow> nat \<Rightarrow> chat_state \<Rightarrow> bool" where
  "merged F inp sid n s \<longleftrightarrow>
     map wire_bytes (room_log s) = map (relayed \<circ> snd) F
     \<and> (\<forall>i. frames_of i F = frames (inp i))
     \<and> inj_on sid (dom (chat_objects s))
     \<and> (\<forall>a c. chat_objects s a = Some c \<longrightarrow> sid a < n \<and> inp (sid a) = sess_in c)
     \<and> (\<forall>i \<ge> n. inp i = [])"

lemma same_view: "map_option f x = map_option f y \<Longrightarrow> x = Some e \<Longrightarrow> \<exists>c. y = Some c \<and> f c = f e"
  by (cases y) auto

lemma merged_less:
  assumes "merged F inp sid n s" "room_log t = room_log s"
    and "\<And>a d. chat_objects t a = Some d \<Longrightarrow> \<exists>c. chat_objects s a = Some c \<and> sess_in c = sess_in d"
  shows "merged F inp sid n t"
proof -
  have "dom (chat_objects t) \<subseteq> dom (chat_objects s)" using assms(3) by blast
  then have "inj_on sid (dom (chat_objects t))"
    using assms(1) by (auto simp: merged_def intro: inj_on_subset)
  moreover have "sid a < n \<and> inp (sid a) = sess_in d" if "chat_objects t a = Some d" for a d
    using assms(1) assms(3) [OF that] by (auto simp: merged_def)
  ultimately show ?thesis using assms(1,2) by (simp add: merged_def)
qed

lemma merged_new:
  assumes "merged F inp sid n s" "room_log t = room_log s"
    and new: "chat_objects s a = None" "chat_objects t a = Some d" "sess_in d = []"
    and other: "\<And>b. b \<noteq> a \<Longrightarrow> map_option sess_in (chat_objects t b) = map_option sess_in (chat_objects s b)"
  shows "merged F inp (sid(a := n)) (Suc n) t"
proof -
  have s: "inj_on sid (dom (chat_objects s))" "inp n = []"
    "\<And>b c. chat_objects s b = Some c \<Longrightarrow> sid b < n \<and> inp (sid b) = sess_in c"
    using assms(1) by (auto simp: merged_def)
  have old: "b \<noteq> a \<Longrightarrow> chat_objects t b = Some c \<Longrightarrow>
      \<exists>c'. chat_objects s b = Some c' \<and> sess_in c' = sess_in c" for b c
    using same_view [OF other] by blast
  have live: "b \<in> dom (chat_objects s) \<and> sid b < n" if "b \<in> dom (chat_objects t)" "b \<noteq> a" for b
    using that old s(3) by blast
  have "inj_on (sid(a := n)) (dom (chat_objects t))"
  proof (rule inj_onI)
    fix b c
    assume bc: "b \<in> dom (chat_objects t)" "c \<in> dom (chat_objects t)" "(sid(a := n)) b = (sid(a := n)) c"
    show "b = c"
    proof (cases "b = a \<or> c = a")
      case True
      with bc live [of b] live [of c] show ?thesis by (cases "b = a"; cases "c = a") auto
    next
      case False
      with bc live [of b] live [of c] inj_onD [OF s(1), of b c] show ?thesis by simp
    qed
  qed
  moreover have "(sid(a := n)) b < Suc n \<and> inp ((sid(a := n)) b) = sess_in c"
    if "chat_objects t b = Some c" for b c
    using that old [of b c] s(2,3) new by (cases "b = a") (fastforce simp: less_Suc_eq)+
  ultimately show ?thesis using assms(1,2) by (simp add: merged_def)
qed

text \<open>A session receives bytes and posts what they complete.\<close>

lemma session_posts:
  "chat_ok s \<Longrightarrow> chat_objects s a = Some c \<Longrightarrow>
     map wire_bytes (sess_posted c) = map relayed (frames (sess_in c))"
  by (auto simp: chat_ok_def chat_core_def session_ok_def input_ok_def dest: spec [where x = a])

lemma frames_of_append:
  "frames_of i (F @ map (Pair j) fs) = frames_of i F @ (if i = j then fs else [])"
  by (simp add: frames_of_def filter_map comp_def)

lemma merged_receive:
  assumes m: "merged F inp sid n s" and ok: "chat_ok s" "chat_ok t"
    and a: "chat_objects s a = Some c" "chat_objects t a = Some d"
    and got: "sess_in d = sess_in c @ bytes" "sess_posted d = sess_posted c @ ms"
      "room_log t = room_log s @ ms"
    and other: "\<And>b. b \<noteq> a \<Longrightarrow> map_option sess_in (chat_objects t b) = map_option sess_in (chat_objects s b)"
  shows "\<exists>F'. merged F' (inp(sid a := sess_in d)) sid n t"
proof -
  have s: "inj_on sid (dom (chat_objects s))" "sid a < n" "inp (sid a) = sess_in c"
    "\<And>b c. chat_objects s b = Some c \<Longrightarrow> sid b < n \<and> inp (sid b) = sess_in c"
    using m a(1) by (auto simp: merged_def)
  obtain fs where fs: "frames (sess_in d) = frames (sess_in c) @ fs"
    using frames_grow [of "sess_in c" bytes] got(1) by auto
  have "map wire_bytes (sess_posted c) @ map wire_bytes ms = map relayed (frames (sess_in c)) @ map relayed fs"
    using session_posts [OF ok(2) a(2)] by (simp add: got(2) fs)
  then have ms: "map wire_bytes ms = map relayed fs"
    using session_posts [OF ok(1) a(1)] by simp
  have old: "\<exists>c'. chat_objects s b = Some c' \<and> sess_in c' = sess_in e"
    if "b \<noteq> a" "chat_objects t b = Some e" for b e
    using same_view [OF other [OF that(1)] that(2)] .
  have "chat_objects t b = None \<longleftrightarrow> chat_objects s b = None" for b
    using a other [of b] by (cases "b = a") (simp, metis option.map_disc_iff)
  then have dom: "dom (chat_objects t) = dom (chat_objects s)" by (intro set_eqI) (simp only: domIff)
  have "(inp(sid a := sess_in d)) (sid b) = sess_in e \<and> sid b < n"
    if e: "chat_objects t b = Some e" for b e
  proof (cases "b = a")
    case True
    with e a(2) s(2) show ?thesis by simp
  next
    case False
    with old [OF _ e] s(4) obtain c' where "chat_objects s b = Some c'" "sess_in c' = sess_in e" by blast
    moreover from this have "sid b \<noteq> sid a" using False a(1) inj_onD [OF s(1), of b a] by blast
    ultimately show ?thesis using s(4) by simp
  qed
  moreover have "map wire_bytes (room_log t) = map (relayed \<circ> snd) (F @ map (Pair (sid a)) fs)"
    using m ms by (simp add: merged_def got(3))
  moreover have "frames_of i (F @ map (Pair (sid a)) fs) = frames ((inp(sid a := sess_in d)) i)" for i
    using m s(3) by (simp add: merged_def frames_of_append fs)
  ultimately have "merged (F @ map (Pair (sid a)) fs) (inp(sid a := sess_in d)) sid n t"
    using m s(1,2) by (simp add: merged_def dom)
  then show ?thesis by blast
qed

section \<open>Every step keeps the merge\<close>

lemma deliver_view:
  "map_option sess_in (chat_objects (deliver_each as m s) b) = map_option sess_in (chat_objects s b)"
  "map_option sess_posted (chat_objects (deliver_each as m s) b) = map_option sess_posted (chat_objects s b)"
  by (induction as m s rule: deliver_each.induct)
     (auto simp: option.map_comp comp_def)

lemma history_view:
  "map_option sess_in (chat_objects (deliver_history a ms s) b) = map_option sess_in (chat_objects s b)"
  "room_log (deliver_history a ms s) = room_log s"
  by (induction a ms s rule: deliver_history.induct)
     (auto simp: option.map_comp comp_def)

lemma on_header_view:
  assumes "on_header a ec bytes s = Some t"
  shows "\<exists>c d. chat_objects s a = Some c \<and> chat_objects t a = Some d \<and> sess_in d = sess_in c @ bytes
      \<and> sess_posted d = sess_posted c" "room_log t = room_log s"
    "b \<noteq> a \<Longrightarrow> chat_objects t b = chat_objects s b"
  using assms
  by (auto simp: on_header_def Let_def do_read_body_def split: option.splits prod.splits if_splits)

lemma on_body_view:
  assumes "on_body a ec bytes s = Some t"
  shows "\<exists>c d ms. chat_objects s a = Some c \<and> chat_objects t a = Some d \<and> sess_in d = sess_in c @ bytes
      \<and> sess_posted d = sess_posted c @ ms \<and> room_log t = room_log s @ ms"
    "b \<noteq> a \<Longrightarrow> map_option sess_in (chat_objects t b) = map_option sess_in (chat_objects s b)"
proof -
  obtain c m where c: "chat_objects s a = Some c" "store_body bytes (read_msg c) = Some m"
    using assms by (auto simp: on_body_def split: option.splits)
  let ?c1 = "c\<lparr>read_msg := m, sess_in := sess_in c @ bytes\<rparr>"
  let ?s2 = "chat_set a (?c1\<lparr>sess_posted := sess_posted c @ [m]\<rparr>) s"
  have "(\<exists>c d ms. chat_objects s a = Some c \<and> chat_objects t a = Some d \<and> sess_in d = sess_in c @ bytes
      \<and> sess_posted d = sess_posted c @ ms \<and> room_log t = room_log s @ ms)
    \<and> (b \<noteq> a \<longrightarrow> map_option sess_in (chat_objects t b) = map_option sess_in (chat_objects s b))"
  proof (cases "ec = No_error")
    case True
    with assms c have t: "t = do_read_header a (room_deliver m ?s2)"
      by (simp add: on_body_def Let_def)
    have view: "map_option sess_in (chat_objects t b) = map_option sess_in (chat_objects ?s2 b)"
      "map_option sess_posted (chat_objects t b) = map_option sess_posted (chat_objects ?s2 b)" for b
      by (simp_all add: t do_read_header_def room_deliver_def deliver_view)
    have log: "room_log t = room_log s @ [m]"
      by (simp add: t do_read_header_def room_deliver_def deliver_view)
    from view [of a] obtain d where "chat_objects t a = Some d" "sess_in d = sess_in c @ bytes"
      "sess_posted d = sess_posted c @ [m]" by auto
    with c(1) log view [of b] show ?thesis by auto
  next
    case False
    with assms c have t: "t = room_leave a (chat_set a ?c1 s)" by (simp add: on_body_def Let_def)
    with c(1) show ?thesis by simp
  qed
  then show "\<exists>c d ms. chat_objects s a = Some c \<and> chat_objects t a = Some d \<and> sess_in d = sess_in c @ bytes
      \<and> sess_posted d = sess_posted c @ ms \<and> room_log t = room_log s @ ms"
    "b \<noteq> a \<Longrightarrow> map_option sess_in (chat_objects t b) = map_option sess_in (chat_objects s b)" by blast+
qed

lemma on_sent_view:
  assumes "on_sent a ec n s = Some t" "chat_objects t b = Some d"
  shows "\<exists>c. chat_objects s b = Some c \<and> sess_in c = sess_in d" "room_log t = room_log s"
  using assms
  by (auto simp: on_sent_def Let_def session_write_def split: option.splits list.splits if_splits)

text \<open>
  A run of the server in which each session has the number of the step that accepts it: \<open>sid\<close> are the
  numbers of the sessions there are, \<open>inp i\<close> is what the session with number \<open>i\<close> has received, also
  when it is gone, and \<open>n\<close> is the number of the next step.
\<close>

definition number_new ::
    "chat_state \<Rightarrow> chat_state \<Rightarrow> nat \<Rightarrow> (address \<Rightarrow> nat) \<Rightarrow> address \<Rightarrow> nat" where
  "number_new s t n sid =
     (\<lambda>a. if chat_objects s a = None \<and> chat_objects t a \<noteq> None then n else sid a)"

inductive chat_history ::
    "(nat \<Rightarrow> string) \<Rightarrow> (address \<Rightarrow> nat) \<Rightarrow> nat \<Rightarrow> chat_state \<Rightarrow> bool" where
  history_start: "chat_history (\<lambda>_. []) (\<lambda>_. 0) 0 new_chat_server"
| history_step: "chat_history inp sid n s \<Longrightarrow> chat_step s t \<Longrightarrow> sid' = number_new s t n sid \<Longrightarrow>
     (\<And>a c. chat_objects t a = Some c \<Longrightarrow> inp' (sid' a) = sess_in c) \<Longrightarrow>
     (\<And>i. i \<notin> sid' ` dom (chat_objects t) \<Longrightarrow> inp' i = inp i) \<Longrightarrow>
     chat_history inp' sid' (Suc n) t"

lemma history_reachable: "chat_history inp sid n s \<Longrightarrow> chat_reachable s"
  by (induction rule: chat_history.induct) (blast intro: chat_reachable.intros)+

lemma number_none_new:
  "(\<And>a d. chat_objects t a = Some d \<Longrightarrow> \<exists>c. chat_objects s a = Some c \<and> sess_in c = sess_in d)
     \<Longrightarrow> number_new s t n sid = sid"
  by (fastforce simp: number_new_def)

lemma merged_later: "merged F inp sid n s \<Longrightarrow> merged F inp sid (Suc n) s"
  by (auto simp: merged_def less_Suc_eq)

text \<open>A step keeps the merge, and the inputs of the sessions that are gone.\<close>

definition merge_goes_on ::
    "(nat \<Rightarrow> string) \<Rightarrow> (address \<Rightarrow> nat) \<Rightarrow> nat \<Rightarrow> chat_state \<Rightarrow> chat_state \<Rightarrow> bool" where
  "merge_goes_on inp sid n s t \<longleftrightarrow>
     (\<exists>F' inp'. merged F' inp' (number_new s t n sid) (Suc n) t
        \<and> (\<forall>i. i \<notin> number_new s t n sid ` dom (chat_objects t) \<longrightarrow> inp' i = inp i))"

lemma goes_on_less:
  assumes "merged F inp sid n s" "room_log t = room_log s"
    and "\<And>a d. chat_objects t a = Some d \<Longrightarrow> \<exists>c. chat_objects s a = Some c \<and> sess_in c = sess_in d"
  shows "merge_goes_on inp sid n s t"
proof -
  have "number_new s t n sid = sid" by (rule number_none_new) (rule assms(3))
  moreover have "merged F inp sid (Suc n) t" by (rule merged_later [OF merged_less [OF assms]])
  ultimately show ?thesis unfolding merge_goes_on_def by auto
qed

lemma goes_on_receive:
  assumes m: "merged F inp sid n s" and ok: "chat_ok s" "chat_ok t"
    and a: "chat_objects s a = Some c" "chat_objects t a = Some d"
    and got: "sess_in d = sess_in c @ bytes" "sess_posted d = sess_posted c @ ms"
      "room_log t = room_log s @ ms"
    and other: "\<And>b. b \<noteq> a \<Longrightarrow> map_option sess_in (chat_objects t b) = map_option sess_in (chat_objects s b)"
  shows "merge_goes_on inp sid n s t"
proof -
  obtain F' where F': "merged F' (inp(sid a := sess_in d)) sid n t"
    using merged_receive [OF m ok a got other] by blast
  have "number_new s t n sid = sid"
  proof
    fix b
    show "number_new s t n sid b = sid b"
      using a same_view [OF other, of b] by (cases "b = a") (auto simp: number_new_def)
  qed
  moreover have "i \<notin> sid ` dom (chat_objects t) \<longrightarrow> (inp(sid a := sess_in d)) i = inp i" for i
    using a(2) by auto
  ultimately show ?thesis using merged_later [OF F'] unfolding merge_goes_on_def by metis
qed

lemma goes_on_new:
  assumes "merged F inp sid n s" "room_log t = room_log s"
    and new: "chat_objects s a = None" "chat_objects t a = Some d" "sess_in d = []"
    and other: "\<And>b. b \<noteq> a \<Longrightarrow> map_option sess_in (chat_objects t b) = map_option sess_in (chat_objects s b)"
  shows "merge_goes_on inp sid n s t"
proof -
  have "number_new s t n sid = sid(a := n)"
  proof
    fix b
    show "number_new s t n sid b = (sid(a := n)) b"
      using new same_view [OF other, of b] by (cases "b = a") (auto simp: number_new_def)
  qed
  with merged_new [OF assms] show ?thesis by (auto simp: merge_goes_on_def)
qed

lemma merged_step:
  assumes "chat_step s t" "chat_ok s" "chat_ok t" "merged F inp sid n s"
  shows "merge_goes_on inp sid n s t"
  using assms(1)
proof cases
  case (connect_done a ec)
  show ?thesis
  proof (cases "ec = No_error")
    case True
    then have view: "map_option sess_in (chat_objects t b)
        = map_option sess_in (((chat_objects s)(a \<mapsto> new_session)) b)" for b
      by (simp add: connect_done(1) on_connect_def accept_next_def session_start_def do_read_header_def
          room_join_def history_view)
    have "room_log t = room_log s"
      by (simp add: True connect_done(1) on_connect_def accept_next_def session_start_def do_read_header_def
          room_join_def history_view)
    moreover obtain d where "chat_objects t a = Some d" "sess_in d = []"
      using view [of a] by (auto simp: new_session_def)
    ultimately show ?thesis
      using goes_on_new [OF assms(4), of t a d] view connect_done(4) by auto
  next
    case False
    then show ?thesis
      using goes_on_less [OF assms(4), of t] by (auto simp: connect_done(1) on_connect_def accept_next_def)
  qed
next
  case (header_done a bytes ec)
  from on_header_view [OF header_done(4)] obtain c d where
    "chat_objects s a = Some c" "chat_objects t a = Some d" "sess_in d = sess_in c @ bytes"
    "sess_posted d = sess_posted c @ []" "room_log t = room_log s @ []" by auto
  from goes_on_receive [OF assms(4,2,3) this] on_header_view(3) [OF header_done(4)] show ?thesis
    by fastforce
next
  case (body_done a k bytes ec)
  from on_body_view(1) [OF body_done(4)] obtain c d ms where
    "chat_objects s a = Some c" "chat_objects t a = Some d" "sess_in d = sess_in c @ bytes"
    "sess_posted d = sess_posted c @ ms" "room_log t = room_log s @ ms" by auto
  from goes_on_receive [OF assms(4,2,3) this] on_body_view(2) [OF body_done(4)] show ?thesis
    by fastforce
next
  case (sent_done a ec n')
  have "room_log t = room_log s"
    using sent_done(3) by (auto simp: on_sent_def Let_def session_write_def split: option.splits list.splits if_splits)
  with goes_on_less [OF assms(4)] on_sent_view(1) [OF sent_done(3)] show ?thesis by fastforce
next
  case (session_released a c)
  then show ?thesis
    by (intro goes_on_less [OF assms(4)]) (auto split: if_splits)
qed

lemma merged_start: "merged [] (\<lambda>_. []) (\<lambda>_. 0) 0 new_chat_server"
  by (simp add: merged_def new_chat_server_def accept_next_def frames_of_def frames_short)

lemma chat_merged: "chat_history inp sid n s \<Longrightarrow> \<exists>F. merged F inp sid n s"
proof (induction rule: chat_history.induct)
  case history_start
  show ?case using merged_start by blast
next
  case (history_step inp sid n s t sid' inp')
  have "chat_ok s" "chat_ok t"
    using history_step.hyps(1,2) history_reachable by (blast intro: chat_reachable_ok chat_next)+
  with history_step.IH merged_step [OF history_step.hyps(2)] have "merge_goes_on inp sid n s t" by blast
  then obtain F' inp1 where F': "merged F' inp1 sid' (Suc n) t"
    and gone: "\<And>i. i \<notin> sid' ` dom (chat_objects t) \<Longrightarrow> inp1 i = inp i"
    unfolding merge_goes_on_def history_step.hyps(3) by blast
  have "inp' = inp1"
  proof
    fix i
    show "inp' i = inp1 i"
    proof (cases "i \<in> sid' ` dom (chat_objects t)")
      case True
      then obtain a c where "chat_objects t a = Some c" "i = sid' a" by auto
      with F' history_step.hyps(4) show ?thesis by (simp add: merged_def)
    next
      case False
      with gone history_step.hyps(5) show ?thesis by simp
    qed
  qed
  with F' show ?case by blast
qed

text \<open>Every state that can be reached has such a history.\<close>

lemma reachable_history: "chat_reachable s \<Longrightarrow> \<exists>inp sid n. chat_history inp sid n s"
proof (induction rule: chat_reachable.induct)
  case chat_start
  show ?case using history_start by blast
next
  case (chat_next s t)
  then obtain inp sid n where h: "chat_history inp sid n s" by blast
  have "chat_ok s" "chat_ok t" using chat_next.hyps by (blast intro: chat_reachable_ok chat_reachable.chat_next)+
  with chat_merged [OF h] merged_step [OF chat_next.hyps(2)] have "merge_goes_on inp sid n s t" by blast
  then obtain F' inp' where F': "merged F' inp' (number_new s t n sid) (Suc n) t"
    "\<And>i. i \<notin> number_new s t n sid ` dom (chat_objects t) \<Longrightarrow> inp' i = inp i"
    unfolding merge_goes_on_def by blast
  from F'(1) have "chat_objects t a = Some c \<Longrightarrow> inp' (number_new s t n sid a) = sess_in c" for a c
    by (simp add: merged_def)
  from history_step [OF h chat_next.hyps(2) refl this F'(2)] show ?case by blast
qed

lemma stretch_of_merge:
  assumes "map wire_bytes log = map (relayed \<circ> snd) F" "sublist part log"
  shows "\<exists>G. sublist G F \<and> wire part = concat (map (relayed \<circ> snd) G)"
proof -
  obtain xs ys where log: "log = xs @ part @ ys" using assms(2) by (auto simp: sublist_def)
  then obtain F1 G F2 where "F = F1 @ G @ F2" "map wire_bytes part = map (relayed \<circ> snd) G"
    using assms(1) by (auto simp: map_eq_append_conv append_eq_map_conv)
  then show ?thesis unfolding wire_def sublist_def by metis
qed

lemma sent_stretch:
  assumes "chat_reachable s" "merged F inp sid n s" "chat_objects s a = Some c"
  shows "\<exists>part. sublist part F \<and> prefix (sess_out c) (concat (map (relayed \<circ> snd) part))"
proof -
  have "session_ok a s" using chat_reachable_ok [OF assms(1)] by (simp add: chat_ok_def chat_core_def)
  with assms(3) have "sublist (sess_offered c) (room_log s)" "prefix (sess_out c) (wire (sess_offered c))"
    by (simp_all add: session_ok_def output_ok_def)
  with assms(2) show ?thesis using stretch_of_merge [of "room_log s" F "sess_offered c"]
    by (auto simp: merged_def)
qed

section \<open>Property\<close>

text \<open>
  Property C6. The chat relays what it receives: there is one order \<open>F\<close> of frames, a merge of
  the frames of the inputs of all sessions there have been, such that what any client has been sent is
  the beginning of what a contiguous stretch of \<open>F\<close> relays, each frame without its last four
  characters. Nothing else is ever sent, nothing twice, nothing out of order, and all clients see the
  same order.
\<close>

theorem chat_server_relays:
  assumes "chat_history inp sid n s"
  shows "\<exists>F. (\<forall>i. frames_of i F = frames (inp i))
    \<and> (\<forall>a c. chat_objects s a = Some c \<longrightarrow> inp (sid a) = sess_in c
         \<and> (\<exists>part. sublist part F \<and> prefix (sess_out c) (concat (map (relayed \<circ> snd) part))))"
proof -
  obtain F where m: "merged F inp sid n s" using chat_merged [OF assms] by blast
  with sent_stretch [OF history_reachable [OF assms] m] show ?thesis
    unfolding merged_def by blast
qed

theorem chat_server_relays_witness:
  "\<exists>s F inp sid n. chat_history inp sid n s \<and> frames_of (sid 7) F = [encoded ''hi'' @ ''    '']
     \<and> (\<exists>c part. chat_objects s 7 = Some c \<and> sublist part F
          \<and> prefix (sess_out c) (concat (map (relayed \<circ> snd) part)))"
proof -
  obtain s c where s: "chat_reachable s" "chat_objects s 7 = Some c"
    "frames (sess_in c) = [encoded ''hi'' @ ''    '']"
    using example_frame by blast
  obtain inp sid n where h: "chat_history inp sid n s" using reachable_history [OF s(1)] by blast
  from chat_server_relays [OF h] obtain F where
    "\<forall>i. frames_of i F = frames (inp i)"
    "\<forall>a c. chat_objects s a = Some c \<longrightarrow> inp (sid a) = sess_in c
         \<and> (\<exists>part. sublist part F \<and> prefix (sess_out c) (concat (map (relayed \<circ> snd) part)))"
    by blast
  with s h show ?thesis by metis
qed

end
