(* ===== verification/Chat_Conversation.thy ===== *)
theory Chat_Conversation
  imports Chat_Client Chat_Log
begin

text \<open>
  The chat server and its client together. The client cuts the stream into frames the way the
  protocol means it, a header and the body it announces; what it shows is a function of what it
  has received. The messages of the room's log are such frames, so a client shows a stretch of
  the log, and with Chat_Log a stretch of the merged inputs of all sessions. The network between the two is the assumption that what a client has received is the
  beginning of what its session has sent.
\<close>

section \<open>The frames of the protocol\<close>

definition protocol_frame :: "string \<Rightarrow> bool" where
  "protocol_frame f \<longleftrightarrow> 4 \<le> length f \<and> announced f = int (length f - 4)"

definition frame_body :: "string \<Rightarrow> char option list" where
  "frame_body f = map Some (drop 4 f)"

lemma protocol_frame_append:
  "length h = 4 \<Longrightarrow> announced h = int (length b) \<Longrightarrow> protocol_frame (h @ b)"
  by (simp add: protocol_frame_def announced_append)

text \<open>A stream is cut into frames in one way only.\<close>

lemma frame_prefix_eq:
  assumes "protocol_frame f" "protocol_frame g" "prefix (f @ x) (g @ y)"
  shows "f = g \<and> prefix x y"
proof -
  have len: "4 \<le> length f" "4 \<le> length g"
    using assms(1,2) by (simp_all add: protocol_frame_def)
  from assms(3) obtain z where z: "g @ y = (f @ x) @ z" by (auto simp: prefix_def)
  have "announced f = announced (g @ y)" using len(1) by (simp add: z announced_append)
  also have "\<dots> = announced g" using len(2) by (rule announced_append)
  finally have "length f = length g" using assms(1,2) unfolding protocol_frame_def by linarith
  with z show ?thesis by auto
qed

lemma frames_prefix:
  "\<forall>f \<in> set fs. protocol_frame f \<Longrightarrow> \<forall>g \<in> set gs. protocol_frame g \<Longrightarrow>
     prefix (concat fs @ r) (concat gs) \<Longrightarrow> prefix fs gs"
proof (induction fs arbitrary: gs)
  case (Cons f fs)
  show ?case
  proof (cases gs)
    case Nil
    have "f \<noteq> []" using Cons.prems(1) by (auto simp: protocol_frame_def)
    with Cons.prems(3) Nil show ?thesis by simp
  next
    case (Cons g gs')
    have "f = g \<and> prefix (concat fs @ r) (concat gs')"
      using Cons.prems Cons by (intro frame_prefix_eq) simp_all
    with Cons.IH [of gs'] Cons.prems Cons show ?thesis by simp
  qed
qed simp

section \<open>What a client makes of its input\<close>

fun is_client_read :: "client_op \<Rightarrow> bool" where
  "is_client_read Connect_op = True"
| "is_client_read Read_header_op = True"
| "is_client_read (Read_body_op k) = True"
| "is_client_read _ = False"

definition client_reads_on :: "client_state \<Rightarrow> client_op list" where
  "client_reads_on s = filter is_client_read (cl_ops s)"

fun client_read_at :: "string \<Rightarrow> nat \<Rightarrow> client_op \<Rightarrow> bool" where
  "client_read_at r n (Read_body_op k) \<longleftrightarrow> length r = 4 \<and> announced r = int k \<and> n = k"
| "client_read_at r n p \<longleftrightarrow> r = []"

definition client_input_ok :: "client_state \<Rightarrow> bool" where
  "client_input_ok s \<longleftrightarrow> length (client_reads_on s) \<le> 1
     \<and> (\<exists>fs r. cl_in s = concat fs @ r \<and> (\<forall>f \<in> set fs. protocol_frame f)
          \<and> cl_shown s = map frame_body fs
          \<and> (\<forall>p \<in> set (client_reads_on s). client_read_at r (msg_body_length (cl_read_msg s)) p))"

lemma client_reads_begin [simp]:
  "client_reads_on (client_begin p s) = client_reads_on s @ (if is_client_read p then [p] else [])"
  by (simp add: client_reads_on_def)

lemma client_reads_finish:
  "client_reads_on (client_finish p s) = remove1 p (client_reads_on s)"
  by (simp add: client_reads_on_def filter_remove1)

lemma client_reads_finish_other [simp]:
  "\<not> is_client_read p \<Longrightarrow> client_reads_on (client_finish p s) = client_reads_on s"
  by (simp add: client_reads_on_def filter_remove1 remove1_idem)

lemma client_reads_received [simp]:
  "client_reads_on (client_received bytes s) = client_reads_on s"
  by (simp add: client_reads_on_def)

lemma client_reads_upd [simp]:
  "client_reads_on (s\<lparr>cl_read_msg := m\<rparr>) = client_reads_on s"
  "client_reads_on (s\<lparr>cl_shown := sh\<rparr>) = client_reads_on s"
  "client_reads_on (s\<lparr>cl_out := ou\<rparr>) = client_reads_on s"
  "client_reads_on (s\<lparr>cl_write_msgs := ms\<rparr>) = client_reads_on s"
  "client_reads_on (s\<lparr>cl_queued := ms\<rparr>) = client_reads_on s"
  "client_reads_on (s\<lparr>cl_socket_open := b\<rparr>) = client_reads_on s"
  "client_reads_on (s\<lparr>cl_socket_closed := b\<rparr>) = client_reads_on s"
  by (simp_all add: client_reads_on_def)

text \<open>The read that completes is the only one.\<close>

lemma client_read_completes:
  assumes "client_input_ok s" "p \<in> set (cl_ops s)" "is_client_read p"
  obtains fs r where "cl_in s = concat fs @ r" "\<forall>f \<in> set fs. protocol_frame f"
    "cl_shown s = map frame_body fs" "client_read_at r (msg_body_length (cl_read_msg s)) p"
    "client_reads_on (client_finish p s) = []"
proof -
  have p: "p \<in> set (client_reads_on s)" using assms(2,3) by (simp add: client_reads_on_def)
  with assms(1) have one: "client_reads_on s = [p]"
    by (cases "client_reads_on s") (auto simp: client_input_ok_def)
  obtain fs r where "cl_in s = concat fs @ r" "\<forall>f \<in> set fs. protocol_frame f"
    "cl_shown s = map frame_body fs" "client_read_at r (msg_body_length (cl_read_msg s)) p"
    using assms(1) p by (auto simp: client_input_ok_def)
  then show thesis using that one by (simp add: client_reads_finish)
qed

text \<open>When nothing is being read any more, what has come since the last frame may be anything.\<close>

lemma client_input_ended:
  assumes "client_reads_on t = []" "cl_in t = concat fs @ r" "\<forall>f \<in> set fs. protocol_frame f"
    and "cl_shown t = map frame_body fs"
  shows "client_input_ok t"
  using assms by (auto simp: client_input_ok_def)

lemma client_input_same:
  assumes "client_input_ok s" "client_reads_on t = client_reads_on s" "cl_in t = cl_in s"
    and "cl_shown t = cl_shown s" "cl_read_msg t = cl_read_msg s"
  shows "client_input_ok t"
  using assms by (simp add: client_input_ok_def)

lemma header_read_input:
  assumes ok: "client_ok s" and inp: "client_input_ok s" and p: "Read_header_op \<in> set (cl_ops s)"
    and ec: "ec = No_error \<longleftrightarrow> length bytes = header_length"
    and t: "on_read_header ec bytes (client_received bytes (client_finish Read_header_op s)) = Some t"
  shows "client_input_ok t"
proof -
  let ?s = "client_received bytes (client_finish Read_header_op s)"
  obtain fs r where r: "cl_in s = concat fs @ r" "\<forall>f \<in> set fs. protocol_frame f"
    "cl_shown s = map frame_body fs" "client_read_at r (msg_body_length (cl_read_msg s)) Read_header_op"
    "client_reads_on (client_finish Read_header_op s) = []"
    by (rule client_read_completes [OF inp p]) simp
  have wf: "message_wf (cl_read_msg s)" using ok by (simp add: client_ok_def)
  obtain m where m: "store 0 bytes (cl_read_msg s) = Some m"
    using t by (auto simp: on_read_header_def split: option.splits)
  show ?thesis
  proof (cases "\<exists>m1. ec = No_error \<and> decode_header m = Some (True, m1)")
    case True
    then obtain m1 where m1: "ec = No_error" "decode_header m = Some (True, m1)" by blast
    then have len: "length bytes = 4" using ec by (simp add: header_length_def)
    have "take header_length (msg_data m) = map Some bytes"
      using store_header [OF m] ec m1(1) by simp
    from decode_header_spec [OF store_wf [OF m wf] this] m1(2)
    have "int (msg_body_length m1) = announced bytes"
      using len by (auto simp: announced_def header_length_def)
    moreover have "t = client_read_body m1 (?s\<lparr>cl_read_msg := m1\<rparr>)"
      using t m m1 by (simp add: on_read_header_def Let_def)
    ultimately show ?thesis
      using r len by (auto simp: client_input_ok_def client_read_body_def intro!: exI [of _ fs])
  next
    case False
    then obtain m2 where "t = shut_client (?s\<lparr>cl_read_msg := m2\<rparr>)"
      using t m by (auto simp: on_read_header_def Let_def split: option.splits if_splits prod.splits)
    then show ?thesis
      using r by (intro client_input_ended [of t fs bytes]) (simp_all add: shut_client_def)
  qed
qed

lemma body_read_input:
  assumes ok: "client_ok s" and inp: "client_input_ok s" and p: "Read_body_op k \<in> set (cl_ops s)"
    and ec: "ec = No_error \<longleftrightarrow> length bytes = k"
    and t: "on_read_body ec bytes (client_received bytes (client_finish (Read_body_op k) s)) = Some t"
  shows "client_input_ok t"
proof -
  let ?s = "client_received bytes (client_finish (Read_body_op k) s)"
  obtain fs r where r: "cl_in s = concat fs @ r" "\<forall>f \<in> set fs. protocol_frame f"
    "cl_shown s = map frame_body fs" "client_read_at r (msg_body_length (cl_read_msg s)) (Read_body_op k)"
    "client_reads_on (client_finish (Read_body_op k) s) = []"
    by (rule client_read_completes [OF inp p]) simp
  have wf: "message_wf (cl_read_msg s)" using ok by (simp add: client_ok_def)
  obtain m where m: "store_body bytes (cl_read_msg s) = Some m"
    using t by (auto simp: on_read_body_def split: option.splits)
  show ?thesis
  proof (cases "ec = No_error")
    case True
    then have len: "length bytes = k" using ec by simp
    have "msg_body_length m = k" using m r(4) by (auto simp: store_body_def store_def split: if_splits)
    moreover have "drop header_length (msg_data m) = map Some bytes @ drop (length bytes) (drop header_length (msg_data (cl_read_msg s)))"
      using m wf by (auto simp: store_body_def store_def message_wf_def add.commute split: if_splits)
    ultimately have body: "body_text m = map Some bytes" using len by (simp add: body_text_def)
    have "protocol_frame (r @ bytes)" using r(4) len by (simp add: protocol_frame_append)
    moreover have "frame_body (r @ bytes) = map Some bytes" using r(4) by (simp add: frame_body_def)
    moreover have "t = client_read_header (?s\<lparr>cl_read_msg := m, cl_shown := cl_shown s @ [map Some bytes]\<rparr>)"
      using t m True body by (simp add: on_read_body_def)
    ultimately show ?thesis
      using r by (auto simp: client_input_ok_def client_read_header_def intro!: exI [of _ "fs @ [r @ bytes]"])
  next
    case False
    then have "t = shut_client (?s\<lparr>cl_read_msg := m\<rparr>)"
      using t m by (simp add: on_read_body_def)
    then show ?thesis
      using r by (intro client_input_ended [of t fs "r @ bytes"]) (simp_all add: shut_client_def)
  qed
qed

lemma client_io_input: "client_io s t \<Longrightarrow> client_ok s \<Longrightarrow> client_input_ok s \<Longrightarrow> client_input_ok t"
proof (induction rule: client_io.induct)
  case (connected s ec)
  obtain fs r where r: "cl_in s = concat fs @ r" "\<forall>f \<in> set fs. protocol_frame f"
    "cl_shown s = map frame_body fs" "client_read_at r (msg_body_length (cl_read_msg s)) Connect_op"
    "client_reads_on (client_finish Connect_op s) = []"
    by (rule client_read_completes [OF connected.prems(2) connected.hyps]) simp
  then show ?case
    by (auto simp: on_connected_def client_read_header_def client_input_ok_def intro!: exI [of _ fs])
next
  case (header_read s bytes ec t)
  then show ?case by (intro header_read_input [of s ec bytes t]) simp_all
next
  case (body_read k s bytes ec t)
  then show ?case by (intro body_read_input [of s k ec bytes t]) simp_all
next
  case (msg_written s ec n t)
  then show ?case
    by (intro client_input_same [of s t])
       (auto simp: on_written_def client_do_write_def shut_client_def Let_def
         split: list.splits if_splits)
next
  case (write_posted msg s)
  then show ?case
    by - (rule client_input_same [of s], simp_all add: on_posted_write_def client_do_write_def Let_def)
next
  case (close_posted s)
  then show ?case by - (rule client_input_same [of s], simp_all add: on_posted_close_def)
qed

lemma client_step_input: "client_step s t \<Longrightarrow> client_ok s \<Longrightarrow> client_input_ok s \<Longrightarrow> client_input_ok t"
proof (induction rule: client_step.induct)
  case (io_done s t)
  then show ?case by (blast intro: client_io_input)
next
  case (line_entered line msg s)
  then show ?case by - (rule client_input_same [of s], simp_all add: client_write_def)
next
  case (input_ended s)
  then show ?case by - (rule client_input_same [of s], simp_all add: client_close_def)
qed

lemma client_reachable_input: "client_reachable s \<Longrightarrow> client_input_ok s"
proof (induction rule: client_reachable.induct)
  case client_start
  show ?case
    by (auto simp: client_input_ok_def new_client_def client_reads_on_def client_begin_def)
next
  case (client_next s t)
  then show ?case using client_step_input client_reachable_ok by blast
qed

section \<open>The log of the room\<close>

text \<open>Every message of the log is, on the wire, a frame of the protocol.\<close>

definition framed_message :: "chat_message \<Rightarrow> bool" where
  "framed_message m \<longleftrightarrow> (\<exists>f. protocol_frame f \<and> wire_bytes m = map Some f \<and> body_text m = frame_body f)"

lemma relayed_frame:
  assumes "frame_ok f" "wire_bytes m = relayed f"
  shows "framed_message m"
proof -
  let ?g = "take (length f - 4) f"
  have "length f \<ge> 8" "announced f = int (length f - 8)" using assms(1) by (auto simp: frame_ok_def)
  moreover have "announced (?g @ drop (length f - 4) f) = announced ?g"
    using \<open>length f \<ge> 8\<close> by (intro announced_append) simp
  ultimately have "protocol_frame ?g" by (simp add: protocol_frame_def)
  moreover have "body_text m = drop 4 (wire_bytes m)"
    by (simp add: body_text_def wire_bytes_def msg_length_def header_length_def drop_take add.commute)
  ultimately show ?thesis
    using assms(2) by (auto simp: framed_message_def relayed_def frame_body_def drop_map intro!: exI [of _ ?g])
qed

lemma posted_framed:
  assumes "chat_ok s" "chat_objects s a = Some c" "m \<in> set (sess_posted c)"
  shows "framed_message m"
proof -
  have "session_ok a s" using assms(1) by (simp add: chat_ok_def chat_core_def)
  then have "map wire_bytes (sess_posted c) = map relayed (frames (sess_in c))"
    using assms(2) by (simp add: session_ok_def input_ok_def)
  then have "wire_bytes m \<in> relayed ` set (frames (sess_in c))"
    using assms(3) by (metis image_eqI set_map)
  then show ?thesis using frames_frame_ok [of "sess_in c"] relayed_frame by auto
qed

lemma chat_step_log:
  assumes "chat_step s t" "chat_ok s" "\<forall>m \<in> set (room_log s). framed_message m"
  shows "\<forall>m \<in> set (room_log t). framed_message m"
  using assms(1)
proof (cases rule: chat_step.cases)
  case (connect_done a ec)
  then show ?thesis
    using assms(3) by (simp add: on_connect_def accept_next_def session_start_def do_read_header_def room_join_def)
next
  case (header_done a bytes ec)
  then show ?thesis
    using assms(3)
    by (auto simp: on_header_def Let_def do_read_body_def split: option.splits if_splits)
next
  case (body_done a k bytes ec)
  have ok: "chat_ok t" by (rule chat_step_ok [OF assms(1,2)])
  show ?thesis
  proof (cases "room_log t = room_log s")
    case False
    then obtain c m where c: "chat_objects s a = Some c" "room_log t = room_log s @ [m]"
      "t = do_read_header a (room_deliver m (chat_set a (c\<lparr>read_msg := m, sess_in := sess_in c @ bytes,
        sess_posted := sess_posted c @ [m]\<rparr>) (chat_finish (Body_op a k) s)))"
      using body_done(4)
      by (auto simp: on_body_def Let_def room_deliver_def do_read_header_def
          split: option.splits if_splits)
    have "distinct (participants s)"
      using assms(2) by (simp add: chat_ok_def chat_core_def room_ok_def std_set_ok_def)
    then have "\<exists>d. chat_objects t a = Some d \<and> sess_posted d = sess_posted c @ [m]"
      using c(3) by (cases "a \<in> set (participants s)")
        (simp_all add: room_deliver_def do_read_header_def deliver_each_objects Let_def)
    then obtain d where "chat_objects t a = Some d" "sess_posted d = sess_posted c @ [m]" by blast
    then have "framed_message m" using posted_framed [OF ok, of a d m] by simp
    then show ?thesis using assms(3) c(2) by auto
  qed (use assms(3) in simp)
next
  case (sent_done a ec n)
  then show ?thesis
    using assms(3)
    by (auto simp: on_sent_def Let_def session_write_def split: option.splits list.splits if_splits)
next
  case (session_released a c)
  then show ?thesis using assms(3) by simp
qed

lemma log_framed: "chat_reachable s \<Longrightarrow> \<forall>m \<in> set (room_log s). framed_message m"
proof (induction rule: chat_reachable.induct)
  case chat_start
  show ?case by (simp add: new_chat_server_def accept_next_def)
next
  case (chat_next s t)
  then show ?case using chat_step_log chat_reachable_ok by blast
qed

lemma framed_wire:
  "\<forall>m \<in> set ms. framed_message m \<Longrightarrow>
     \<exists>gs. wire ms = map Some (concat gs) \<and> (\<forall>g \<in> set gs. protocol_frame g) \<and> map body_text ms = map frame_body gs"
proof (induction ms)
  case (Cons m ms)
  then obtain gs where "wire ms = map Some (concat gs)" "\<forall>g \<in> set gs. protocol_frame g"
    "map body_text ms = map frame_body gs" by auto
  moreover obtain f where "protocol_frame f" "wire_bytes m = map Some f" "body_text m = frame_body f"
    using Cons.prems by (auto simp: framed_message_def)
  ultimately show ?case by (intro exI [of _ "f # gs"]) simp
qed (intro exI [of _ "[]"], simp)

lemma prefix_map_Some: "prefix (map Some xs) (map Some ys) \<longleftrightarrow> prefix xs ys"
proof
  assume "prefix (map Some xs) (map Some ys)"
  then have "prefix (map the (map Some xs)) (map the (map Some ys))" by (rule map_mono_prefix)
  then show "prefix xs ys" by (simp add: comp_def)
qed (rule map_mono_prefix)

section \<open>Property\<close>

text \<open>
  Server and client together: what a client has shown is the bodies of the first
  messages of a stretch of the room's log, in order, none cut, merged, doubled or made up, as
  long as the network delivers the beginning of what the client's session has sent.
\<close>

theorem chat_clients_show_the_log:
  assumes "chat_reachable s" "chat_objects s a = Some c" "client_reachable d"
    and "prefix (map Some (cl_in d)) (sess_out c)"
  shows "\<exists>part. sublist part (room_log s) \<and> prefix (cl_shown d) (map body_text part)"
proof -
  have "session_ok a s"
    using chat_reachable_ok [OF assms(1)] by (simp add: chat_ok_def chat_core_def)
  with assms(2) have out: "sublist (sess_offered c) (room_log s)"
    "prefix (sess_out c) (wire (sess_offered c))" by (simp_all add: session_ok_def output_ok_def)
  obtain gs where gs: "wire (sess_offered c) = map Some (concat gs)" "\<forall>g \<in> set gs. protocol_frame g"
    "map body_text (sess_offered c) = map frame_body gs"
    using framed_wire [of "sess_offered c"] log_framed [OF assms(1)] set_mono_sublist [OF out(1)] by blast
  obtain fs r where fs: "cl_in d = concat fs @ r" "\<forall>f \<in> set fs. protocol_frame f"
    "cl_shown d = map frame_body fs"
    using client_reachable_input [OF assms(3)] by (auto simp: client_input_ok_def)
  have "prefix (map Some (cl_in d)) (map Some (concat gs))"
    using prefix_order.trans [OF assms(4) out(2)] gs(1) by simp
  then have "prefix (concat fs @ r) (concat gs)"
    by (simp only: fs(1) prefix_map_Some)
  from frames_prefix [OF fs(2) gs(2) this] have "prefix (cl_shown d) (map body_text (sess_offered c))"
    using gs(3) fs(3) by (simp add: map_mono_prefix)
  with out(1) show ?thesis by blast
qed

section \<open>From input to terminal\<close>

text \<open>A frame of a session's input carries a frame of the protocol and four characters more.\<close>

definition carried :: "string \<Rightarrow> string" where
  "carried f = take (length f - 4) f"

lemma relayed_carried: "relayed f = map Some (carried f)"
  by (simp add: relayed_def carried_def)

lemma carried_protocol: "frame_ok f \<Longrightarrow> protocol_frame (carried f)"
proof -
  assume f: "frame_ok f"
  then have len: "length (carried f) = nat (announced f) + 4" and pos: "0 \<le> announced f"
    by (simp_all add: frame_ok_def carried_def)
  have "carried f @ drop (length f - 4) f = f" by (simp add: carried_def)
  then have "announced (carried f) = announced f"
    using announced_append [of "carried f" "drop (length f - 4) f"] len by simp
  with len pos show "protocol_frame (carried f)" by (simp add: protocol_frame_def)
qed

lemma merged_frames_ok:
  assumes "\<forall>i. frames_of i F = frames (inp i)" "p \<in> set F"
  shows "frame_ok (snd p)"
proof -
  have "snd p \<in> set (frames_of (fst p) F)" using assms(2) by (auto simp: frames_of_def)
  with assms(1) frames_frame_ok show ?thesis by metis
qed

lemma client_shows_relayed:
  assumes "client_reachable d" "\<forall>p \<in> set part. frame_ok (snd p)"
    and "prefix (map Some (cl_in d)) (concat (map (relayed \<circ> snd) part))"
  shows "prefix (cl_shown d) (map (frame_body \<circ> carried \<circ> snd) part)"
proof -
  let ?gs = "map (carried \<circ> snd) part"
  obtain fs r where fs: "cl_in d = concat fs @ r" "\<forall>f \<in> set fs. protocol_frame f"
    "cl_shown d = map frame_body fs"
    using client_reachable_input [OF assms(1)] by (auto simp: client_input_ok_def)
  have "concat (map (relayed \<circ> snd) part) = map Some (concat ?gs)"
    by (simp add: relayed_carried map_concat comp_def)
  with assms(3) have "prefix (concat fs @ r) (concat ?gs)" by (simp only: fs(1) prefix_map_Some)
  moreover have "\<forall>g \<in> set ?gs. protocol_frame g" using assms(2) carried_protocol by auto
  ultimately have "prefix fs ?gs" using frames_prefix [OF fs(2)] by blast
  then have "prefix (map frame_body fs) (map frame_body ?gs)" by (rule map_mono_prefix)
  then show ?thesis by (simp add: fs(3) comp_assoc)
qed

text \<open>
  Property C7. The chat from input to terminal: there is one merge \<open>F\<close> of the frames of the
  inputs of all sessions there have been such that every client, as long as the network delivers the beginning of what its
  session has sent, has shown the bodies of the first frames of a stretch of \<open>F\<close>, in order, none
  cut, doubled or made up.
\<close>

theorem chat_clients_show_the_inputs:
  assumes "chat_history inp sid n s"
  shows "\<exists>F. (\<forall>i. frames_of i F = frames (inp i))
    \<and> (\<forall>a c d. chat_objects s a = Some c \<and> client_reachable d
         \<and> prefix (map Some (cl_in d)) (sess_out c) \<longrightarrow>
         (\<exists>part. sublist part F \<and> prefix (cl_shown d) (map (frame_body \<circ> carried \<circ> snd) part)))"
proof -
  obtain F where m: "merged F inp sid n s" using chat_merged [OF assms] by blast
  have "\<exists>part. sublist part F \<and> prefix (cl_shown d) (map (frame_body \<circ> carried \<circ> snd) part)"
    if c: "chat_objects s a = Some c" and d: "client_reachable d"
      and sent: "prefix (map Some (cl_in d)) (sess_out c)" for a c d
  proof -
    obtain part where part: "sublist part F" "prefix (sess_out c) (concat (map (relayed \<circ> snd) part))"
      by (rule sent_stretch [OF history_reachable [OF assms] m c, THEN exE]) blast
    have "\<forall>p \<in> set part. frame_ok (snd p)"
      using m merged_frames_ok set_mono_sublist [OF part(1)] by (fastforce simp: merged_def)
    from client_shows_relayed [OF d this prefix_order.trans [OF sent part(2)]] part(1)
    show ?thesis by blast
  qed
  with m show ?thesis unfolding merged_def by blast
qed

section \<open>An example conversation\<close>

text \<open>A session posts a message of two characters, which comes back to its own client.\<close>

definition hi_posted :: chat_message where
  "hi_posted = \<lparr>msg_data = map Some (encoded ''hi'' @ ''    '') @ replicate 506 None, msg_body_length = 2\<rparr>"

definition hi_session :: "char option list \<Rightarrow> chat_message list \<Rightarrow> chat_session" where
  "hi_session out q = \<lparr>read_msg = hi_posted, write_msgs = q, sess_in = encoded ''hi'' @ ''    '',
     sess_out = out, sess_offered = [hi_posted], sess_posted = [hi_posted]\<rparr>"

lemma hi_length: "length (encoded ''hi'') = 6" "length (format_4d 2) = 4"
  by (simp_all add: encoded_length format_4d_length)

lemma encoded_hi: "encoded ''hi'' = format_4d 2 @ ''hi''"
  by (simp add: encoded_def numeral_2_eq_2)

lemma hi_wire: "wire_bytes hi_posted = map Some (encoded ''hi'')"
  by (simp add: wire_bytes_def hi_posted_def msg_length_def header_length_def hi_length)

lemma hi_answered:
  "\<exists>s. chat_reachable s \<and> chat_objects s 7 = Some (hi_session (map Some (encoded ''hi'')) [])"
proof -
  let ?m = "\<lparr>msg_data = map Some (format_4d 2) @ replicate 512 None, msg_body_length = 2\<rparr>"
  let ?c = "new_session\<lparr>read_msg := ?m, sess_in := format_4d 2\<rparr>"
  let ?s1 = "one_session\<lparr>chat_ops := [Accept_chat, Body_op 7 6], chat_objects := [7 \<mapsto> ?c]\<rparr>"
  let ?s2 = "one_session\<lparr>chat_ops := [Accept_chat, Send_op 7, Header_op 7],
      chat_objects := [7 \<mapsto> hi_session [] [hi_posted]], recent_msgs := [hi_posted], room_log := [hi_posted]\<rparr>"
  have st: "store 0 (format_4d 2) new_message = Some (?m\<lparr>msg_body_length := 0\<rparr>)"
    by (simp add: store_def new_message_def hi_length header_length_def max_body_length_def)
  have "decode_header (?m\<lparr>msg_body_length := 0\<rparr>) = Some (True, ?m)"
    using decode_of_header [of "?m\<lparr>msg_body_length := 0\<rparr>" 2] by (simp add: max_body_length_def)
  then have "on_header 7 No_error (format_4d 2) (chat_finish (Header_op 7) one_session) = Some ?s1"
    using st by (simp add: on_header_def one_session_simps new_session_def Let_def do_read_body_def
        chat_begin_def chat_finish_def chat_set_def msg_length_def header_length_def)
  then have r1: "chat_reachable ?s1"
    by (intro chat_next [OF one_session_reachable] header_done [of 7])
       (simp_all add: one_session_simps header_length_def hi_length)
  have "store_body ''hi    '' ?m = Some hi_posted"
    by (simp add: store_body_def store_def hi_length header_length_def hi_posted_def encoded_hi)
  moreover have "recent_msgs one_session = []"
    by (simp add: one_session_def new_chat_server_def accept_next_def on_connect_def session_start_def
        do_read_header_def room_join_def)
  ultimately have "on_body 7 No_error ''hi    '' (chat_finish (Body_op 7 6) ?s1) = Some ?s2"
    by (simp add: on_body_def one_session_simps new_session_def Let_def do_read_header_def
        room_deliver_def trim_recent.simps max_recent_msgs_def session_deliver_def session_write_def
        chat_begin_def chat_finish_def chat_set_def hi_session_def encoded_hi)
  then have r2: "chat_reachable ?s2"
    by (intro chat_next [OF r1] body_done [of 7 6]) simp_all
  have "on_sent 7 No_error 6 (chat_finish (Send_op 7) ?s2) =
      Some (?s2\<lparr>chat_ops := [Accept_chat, Header_op 7],
        chat_objects := [7 \<mapsto> hi_session (map Some (encoded ''hi'')) []]\<rparr>)"
    by (simp add: on_sent_def hi_session_def hi_wire hi_length chat_finish_def chat_set_def Let_def)
  then have "chat_reachable (?s2\<lparr>chat_ops := [Accept_chat, Header_op 7],
        chat_objects := [7 \<mapsto> hi_session (map Some (encoded ''hi'')) []]\<rparr>)"
    by (intro chat_next [OF r2] sent_done [of 7])
       (simp_all add: session_queue_def hi_session_def hi_wire hi_length)
  then show ?thesis by fastforce
qed

text \<open>A client shows a message that it receives whole.\<close>

lemma client_shows_message:
  assumes reach: "client_reachable s" and op: "Read_header_op \<in> set (cl_ops s)"
    and body: "length body \<le> 512"
  shows "\<exists>t. client_reachable t \<and> Read_header_op \<in> set (cl_ops t)
    \<and> cl_in t = cl_in s @ encoded body \<and> cl_shown t = cl_shown s @ [map Some body]"
proof -
  let ?n = "length body"
  let ?h = "format_4d ?n"
  let ?s = "client_received ?h (client_finish Read_header_op s)"
  have hlen: "length ?h = 4" using body by (simp add: format_4d_length)
  have wf: "message_wf (cl_read_msg s)" using client_reachable_ok [OF reach] by (simp add: client_ok_def)
  obtain m where m: "store 0 ?h (cl_read_msg s) = Some m"
    using store_Some_iff [OF wf, of 0 ?h] hlen by auto
  then have data: "msg_data m = map Some ?h @ drop 4 (msg_data (cl_read_msg s))"
    using hlen by (auto simp: store_def split: if_splits)
  let ?m = "m\<lparr>msg_body_length := ?n\<rparr>"
  have "decode_header m = Some (True, ?m)"
    using decode_of_header [OF data] body by (simp add: max_body_length_def)
  then have "on_read_header No_error ?h ?s = Some (client_read_body ?m (?s\<lparr>cl_read_msg := ?m\<rparr>))"
    using m by (simp add: on_read_header_def Let_def)
  then have r1: "client_reachable (client_read_body ?m (?s\<lparr>cl_read_msg := ?m\<rparr>))" (is "client_reachable ?t")
    using op hlen by (intro client_next [OF reach] io_done header_read) (simp_all add: header_length_def)
  let ?u = "client_received body (client_finish (Read_body_op ?n) ?t)"
  have wfm: "message_wf ?m"
    using store_wf [OF m wf] body by (simp add: message_wf_def max_body_length_def)
  obtain m2 where m2: "store_body body ?m = Some m2"
    using store_Some_iff [OF wfm, of header_length body] body
    by (auto simp: store_body_def header_length_def)
  have len: "length (msg_data m) = 516" using wfm by (simp add: message_wf_def message_consts)
  have "body_text m2 = map Some body"
    using m2 len body by (auto simp: store_body_def store_def body_text_def header_length_def split: if_splits)
  then have "on_read_body No_error body ?u =
      Some (client_read_header (?u\<lparr>cl_read_msg := m2, cl_shown := cl_shown s @ [map Some body]\<rparr>))"
    using m2 by (simp add: on_read_body_def client_read_body_def)
  then have "client_reachable (client_read_header (?u\<lparr>cl_read_msg := m2, cl_shown := cl_shown s @ [map Some body]\<rparr>))"
    by (intro client_next [OF r1] io_done body_read [of ?n]) (simp_all add: client_read_body_def)
  then show ?thesis
    by (intro exI conjI) (assumption, simp_all add: client_read_header_def client_read_body_def encoded_def)
qed

theorem chat_clients_show_the_log_witness:
  "\<exists>s c d. chat_reachable s \<and> chat_objects s 7 = Some c \<and> client_reachable d
     \<and> cl_shown d = [map Some ''hi'']
     \<and> (\<exists>part. sublist part (room_log s) \<and> prefix (cl_shown d) (map body_text part))"
proof -
  obtain s where s: "chat_reachable s" "chat_objects s 7 = Some (hi_session (map Some (encoded ''hi'')) [])"
    using hi_answered by blast
  obtain d where d: "client_reachable d" "cl_in d = encoded ''hi''" "cl_shown d = [map Some ''hi'']"
    using client_shows_message [OF connected_client_reachable, of "''hi''"]
    by (auto simp: connected_client_def new_client_def client_ops_defs client_begin_def client_finish_def)
  have "prefix (map Some (cl_in d)) (sess_out (hi_session (map Some (encoded ''hi'')) []))"
    by (simp add: d(2) hi_session_def)
  from chat_clients_show_the_log [OF s d(1) this] s d show ?thesis by blast
qed

theorem chat_clients_show_the_inputs_witness:
  "\<exists>s F inp sid n d. chat_history inp sid n s \<and> client_reachable d \<and> cl_shown d = [map Some ''hi'']
     \<and> (\<forall>i. frames_of i F = frames (inp i))
     \<and> (\<exists>part. sublist part F \<and> prefix (cl_shown d) (map (frame_body \<circ> carried \<circ> snd) part))"
proof -
  obtain s where s: "chat_reachable s" "chat_objects s 7 = Some (hi_session (map Some (encoded ''hi'')) [])"
    using hi_answered by blast
  obtain d where d: "client_reachable d" "cl_in d = encoded ''hi''" "cl_shown d = [map Some ''hi'']"
    using client_shows_message [OF connected_client_reachable, of "''hi''"]
    by (auto simp: connected_client_def new_client_def client_ops_defs client_begin_def client_finish_def)
  have "prefix (map Some (cl_in d)) (sess_out (hi_session (map Some (encoded ''hi'')) []))"
    by (simp add: d(2) hi_session_def)
  moreover obtain inp sid n where h: "chat_history inp sid n s" using reachable_history [OF s(1)] by blast
  moreover obtain F where F: "\<forall>i. frames_of i F = frames (inp i)" "\<forall>a c d. chat_objects s a = Some c \<and> client_reachable d
      \<and> prefix (map Some (cl_in d)) (sess_out c) \<longrightarrow>
      (\<exists>part. sublist part F \<and> prefix (cl_shown d) (map (frame_body \<circ> carried \<circ> snd) part))"
    using chat_clients_show_the_inputs [OF h] by blast
  ultimately have "\<exists>part. sublist part F \<and> prefix (cl_shown d) (map (frame_body \<circ> carried \<circ> snd) part)"
    using s(2) d(1) by blast
  with h d F(1) show ?thesis by blast
qed

end
