(* ===== verification/Chat_Main.thy ===== *)
theory Chat_Main
  imports Chat_Conversation "HOL-Library.Multiset"
begin

text \<open>
  The \<open>main\<close> functions of the chat programs: the input loop of the client, and the server's,
  which opens one chat server per port on a common \<open>io_service\<close>.
\<close>

section \<open>The input loop of the client\<close>

text \<open>
  \<open>std::cin.getline(line, n)\<close> on what is left of the input: the characters before the next line
  feed, or before the end. It fails (\<open>None\<close>) when there is nothing left, and when the line does
  not fit with its NUL.
\<close>

definition cin_getline :: "nat \<Rightarrow> string \<Rightarrow> (string \<times> string) option" where
  "cin_getline n input =
     (let line = takeWhile (\<lambda>c. c \<noteq> LF) input
      in if input = [] \<or> n \<le> length line then None else Some (line, drop (Suc (length line)) input))"

text \<open>
  The loop of \<open>main\<close>; \<open>closed i\<close> is what the flag of the client says when the \<open>i\<close>th line has been
  read, which the other thread decides. The result is the messages passed to \<open>write\<close>, in order.
\<close>

function input_loop :: "(nat \<Rightarrow> bool) \<Rightarrow> nat \<Rightarrow> string \<Rightarrow> chat_message list option" where
  "input_loop closed i input =
     (case cin_getline (max_body_length + 1) input of
        None \<Rightarrow> Some []
      | Some (line, rest) \<Rightarrow>
          if closed i then Some []
          else (case line_message line of
              None \<Rightarrow> None
            | Some msg \<Rightarrow> map_option ((#) msg) (input_loop closed (Suc i) rest)))"
  by auto
termination
  by (relation "measure (length \<circ> snd \<circ> snd)") (auto simp: cin_getline_def Let_def split: if_splits)

declare input_loop.simps [simp del]

text \<open>The lines of a text.\<close>

function lines_of :: "string \<Rightarrow> string list" where
  "lines_of s =
     (if s = [] then []
      else takeWhile (\<lambda>c. c \<noteq> LF) s # lines_of (drop (Suc (length (takeWhile (\<lambda>c. c \<noteq> LF) s))) s))"
  by auto
termination by (relation "measure length") auto

declare lines_of.simps [simp del]

definition fitting_lines :: "string \<Rightarrow> string list" where
  "fitting_lines s = takeWhile (\<lambda>l. length l \<le> 512) (lines_of s)"

lemma fitting_lines_getline:
  "fitting_lines s = (case cin_getline 513 s of None \<Rightarrow> [] | Some (l, r) \<Rightarrow> l # fitting_lines r)"
  by (auto simp: fitting_lines_def cin_getline_def Let_def lines_of.simps [of s])

lemma line_message_body:
  assumes "length line \<le> 512"
  shows "\<exists>m. line_message line = Some m \<and> body_text m = map Some (c_str line)"
proof -
  let ?n = "length (c_str line)"
  have n: "?n \<le> 512" using assms length_takeWhile_le [of "\<lambda>c. c \<noteq> NUL" line] by (simp add: c_str_def)
  have t: "take ?n line = c_str line"
    using c_str_prefix [of line] by (auto simp: prefix_def) (metis append_eq_conv_conj)
  let ?m0 = "set_body_length ?n new_message"
  have m0: "msg_body_length ?m0 = ?n" "length (msg_data ?m0) = 516"
    using n by (simp_all add: set_body_length_def max_body_length_def new_message_def header_length_def)
  then have "line_message line = Some (?m0\<lparr>msg_data := take 4 (msg_data ?m0) @ map Some (c_str line)
      @ drop (4 + ?n) (msg_data ?m0)\<rparr>)"
    using n t by (simp add: line_message_def store_body_def store_def header_length_def Let_def)
  then show ?thesis using m0 by (simp add: body_text_def header_length_def)
qed

lemma input_loop_lines:
  "\<exists>msgs n. input_loop closed i input = Some msgs
     \<and> map body_text msgs = map (\<lambda>l. map Some (c_str l)) (take n (fitting_lines input))
     \<and> (\<forall>j < n. \<not> closed (i + j)) \<and> (n = length (fitting_lines input) \<or> closed (i + n))"
proof (induction closed i input rule: input_loop.induct)
  case (1 closed i input)
  show ?case
  proof (cases "cin_getline 513 input")
    case None
    then show ?thesis
      using fitting_lines_getline [of input]
      by (intro exI [of _ "[]"] exI [of _ 0]) (simp add: input_loop.simps [of closed i input] max_body_length_def)
  next
    case (Some p)
    then obtain line rest where p: "cin_getline 513 input = Some (line, rest)" by (cases p) auto
    then have len: "length line \<le> 512" and fit: "fitting_lines input = line # fitting_lines rest"
      using fitting_lines_getline [of input] by (auto simp: cin_getline_def Let_def split: if_splits)
    show ?thesis
    proof (cases "closed i")
      case True
      then show ?thesis
        using p by (intro exI [of _ "[]"] exI [of _ 0])
          (simp add: input_loop.simps [of closed i input] max_body_length_def)
    next
      case False
      obtain m where m: "line_message line = Some m" "body_text m = map Some (c_str line)"
        using line_message_body [OF len] by blast
      from "1.IH" [of "(line, rest)" line rest m] p False m(1) obtain msgs n where
        ih: "input_loop closed (Suc i) rest = Some msgs"
        "map body_text msgs = map (\<lambda>l. map Some (c_str l)) (take n (fitting_lines rest))"
        "\<forall>j < n. \<not> closed (Suc i + j)" "n = length (fitting_lines rest) \<or> closed (Suc i + n)"
        by (auto simp: max_body_length_def)
      have "\<not> closed (i + j)" if "j < Suc n" for j
        using that False ih(3) by (cases j) auto
      then show ?thesis
        using p False m ih(1,2,4) fit
        by (intro exI [of _ "m # msgs"] exI [of _ "Suc n"])
           (auto simp: input_loop.simps [of closed i input] max_body_length_def)
    qed
  qed
qed

section \<open>The client as a program of two threads\<close>

text \<open>
  Where the main thread is: before the condition of the loop, in its body with a line, before
  \<open>close\<close>, and in \<open>join\<close>. The other thread runs the handlers. The flag is atomic; the main thread
  looks at it in the condition and posts later, so it may be set in between.
\<close>

datatype main_place = At_loop | At_write string | At_close | At_join

record client_program =
  cp_place :: main_place
  cp_input :: string
  cp_posted :: "chat_message list"
  cp_client :: client_state

definition client_main :: "(string \<Rightarrow> string \<Rightarrow> 'e option) \<Rightarrow> string list \<Rightarrow> string \<Rightarrow> client_program main_run" where
  "client_main resolve args input =
     (if length args \<noteq> 2 then Main_usage
      else (case resolve (args ! 0) (args ! 1) of
          None \<Rightarrow> Main_caught
        | Some endpoints \<Rightarrow>
            Main_runs \<lparr>cp_place = At_loop, cp_input = input, cp_posted = [], cp_client = new_client\<rparr>))"

definition main_piece :: "client_program \<Rightarrow> client_program option" where
  "main_piece p =
     (case cp_place p of
        At_loop \<Rightarrow>
          Some (case cin_getline (max_body_length + 1) (cp_input p) of
              None \<Rightarrow> p\<lparr>cp_place := At_close\<rparr>
            | Some (line, rest) \<Rightarrow>
                p\<lparr>cp_input := rest,
                  cp_place := (if cl_socket_closed (cp_client p) then At_close else At_write line)\<rparr>)
      | At_write line \<Rightarrow>
          (case line_message line of
             None \<Rightarrow> None
           | Some msg \<Rightarrow> Some (p\<lparr>cp_place := At_loop, cp_posted := cp_posted p @ [msg],
               cp_client := client_write msg (cp_client p)\<rparr>))
      | At_close \<Rightarrow> Some (p\<lparr>cp_place := At_join, cp_client := client_close (cp_client p)\<rparr>)
      | At_join \<Rightarrow> None)"

inductive client_runs :: "(string \<Rightarrow> string \<Rightarrow> 'e option) \<Rightarrow> string list \<Rightarrow> string \<Rightarrow> client_program \<Rightarrow> bool"
    for resolve args input where
  client_runs_start: "client_main resolve args input = Main_runs p \<Longrightarrow> client_runs resolve args input p"
| client_runs_main: "client_runs resolve args input p \<Longrightarrow> main_piece p = Some q \<Longrightarrow>
     client_runs resolve args input q"
| client_runs_io: "client_runs resolve args input p \<Longrightarrow> client_io (cp_client p) t \<Longrightarrow>
     client_runs resolve args input (p\<lparr>cp_client := t\<rparr>)"

text \<open>What is posted and not yet queued.\<close>

fun pending_posts :: "client_op list \<Rightarrow> chat_message multiset" where
  "pending_posts [] = {#}"
| "pending_posts (p # ps) = (case p of Posted_write m \<Rightarrow> {#m#} | _ \<Rightarrow> {#}) + pending_posts ps"

lemma pending_posts_append [simp]: "pending_posts (ps @ qs) = pending_posts ps + pending_posts qs"
  by (induction ps) simp_all

lemma pending_posts_remove1:
  "p \<in> set ps \<Longrightarrow>
     pending_posts ps = (case p of Posted_write m \<Rightarrow> {#m#} | _ \<Rightarrow> {#}) + pending_posts (remove1 p ps)"
  by (induction ps) auto

lemma client_io_posts:
  "client_io s t \<Longrightarrow>
     mset (cl_queued t) + pending_posts (cl_ops t) = mset (cl_queued s) + pending_posts (cl_ops s)"
proof (induction rule: client_io.induct)
  case (connected s ec)
  then show ?case
    by (simp add: on_connected_def client_read_header_def client_begin_def client_finish_def
        pending_posts_remove1)
next
  case (header_read s bytes ec t)
  then show ?case
    by (auto simp: on_read_header_def client_read_body_def client_begin_def client_finish_def
        shut_client_def client_received_def pending_posts_remove1 Let_def split: option.splits if_splits)
next
  case (body_read k s bytes ec t)
  then show ?case
    by (auto simp: on_read_body_def client_read_header_def client_begin_def client_finish_def
        shut_client_def client_received_def pending_posts_remove1 split: option.splits if_splits)
next
  case (msg_written s ec n t)
  then show ?case
    by (auto simp: on_written_def client_do_write_def client_begin_def client_finish_def
        shut_client_def pending_posts_remove1 Let_def split: list.splits if_splits)
next
  case (write_posted msg s)
  then show ?case
    by (simp add: on_posted_write_def client_do_write_def client_begin_def client_finish_def
        pending_posts_remove1 Let_def)
next
  case (close_posted s)
  then show ?case by (simp add: on_posted_close_def client_finish_def pending_posts_remove1)
qed

text \<open>
  How far the loop has come: whatever the flag will say, the loop function on the whole input is
  the messages posted and the loop on the rest.
\<close>

fun loop_at :: "string \<Rightarrow> chat_message list \<Rightarrow> main_place \<Rightarrow> string \<Rightarrow> bool" where
  "loop_at input posted At_loop rest \<longleftrightarrow> (\<forall>f. (\<forall>j < length posted. \<not> f j) \<longrightarrow>
     input_loop f 0 input = map_option ((@) posted) (input_loop f (length posted) rest))"
| "loop_at input posted (At_write line) rest \<longleftrightarrow>
     length line \<le> 512 \<and> (\<forall>f. (\<forall>j < Suc (length posted). \<not> f j) \<longrightarrow>
       input_loop f 0 input = (case line_message line of None \<Rightarrow> None
         | Some msg \<Rightarrow> map_option ((@) (posted @ [msg])) (input_loop f (Suc (length posted)) rest)))"
| "loop_at input posted At_close rest \<longleftrightarrow> True"
| "loop_at input posted At_join rest \<longleftrightarrow> True"

definition loop_stands :: "string \<Rightarrow> client_program \<Rightarrow> bool" where
  "loop_stands input p \<longleftrightarrow>
     (\<exists>closed. input_loop closed 0 input = Some (cp_posted p))
     \<and> loop_at input (cp_posted p) (cp_place p) (cp_input p)"

lemma map_option_append_Nil [simp]: "map_option ((@) []) x = x"
  by (cases x) simp_all

lemma input_loop_stops: "closed i \<Longrightarrow> input_loop closed i input = Some []"
  by (simp add: input_loop.simps [of closed i input] split: option.split)

lemma main_piece_stands:
  assumes "loop_stands input p" "main_piece p = Some q"
  shows "loop_stands input q"
proof (cases "cp_place p")
  case At_loop
  let ?n = "length (cp_posted p)"
  have loop: "input_loop f 0 input = map_option ((@) (cp_posted p)) (input_loop f ?n (cp_input p))"
    if "\<forall>j < ?n. \<not> f j" for f
    using assms(1) At_loop that by (simp add: loop_stands_def)
  show ?thesis
  proof (cases "cp_place q")
    case (At_write line)
    then obtain rest where r: "cin_getline 513 (cp_input p) = Some (line, rest)"
      "q = p\<lparr>cp_input := rest, cp_place := At_write line\<rparr>"
      using assms(2) At_loop
      by (auto simp: main_piece_def max_body_length_def split: option.splits if_splits)
    have "length line \<le> 512" using r(1) by (auto simp: cin_getline_def Let_def split: if_splits)
    moreover have "input_loop f 0 input = (case line_message line of None \<Rightarrow> None
        | Some msg \<Rightarrow> map_option ((@) (cp_posted p @ [msg])) (input_loop f (Suc ?n) rest))"
      if f: "\<forall>j < Suc ?n. \<not> f j" for f
      using loop [of f] f r(1)
      by (cases "input_loop f (Suc ?n) rest")
         (simp_all add: input_loop.simps [of f ?n "cp_input p"] max_body_length_def split: option.split)
    ultimately show ?thesis using assms(1) r(2) by (simp add: loop_stands_def)
  qed (use assms At_loop in \<open>auto simp: main_piece_def loop_stands_def split: option.splits if_splits\<close>)
next
  case (At_write line)
  let ?n = "length (cp_posted p)"
  obtain msg where msg: "line_message line = Some msg"
    "q = p\<lparr>cp_place := At_loop, cp_posted := cp_posted p @ [msg], cp_client := client_write msg (cp_client p)\<rparr>"
    using assms(2) At_write by (auto simp: main_piece_def split: option.splits)
  have loop: "input_loop f 0 input
      = map_option ((@) (cp_posted p @ [msg])) (input_loop f (Suc ?n) (cp_input p))"
    if "\<forall>j < Suc ?n. \<not> f j" for f
    using assms(1) At_write msg(1) that by (simp add: loop_stands_def)
  from loop [of "\<lambda>i. Suc ?n \<le> i"] have "input_loop (\<lambda>i. Suc ?n \<le> i) 0 input = Some (cp_posted p @ [msg])"
    by (simp add: input_loop_stops)
  then have "\<exists>closed. input_loop closed 0 input = Some (cp_posted p @ [msg])" by blast
  then show ?thesis using loop by (simp add: loop_stands_def msg(2))
qed (use assms in \<open>auto simp: main_piece_def loop_stands_def\<close>)

lemma main_piece_client:
  assumes "main_piece p = Some q" "loop_stands input p" "client_reachable (cp_client p)"
  shows "client_reachable (cp_client q)"
proof (cases "cp_place p")
  case (At_write line)
  then obtain msg where msg: "line_message line = Some msg" "cp_client q = client_write msg (cp_client p)"
    using assms(1) by (auto simp: main_piece_def split: option.splits)
  moreover have "length line \<le> 512" using assms(2) At_write by (simp add: loop_stands_def)
  ultimately show ?thesis using client_next [OF assms(3) line_entered] by simp
next
  case At_close
  with assms(1) have "cp_client q = client_close (cp_client p)" by (auto simp: main_piece_def)
  then show ?thesis using client_next [OF assms(3) input_ended] by simp
qed (use assms(1,3) in \<open>auto simp: main_piece_def split: option.splits\<close>)

lemma main_piece_posts:
  assumes "main_piece p = Some q"
    "mset (cl_queued (cp_client p)) + pending_posts (cl_ops (cp_client p)) = mset (cp_posted p)"
  shows "mset (cl_queued (cp_client q)) + pending_posts (cl_ops (cp_client q)) = mset (cp_posted q)"
  using assms
  by (cases "cp_place p")
     (auto simp: main_piece_def client_write_def client_close_def client_begin_def
       simp flip: assms(2) split: option.splits)

lemma client_runs_sound:
  "client_runs resolve args input p \<Longrightarrow>
     loop_stands input p \<and> client_reachable (cp_client p)
     \<and> mset (cl_queued (cp_client p)) + pending_posts (cl_ops (cp_client p)) = mset (cp_posted p)"
proof (induction rule: client_runs.induct)
  case (client_runs_start p)
  then have p: "p = \<lparr>cp_place = At_loop, cp_input = input, cp_posted = [], cp_client = new_client\<rparr>"
    by (auto simp: client_main_def split: if_splits option.splits)
  have "input_loop (\<lambda>_. True) 0 input = Some []" by (rule input_loop_stops) simp
  then show ?case
    using client_start by (auto simp: p loop_stands_def new_client_def client_begin_def)
next
  case (client_runs_main p q)
  then show ?case using main_piece_stands main_piece_client main_piece_posts by blast
next
  case (client_runs_io p t)
  then show ?case
    using client_next [OF _ io_done] client_io_posts [OF client_runs_io.hyps(2)]
    by (auto simp: loop_stands_def)
qed

text \<open>The main thread always gets on, until it waits for the other.\<close>

lemma main_piece_progress:
  assumes "loop_stands input p" "cp_place p \<noteq> At_join"
  shows "main_piece p \<noteq> None"
proof (cases "cp_place p")
  case (At_write line)
  then have "length line \<le> 512" using assms(1) by (simp add: loop_stands_def)
  with line_message_body [of line] At_write show ?thesis by (auto simp: main_piece_def)
qed (use assms in \<open>auto simp: main_piece_def\<close>)

section \<open>The servers of one process\<close>

text \<open>
  \<open>std::atoi\<close> converted to the 16 bits of a port; \<open>None\<close> when the number is no \<open>int\<close>, which is
  undefined.
\<close>

definition port_of :: "string \<Rightarrow> nat option" where
  "port_of arg = map_option (\<lambda>v. nat (v mod 65536)) (c_int (atoi arg))"

text \<open>
  One server for each argument, in order. Opening an acceptor throws when the port cannot be
  bound, beside those already open (\<open>bindable\<close>).
\<close>

type_synonym port_server = "nat \<times> chat_state"

fun emplace_servers ::
    "(nat list \<Rightarrow> nat \<Rightarrow> bool) \<Rightarrow> port_server list \<Rightarrow> string list \<Rightarrow> port_server list main_run" where
  "emplace_servers bindable servers [] = Main_runs servers"
| "emplace_servers bindable servers (arg # args) =
     (case port_of arg of
        None \<Rightarrow> Main_undefined
      | Some port \<Rightarrow>
          if bindable (map fst servers) port
          then emplace_servers bindable (servers @ [(port, new_chat_server)]) args
          else Main_caught)"

definition server_main :: "(nat list \<Rightarrow> nat \<Rightarrow> bool) \<Rightarrow> string list \<Rightarrow> port_server list main_run" where
  "server_main bindable args = (if args = [] then Main_usage else emplace_servers bindable [] args)"

text \<open>\<open>io_service::run\<close>: an operation of any of the servers completes.\<close>

inductive servers_run :: "(nat list \<Rightarrow> nat \<Rightarrow> bool) \<Rightarrow> string list \<Rightarrow> port_server list \<Rightarrow> bool"
    for bindable args where
  servers_start: "server_main bindable args = Main_runs ss \<Longrightarrow> servers_run bindable args ss"
| servers_next: "servers_run bindable args ss \<Longrightarrow> i < length ss \<Longrightarrow> chat_step (snd (ss ! i)) t \<Longrightarrow>
     servers_run bindable args (ss[i := (fst (ss ! i), t)])"

lemma emplace_servers_eq:
  "emplace_servers bindable servers args = Main_runs ss \<Longrightarrow>
     \<exists>ps. map port_of args = map Some ps \<and> ss = servers @ map (\<lambda>p. (p, new_chat_server)) ps"
proof (induction args arbitrary: servers)
  case (Cons a args)
  then obtain p where p: "port_of a = Some p"
    "emplace_servers bindable (servers @ [(p, new_chat_server)]) args = Main_runs ss"
    by (auto split: option.splits if_splits)
  from Cons.IH [OF p(2)] obtain ps where
    "map port_of args = map Some ps"
    "ss = (servers @ [(p, new_chat_server)]) @ map (\<lambda>p. (p, new_chat_server)) ps" by blast
  with p(1) show ?case by (intro exI [of _ "p # ps"]) simp
qed simp

lemma server_main_eq:
  assumes "server_main bindable args = Main_runs ss"
  shows "\<exists>ps. map port_of args = map Some ps \<and> ss = map (\<lambda>p. (p, new_chat_server)) ps"
  using emplace_servers_eq [of bindable "[]" args ss] assms
  by (auto simp: server_main_def split: if_splits)

lemma servers_run_sound:
  "servers_run bindable args ss \<Longrightarrow>
     (\<exists>ss0. server_main bindable args = Main_runs ss0) \<and> map port_of args = map (Some \<circ> fst) ss
       \<and> (\<forall>(p, s) \<in> set ss. chat_reachable s)"
proof (induction rule: servers_run.induct)
  case (servers_start ss)
  from server_main_eq [OF this] obtain ps where
    "map port_of args = map Some ps" "ss = map (\<lambda>p. (p, new_chat_server)) ps" by blast
  with servers_start chat_start show ?case by auto
next
  case (servers_next ss i t)
  then have "chat_reachable (snd (ss ! i))" by (metis (mono_tags, lifting) case_prodD nth_mem prod.collapse)
  then have "chat_reachable t" using chat_next servers_next.hyps(3) by blast
  moreover have "map (Some \<circ> fst) (ss[i := (fst (ss ! i), t)]) = map (Some \<circ> fst) ss"
    using servers_next.hyps(2) by (simp add: map_update) (metis comp_apply list_update_id nth_map)
  ultimately show ?case
    using servers_next.IH set_update_subset_insert [of ss i "(fst (ss ! i), t)"]
    by (auto simp: comp_def)
qed

text \<open>Any server can be brought into any reachable state, whatever the others have done.\<close>

lemma servers_run_one:
  assumes "chat_reachable t" "servers_run bindable args ss" "i < length ss" "ss ! i = (p, new_chat_server)"
  shows "servers_run bindable args (ss[i := (p, t)])"
  using assms(1)
proof (induction rule: chat_reachable.induct)
  case chat_start
  then show ?case using assms(2,4) list_update_id [of ss i] by simp
next
  case (chat_next s t)
  show ?case
    using servers_next [OF chat_next.IH, of i t] chat_next.hyps(2) assms(3) by simp
qed

lemma servers_run_all:
  assumes "servers_run bindable args (us @ map (\<lambda>(p, s). (p, new_chat_server)) ss)"
    and "\<forall>(p, s) \<in> set ss. chat_reachable s"
  shows "servers_run bindable args (us @ ss)"
  using assms
proof (induction ss arbitrary: us)
  case (Cons q ss)
  obtain p s where q: "q = (p, s)" by (cases q)
  let ?rest = "map (\<lambda>(p, s). (p, new_chat_server)) ss"
  have "servers_run bindable args ((us @ (p, new_chat_server) # ?rest)[length us := (p, s)])"
    using Cons.prems q by (intro servers_run_one) (auto simp: nth_append)
  then have "servers_run bindable args ((us @ [(p, s)]) @ ?rest)" by simp
  from Cons.IH [OF this] Cons.prems(2) q show ?case by simp
qed simp

section \<open>Properties\<close>

text \<open>
  Property C25. The client program, its two threads interleaved in any way: what the main thread
  has posted is always what the loop of \<open>main\<close> makes of the input under some history of the flag,
  the bodies are the first lines of the input that fit into 512 characters, each up to its first
  NUL; nothing else is ever queued, nothing twice, and what has gone out is the beginning of the
  queued messages. The main thread gets on until it waits for the other.
\<close>

theorem client_program_sends_its_lines:
  assumes "client_runs resolve args input p"
  shows "(\<exists>closed n. input_loop closed 0 input = Some (cp_posted p)
      \<and> map body_text (cp_posted p) = map (\<lambda>l. map Some (c_str l)) (take n (fitting_lines input)))
    \<and> mset (cl_queued (cp_client p)) \<subseteq># mset (cp_posted p)
    \<and> prefix (cl_out (cp_client p)) (wire (cl_queued (cp_client p)))
    \<and> (cp_place p = At_join \<or> main_piece p \<noteq> None)"
proof -
  from client_runs_sound [OF assms] have st: "loop_stands input p" and r: "client_reachable (cp_client p)"
    and q: "mset (cl_queued (cp_client p)) + pending_posts (cl_ops (cp_client p)) = mset (cp_posted p)"
    by auto
  from st obtain closed where c: "input_loop closed 0 input = Some (cp_posted p)"
    by (auto simp: loop_stands_def)
  with input_loop_lines [of closed 0 input] obtain n where
    "map body_text (cp_posted p) = map (\<lambda>l. map Some (c_str l)) (take n (fitting_lines input))" by auto
  moreover have "mset (cl_queued (cp_client p)) \<subseteq># mset (cp_posted p)"
    using mset_subset_eq_add_left q by metis
  moreover have "prefix (cl_out (cp_client p)) (wire (cl_queued (cp_client p)))"
    using client_reachable_ok [OF r] by (auto simp: client_ok_def)
  ultimately show ?thesis using c main_piece_progress [OF st] by blast
qed

theorem client_program_sends_its_lines_witness:
  "\<exists>p. client_runs (\<lambda>h s. Some ()) [''localhost'', ''9000''] (''hi'' @ [LF]) p
     \<and> cp_posted p = [hi_message] \<and> mset (cl_queued (cp_client p)) \<subseteq># {#hi_message#}"
proof -
  let ?runs = "client_runs (\<lambda>h s. Some ()) [''localhost'', ''9000''] (''hi'' @ [LF])"
  let ?p = "\<lparr>cp_place = At_loop, cp_input = ''hi'' @ [LF], cp_posted = [], cp_client = new_client\<rparr>"
  let ?q = "?p\<lparr>cp_input := [], cp_place := At_write ''hi''\<rparr>"
  let ?r = "?q\<lparr>cp_place := At_loop, cp_posted := [hi_message],
    cp_client := client_write hi_message new_client\<rparr>"
  have "?runs ?p" by (rule client_runs_start) (simp add: client_main_def)
  moreover have "main_piece ?p = Some ?q"
    by (simp add: main_piece_def cin_getline_def Let_def max_body_length_def new_client_def client_begin_def)
  moreover have "main_piece ?q = Some ?r" by (simp add: main_piece_def line_message_hi)
  ultimately have "?runs ?r" by (blast intro: client_runs_main)
  from client_program_sends_its_lines [OF this] this show ?thesis by (intro exI [of _ ?r]) simp
qed

text \<open>
  The rooms of one process are independent: what its servers can do together is
  exactly what each of them can do alone, one server per argument at the port it names. Nothing
  posted to one port is ever seen at another, and all that is shown of a server holds of each.
\<close>

theorem chat_ports_independent:
  "servers_run bindable args ss \<longleftrightarrow>
     (\<exists>ss0. server_main bindable args = Main_runs ss0) \<and> map port_of args = map (Some \<circ> fst) ss
       \<and> (\<forall>(p, s) \<in> set ss. chat_reachable s)"
proof
  assume r: "(\<exists>ss0. server_main bindable args = Main_runs ss0) \<and> map port_of args = map (Some \<circ> fst) ss
    \<and> (\<forall>(p, s) \<in> set ss. chat_reachable s)"
  then obtain ss0 where ss0: "server_main bindable args = Main_runs ss0" by blast
  from server_main_eq [OF this] obtain ps where
    ps: "map port_of args = map Some ps" "ss0 = map (\<lambda>p. (p, new_chat_server)) ps" by blast
  from ps(1) r have "map Some ps = map Some (map fst ss)" by simp
  then have "ps = map fst ss" by (simp only: inj_map_eq_map [OF inj_Some])
  with ps(2) have "ss0 = map (\<lambda>p. (p, new_chat_server)) (map fst ss)" by simp
  also have "\<dots> = map (\<lambda>(p, s). (p, new_chat_server)) ss" by (simp add: comp_def case_prod_beta)
  finally have "servers_run bindable args ([] @ map (\<lambda>(p, s). (p, new_chat_server)) ss)"
    using servers_start [OF ss0] by simp
  then show "servers_run bindable args ss" using servers_run_all r by fastforce
qed (rule servers_run_sound)

theorem chat_ports_independent_witness:
  "servers_run (\<lambda>open p. p \<notin> set open) [''9000'', ''9001''] [(9000, one_session), (9001, new_chat_server)]"
proof -
  have p: "port_of ''9000'' = Some 9000" "port_of ''9001'' = Some 9001" by code_simp+
  then have "server_main (\<lambda>open p. p \<notin> set open) [''9000'', ''9001'']
      = Main_runs [(9000, new_chat_server), (9001, new_chat_server)]"
    by (simp add: server_main_def)
  with p show ?thesis
    using one_session_reachable chat_start by (subst chat_ports_independent) simp
qed

end
