(* ===== verification/Handler_Memory.thy ===== *)
theory Handler_Memory
  imports Asio
begin

text \<open>
  \<open>class handler_allocator\<close> of boost_alloc/server_03.cpp and boost_alloc/server_11.cpp: one
  block of storage inside the session for the memory asio needs for a handler, and the global
  heap when the block is taken or too small. The memory of one session is the flag and the
  heap blocks its handlers hold; releasing a block nobody holds is undefined (\<open>None\<close>). The
  locale is the contract asio relies on, and both classes fulfil it.
\<close>

section \<open>Blocks\<close>

datatype block = Storage | Heap nat

record handler_memory =
  in_use :: bool
  live_heap :: "nat list"

definition new_memory :: handler_memory where
  "new_memory = \<lparr>in_use = False, live_heap = []\<rparr>"

text \<open>\<open>::operator new\<close> returns an address that is not allocated, here chosen outside.\<close>

definition operator_new :: "nat \<Rightarrow> handler_memory \<Rightarrow> block \<times> handler_memory" where
  "operator_new fresh m = (Heap fresh, m\<lparr>live_heap := fresh # live_heap m\<rparr>)"

definition operator_delete :: "block \<Rightarrow> handler_memory \<Rightarrow> handler_memory option" where
  "operator_delete p m =
     (case p of
        Storage \<Rightarrow> None
      | Heap n \<Rightarrow>
          if n \<in> set (live_heap m) then Some (m\<lparr>live_heap := remove1 n (live_heap m)\<rparr>) else None)"

section \<open>The two allocators\<close>

definition storage_size_03 :: nat where
  "storage_size_03 = 128"

definition allocate_03 :: "nat \<Rightarrow> nat \<Rightarrow> handler_memory \<Rightarrow> block \<times> handler_memory" where
  "allocate_03 sz fresh m =
     (if \<not> in_use m \<and> sz < storage_size_03 then (Storage, m\<lparr>in_use := True\<rparr>)
      else operator_new fresh m)"

definition deallocate_03 :: "block \<Rightarrow> handler_memory \<Rightarrow> handler_memory option" where
  "deallocate_03 p m =
     (if p = Storage then Some (m\<lparr>in_use := False\<rparr>) else operator_delete p m)"

definition storage_size_11 :: nat where
  "storage_size_11 = 1024"

definition allocate_11 :: "nat \<Rightarrow> nat \<Rightarrow> handler_memory \<Rightarrow> block \<times> handler_memory" where
  "allocate_11 sz fresh m =
     (if \<not> in_use m \<and> sz < storage_size_11 then (Storage, m\<lparr>in_use := True\<rparr>)
      else operator_new fresh m)"

definition deallocate_11 :: "block \<Rightarrow> handler_memory \<Rightarrow> handler_memory option" where
  "deallocate_11 p m =
     (if p = Storage then Some (m\<lparr>in_use := False\<rparr>) else operator_delete p m)"

section \<open>The contract\<close>

datatype memory_event = Get nat nat | Put block

locale handler_storage =
  fixes held :: "'m \<Rightarrow> block set"
    and good :: "'m \<Rightarrow> bool"
    and get :: "nat \<Rightarrow> nat \<Rightarrow> 'm \<Rightarrow> block \<times> 'm"
    and put :: "block \<Rightarrow> 'm \<Rightarrow> 'm option"
  assumes get_new: "good m \<Longrightarrow> Heap fresh \<notin> held m \<Longrightarrow> fst (get sz fresh m) \<notin> held m"
    and held_get: "good m \<Longrightarrow> Heap fresh \<notin> held m \<Longrightarrow>
      held (snd (get sz fresh m)) = insert (fst (get sz fresh m)) (held m)"
    and good_get: "good m \<Longrightarrow> Heap fresh \<notin> held m \<Longrightarrow> good (snd (get sz fresh m))"
    and put_held: "good m \<Longrightarrow> p \<in> held m \<Longrightarrow>
      \<exists>m'. put p m = Some m' \<and> held m' = held m - {p} \<and> good m'"
begin

text \<open>A client that releases only what it holds, and what a run of it leaves held.\<close>

fun memory_run :: "memory_event list \<Rightarrow> 'm \<Rightarrow> block list \<Rightarrow> ('m \<times> block list) option" where
  "memory_run [] m bs = Some (m, bs)"
| "memory_run (Get sz fresh # es) m bs =
     (if Heap fresh \<in> held m then None
      else memory_run es (snd (get sz fresh m)) (fst (get sz fresh m) # bs))"
| "memory_run (Put p # es) m bs =
     (if p \<in> set bs
      then (case put p m of None \<Rightarrow> None | Some m' \<Rightarrow> memory_run es m' (remove1 p bs))
      else None)"

lemma no_overlap:
  "memory_run es m bs = Some (m', bs') \<Longrightarrow> good m \<Longrightarrow> held m = set bs \<Longrightarrow> distinct bs \<Longrightarrow>
     good m' \<and> held m' = set bs' \<and> distinct bs'"
proof (induction es m bs rule: memory_run.induct)
  case (2 sz fresh es m bs)
  then show ?case
    using get_new [of m fresh sz] held_get [of m fresh sz] good_get [of m fresh sz]
    by (auto split: if_splits)
next
  case (3 p es m bs)
  then have p: "p \<in> set bs" by (auto split: if_splits)
  with put_held [of m p] 3(3,4) obtain m1 where
    m1: "put p m = Some m1" "held m1 = held m - {p}" "good m1" by auto
  with 3(2,4,5) p show ?case by (intro 3(1) [OF p m1(1)]) auto
qed simp

text \<open>An allocation is always served, and what was got can be put back at once.\<close>

lemma get_put:
  assumes "good m" "Heap fresh \<notin> held m"
  shows "\<exists>m'. put (fst (get sz fresh m)) (snd (get sz fresh m)) = Some m'
    \<and> held m' = held m \<and> good m'"
  using put_held [OF good_get [OF assms], of "fst (get sz fresh m)" sz]
    held_get [OF assms, of sz] get_new [OF assms, of sz] by auto

end

definition held_blocks :: "handler_memory \<Rightarrow> block set" where
  "held_blocks m = (if in_use m then {Storage} else {}) \<union> Heap ` set (live_heap m)"

definition memory_ok :: "handler_memory \<Rightarrow> bool" where
  "memory_ok m \<longleftrightarrow> distinct (live_heap m)"

lemma held_new_memory [simp]: "held_blocks new_memory = {}" "memory_ok new_memory"
  by (simp_all add: held_blocks_def memory_ok_def new_memory_def)

lemma operator_delete_held:
  assumes "memory_ok m" "Heap n \<in> held_blocks m"
  shows "\<exists>m'. operator_delete (Heap n) m = Some m' \<and> held_blocks m' = held_blocks m - {Heap n}
    \<and> memory_ok m'"
  using assms by (auto simp: operator_delete_def held_blocks_def memory_ok_def)

interpretation storage_03: handler_storage held_blocks memory_ok allocate_03 deallocate_03
proof
  fix m p
  assume ok: "memory_ok m" and p: "p \<in> held_blocks m"
  show "\<exists>m'. deallocate_03 p m = Some m' \<and> held_blocks m' = held_blocks m - {p} \<and> memory_ok m'"
  proof (cases p)
    case Storage
    with ok p show ?thesis by (auto simp: deallocate_03_def held_blocks_def memory_ok_def)
  next
    case (Heap n)
    with operator_delete_held [of m n] ok p show ?thesis by (simp add: deallocate_03_def)
  qed
qed (auto simp: allocate_03_def operator_new_def held_blocks_def memory_ok_def)

interpretation storage_11: handler_storage held_blocks memory_ok allocate_11 deallocate_11
proof
  fix m p
  assume ok: "memory_ok m" and p: "p \<in> held_blocks m"
  show "\<exists>m'. deallocate_11 p m = Some m' \<and> held_blocks m' = held_blocks m - {p} \<and> memory_ok m'"
  proof (cases p)
    case Storage
    with ok p show ?thesis by (auto simp: deallocate_11_def held_blocks_def memory_ok_def)
  next
    case (Heap n)
    with operator_delete_held [of m n] ok p show ?thesis by (simp add: deallocate_11_def)
  qed
qed (auto simp: allocate_11_def operator_new_def held_blocks_def memory_ok_def)

end
