(* ===== verification/Echo_Session.thy ===== *)
theory Echo_Session
  imports Handler_Memory "HOL-Library.Sublist"
begin

text \<open>
  \<open>class session\<close> of boost_alloc/server_03.cpp and boost_alloc/server_11.cpp: an echo session
  whose handlers are wrapped in \<open>custom_alloc_handler\<close>. Asio gets the memory of a handler from
  \<open>asio_handler_allocate\<close> when the operation is started and, as it documents, gives it back
  before it calls the handler: to \<open>asio_handler_deallocate\<close> in the older file, and to
  \<open>::operator delete\<close> in the newer one, which does not define that hook. The size asio asks
  for and the address the heap returns are parameters of each step. Of the log calls the one of
  \<open>data_\<close> is modelled, since it reads bytes that may never have been written.
\<close>

section \<open>State\<close>

datatype echo_op =
    Echo_read block
  | Echo_write block nat

record echo_session =
  echo_data :: "char option list"
  echo_memory :: handler_memory
  echo_pending :: "echo_op option"
  echo_received :: string
  echo_sent :: "char option list"

definition new_echo :: echo_session where
  "new_echo =
     \<lparr>echo_data = replicate 1024 None, echo_memory = new_memory, echo_pending = None,
      echo_received = [], echo_sent = []\<rparr>"

section \<open>The session of the older file\<close>

definition asio_handler_allocate_03 ::
    "nat \<Rightarrow> nat \<Rightarrow> (block \<Rightarrow> echo_op) \<Rightarrow> echo_session \<Rightarrow> echo_session" where
  "asio_handler_allocate_03 sz fresh mk s =
     (case allocate_03 sz fresh (echo_memory s) of
        (p, m) \<Rightarrow> s\<lparr>echo_memory := m, echo_pending := Some (mk p)\<rparr>)"

definition asio_handler_deallocate_03 :: "block \<Rightarrow> echo_session \<Rightarrow> echo_session option" where
  "asio_handler_deallocate_03 p s =
     map_option (\<lambda>m. s\<lparr>echo_memory := m, echo_pending := None\<rparr>) (deallocate_03 p (echo_memory s))"

definition start_03 :: "nat \<Rightarrow> nat \<Rightarrow> echo_session \<Rightarrow> echo_session" where
  "start_03 sz fresh s = asio_handler_allocate_03 sz fresh Echo_read s"

text \<open>
  \<open>handle_read\<close> first logs all 1024 bytes of \<open>data_\<close>, whatever the error and however many bytes
  were read. A byte that no read has written yet (\<open>None\<close> in the array) is uninitialised: \<open>junk\<close>
  says what each holds, and is \<open>None\<close> where reading it is undefined, as C++ has it everywhere.
\<close>

definition logged_byte :: "(nat \<Rightarrow> char option) \<Rightarrow> nat \<times> char option \<Rightarrow> char option" where
  "logged_byte junk ib = (case ib of (i, Some c) \<Rightarrow> Some c | (i, None) \<Rightarrow> junk i)"

definition logged_data :: "(nat \<Rightarrow> char option) \<Rightarrow> char option list \<Rightarrow> string option" where
  "logged_data junk d = those (map (logged_byte junk) (zip [0..<length d] d))"

definition handle_read_03 ::
    "(nat \<Rightarrow> char option) \<Rightarrow> error_code \<Rightarrow> nat \<Rightarrow> nat \<Rightarrow> nat \<Rightarrow> echo_session
     \<Rightarrow> echo_session option" where
  "handle_read_03 junk ec bytes_transferred sz fresh s =
     (case logged_data junk (echo_data s) of
        None \<Rightarrow> None
      | Some line \<Rightarrow>
          Some (if ec = No_error
                then asio_handler_allocate_03 sz fresh (\<lambda>p. Echo_write p bytes_transferred) s
                else s))"

definition handle_write_03 :: "error_code \<Rightarrow> nat \<Rightarrow> nat \<Rightarrow> echo_session \<Rightarrow> echo_session" where
  "handle_write_03 ec sz fresh s =
     (if ec = No_error then asio_handler_allocate_03 sz fresh Echo_read s else s)"

text \<open>What the socket does to the session when a read or a write is done.\<close>

definition echo_filled :: "string \<Rightarrow> echo_session \<Rightarrow> echo_session" where
  "echo_filled bytes s =
     s\<lparr>echo_data := map Some bytes @ drop (length bytes) (echo_data s),
       echo_received := echo_received s @ bytes\<rparr>"

definition echo_emptied :: "nat \<Rightarrow> echo_session \<Rightarrow> echo_session" where
  "echo_emptied k s = s\<lparr>echo_sent := echo_sent s @ take k (echo_data s)\<rparr>"

definition complete_read_03 ::
    "(nat \<Rightarrow> char option) \<Rightarrow> error_code \<Rightarrow> string \<Rightarrow> nat \<Rightarrow> nat \<Rightarrow> echo_session
     \<Rightarrow> echo_session option" where
  "complete_read_03 junk ec bytes sz fresh s =
     (case echo_pending s of
        Some (Echo_read p) \<Rightarrow>
          Option.bind (asio_handler_deallocate_03 p (echo_filled bytes s))
            (handle_read_03 junk ec (length bytes) sz fresh)
      | _ \<Rightarrow> None)"

definition complete_write_03 ::
    "error_code \<Rightarrow> nat \<Rightarrow> nat \<Rightarrow> nat \<Rightarrow> echo_session \<Rightarrow> echo_session option" where
  "complete_write_03 ec k sz fresh s =
     (case echo_pending s of
        Some (Echo_write p n) \<Rightarrow>
          map_option (handle_write_03 ec sz fresh) (asio_handler_deallocate_03 p (echo_emptied k s))
      | _ \<Rightarrow> None)"

text \<open>
  The runs of a session whose handlers have a size in \<open>sizes\<close>. A block that asio has just
  given back may come again, so a new address only has to differ from the blocks held by
  others than the completed operation.
\<close>

inductive echo_reachable :: "(nat \<Rightarrow> char option) \<Rightarrow> nat set \<Rightarrow> echo_session \<Rightarrow> bool" for junk sizes where
  echo_started: "sz \<in> sizes \<Longrightarrow> echo_reachable junk sizes (start_03 sz fresh new_echo)"
| echo_read_done: "echo_reachable junk sizes s \<Longrightarrow> echo_pending s = Some (Echo_read p) \<Longrightarrow>
     length bytes \<le> 1024 \<Longrightarrow> (ec \<noteq> No_error \<longrightarrow> bytes = []) \<Longrightarrow> sz \<in> sizes \<Longrightarrow>
     Heap fresh \<notin> held_blocks (echo_memory s) - {p} \<Longrightarrow>
     complete_read_03 junk ec bytes sz fresh s = Some t \<Longrightarrow> echo_reachable junk sizes t"
| echo_write_done: "echo_reachable junk sizes s \<Longrightarrow> echo_pending s = Some (Echo_write p n) \<Longrightarrow>
     k \<le> n \<Longrightarrow> (ec = No_error \<longrightarrow> k = n) \<Longrightarrow> sz \<in> sizes \<Longrightarrow>
     Heap fresh \<notin> held_blocks (echo_memory s) - {p} \<Longrightarrow>
     complete_write_03 ec k sz fresh s = Some t \<Longrightarrow> echo_reachable junk sizes t"

section \<open>The session of the newer file\<close>

definition do_read_11 :: "nat \<Rightarrow> nat \<Rightarrow> echo_session \<Rightarrow> echo_session" where
  "do_read_11 sz fresh s =
     (case allocate_11 sz fresh (echo_memory s) of
        (p, m) \<Rightarrow> s\<lparr>echo_memory := m, echo_pending := Some (Echo_read p)\<rparr>)"

definition do_write_11 :: "nat \<Rightarrow> nat \<Rightarrow> nat \<Rightarrow> echo_session \<Rightarrow> echo_session" where
  "do_write_11 n sz fresh s =
     (case allocate_11 sz fresh (echo_memory s) of
        (p, m) \<Rightarrow> s\<lparr>echo_memory := m, echo_pending := Some (Echo_write p n)\<rparr>)"

definition start_11 :: "nat \<Rightarrow> nat \<Rightarrow> echo_session \<Rightarrow> echo_session" where
  "start_11 sz fresh s = do_read_11 sz fresh s"

text \<open>Without the hook the memory of a handler goes to the global heap.\<close>

definition release_11 :: "block \<Rightarrow> echo_session \<Rightarrow> echo_session option" where
  "release_11 p s =
     map_option (\<lambda>m. s\<lparr>echo_memory := m, echo_pending := None\<rparr>) (operator_delete p (echo_memory s))"

definition complete_read_11 ::
    "error_code \<Rightarrow> string \<Rightarrow> nat \<Rightarrow> nat \<Rightarrow> echo_session \<Rightarrow> echo_session option" where
  "complete_read_11 ec bytes sz fresh s =
     (case echo_pending s of
        Some (Echo_read p) \<Rightarrow>
          map_option
            (\<lambda>s. if ec = No_error then do_write_11 (length bytes) sz fresh s else s)
            (release_11 p (echo_filled bytes s))
      | _ \<Rightarrow> None)"

definition complete_write_11 ::
    "error_code \<Rightarrow> nat \<Rightarrow> nat \<Rightarrow> nat \<Rightarrow> echo_session \<Rightarrow> echo_session option" where
  "complete_write_11 ec k sz fresh s =
     (case echo_pending s of
        Some (Echo_write p n) \<Rightarrow>
          map_option (\<lambda>s. if ec = No_error then do_read_11 sz fresh s else s)
            (release_11 p (echo_emptied k s))
      | _ \<Rightarrow> None)"

section \<open>The invariant\<close>

definition echo_ok :: "nat set \<Rightarrow> echo_session \<Rightarrow> bool" where
  "echo_ok sizes s \<longleftrightarrow> memory_ok (echo_memory s) \<and> length (echo_data s) = 1024
     \<and> ((\<forall>sz \<in> sizes. sz < 128) \<longrightarrow> live_heap (echo_memory s) = [])
     \<and> (case echo_pending s of
          None \<Rightarrow> held_blocks (echo_memory s) = {} \<and> prefix (echo_sent s) (map Some (echo_received s))
        | Some (Echo_read p) \<Rightarrow>
            held_blocks (echo_memory s) = {p} \<and> echo_sent s = map Some (echo_received s)
        | Some (Echo_write p n) \<Rightarrow> held_blocks (echo_memory s) = {p} \<and> n \<le> 1024
            \<and> map Some (echo_received s) = echo_sent s @ take n (echo_data s))"

text \<open>Starting an operation when nothing is held.\<close>

lemma allocate_ok:
  assumes "memory_ok (echo_memory s)" "held_blocks (echo_memory s) = {}"
    and "(\<forall>z \<in> sizes. z < 128) \<longrightarrow> live_heap (echo_memory s) = []" "sz \<in> sizes"
  obtains p m where "asio_handler_allocate_03 sz fresh mk s =
      s\<lparr>echo_memory := m, echo_pending := Some (mk p)\<rparr>"
    "memory_ok m" "held_blocks m = {p}" "(\<forall>z \<in> sizes. z < 128) \<longrightarrow> live_heap m = []"
proof -
  obtain p m where pm: "allocate_03 sz fresh (echo_memory s) = (p, m)" by fastforce
  have "held_blocks m = {p}" "memory_ok m"
    using storage_03.held_get [of "echo_memory s" fresh sz] storage_03.good_get [of "echo_memory s" fresh sz]
      assms(1,2) by (simp_all add: pm)
  moreover have "(\<forall>z \<in> sizes. z < 128) \<longrightarrow> live_heap m = []"
    using pm assms(2-4)
    by (auto simp: allocate_03_def storage_size_03_def held_blocks_def operator_new_def
        split: if_splits)
  ultimately show thesis using that pm by (simp add: asio_handler_allocate_03_def)
qed

lemma deallocate_ok:
  assumes "memory_ok (echo_memory s)" "held_blocks (echo_memory s) = {p}"
  obtains m where "asio_handler_deallocate_03 p s = Some (s\<lparr>echo_memory := m, echo_pending := None\<rparr>)"
    "memory_ok m" "held_blocks m = {}"
  using storage_03.put_held [of "echo_memory s" p] assms
  by (auto simp: asio_handler_deallocate_03_def)

lemma no_heap_held: "held_blocks m = {} \<Longrightarrow> live_heap m = []"
  by (simp add: held_blocks_def split: if_splits)

lemma those_None: "those xs = None \<longleftrightarrow> None \<in> set xs"
  by (induction xs) (auto split: option.split)

lemma logged_data_None:
  "logged_data junk d = None \<longleftrightarrow> (\<exists>i<length d. d ! i = None \<and> junk i = None)"
proof -
  have "logged_data junk d = None \<longleftrightarrow> (\<exists>i<length d. logged_byte junk (i, d ! i) = None)"
    unfolding logged_data_def those_None in_set_conv_nth by auto
  then show ?thesis by (auto simp: logged_byte_def split: option.splits)
qed

lemma filled_data_None:
  assumes "length (echo_data s) = 1024" "length bytes \<le> 1024"
  shows "logged_data junk (echo_data (echo_filled bytes s)) = None \<longleftrightarrow>
    (\<exists>i<1024. length bytes \<le> i \<and> echo_data s ! i = None \<and> junk i = None)"
  using assms unfolding logged_data_None
  by (auto simp: echo_filled_def nth_append not_less)

lemma complete_read_cases:
  assumes ok: "echo_ok sizes s" and p: "echo_pending s = Some (Echo_read p)"
  obtains m where "memory_ok m" "held_blocks m = {}"
    "complete_read_03 junk ec bytes sz fresh s =
       handle_read_03 junk ec (length bytes) sz fresh
         (echo_filled bytes s\<lparr>echo_memory := m, echo_pending := None\<rparr>)"
proof -
  let ?f = "echo_filled bytes s"
  have f: "memory_ok (echo_memory ?f)" "held_blocks (echo_memory ?f) = {p}"
    using ok p by (simp_all add: echo_ok_def echo_filled_def)
  obtain m where m: "asio_handler_deallocate_03 p ?f =
      Some (?f\<lparr>echo_memory := m, echo_pending := None\<rparr>)" "memory_ok m" "held_blocks m = {}"
    by (rule deallocate_ok [OF f])
  then have "complete_read_03 junk ec bytes sz fresh s =
      handle_read_03 junk ec (length bytes) sz fresh (?f\<lparr>echo_memory := m, echo_pending := None\<rparr>)"
    using p by (simp add: complete_read_03_def)
  with m(2,3) that show thesis by blast
qed

lemma complete_read_None:
  assumes "echo_ok sizes s" "echo_pending s = Some (Echo_read p)" "length bytes \<le> 1024"
  shows "complete_read_03 junk ec bytes sz fresh s = None \<longleftrightarrow>
    (\<exists>i<1024. length bytes \<le> i \<and> echo_data s ! i = None \<and> junk i = None)"
proof -
  have len: "length (echo_data s) = 1024" using assms(1) by (simp add: echo_ok_def)
  obtain m where "complete_read_03 junk ec bytes sz fresh s =
       handle_read_03 junk ec (length bytes) sz fresh
         (echo_filled bytes s\<lparr>echo_memory := m, echo_pending := None\<rparr>)"
    by (rule complete_read_cases [OF assms(1,2)])
  then have "complete_read_03 junk ec bytes sz fresh s = None \<longleftrightarrow>
      logged_data junk (echo_data (echo_filled bytes s)) = None"
    by (simp add: handle_read_03_def split: option.split)
  then show ?thesis unfolding filled_data_None [OF len assms(3)] .
qed

lemma complete_read_ok:
  assumes ok: "echo_ok sizes s" and p: "echo_pending s = Some (Echo_read p)"
    and bytes: "length bytes \<le> 1024" "ec \<noteq> No_error \<longrightarrow> bytes = []" and sz: "sz \<in> sizes"
    and t0: "complete_read_03 junk ec bytes sz fresh s = Some t"
  shows "echo_ok sizes t"
proof -
  let ?f = "echo_filled bytes s"
  have f: "echo_sent s = map Some (echo_received s)" "length (echo_data s) = 1024"
    using ok p by (simp_all add: echo_ok_def)
  obtain m where m: "memory_ok m" "held_blocks m = {}" "complete_read_03 junk ec bytes sz fresh s =
      handle_read_03 junk ec (length bytes) sz fresh (?f\<lparr>echo_memory := m, echo_pending := None\<rparr>)"
    by (rule complete_read_cases [OF ok p])
  let ?g = "?f\<lparr>echo_memory := m, echo_pending := None\<rparr>"
  have t: "t = (if ec = No_error
      then asio_handler_allocate_03 sz fresh (\<lambda>p. Echo_write p (length bytes)) ?g else ?g)"
    using t0 m(3) by (auto simp: handle_read_03_def split: option.splits)
  show ?thesis
  proof (cases "ec = No_error")
    case True
    obtain q m' where g: "asio_handler_allocate_03 sz fresh (\<lambda>p. Echo_write p (length bytes)) ?g =
        ?g\<lparr>echo_memory := m', echo_pending := Some (Echo_write q (length bytes))\<rparr>"
      "memory_ok m'" "held_blocks m' = {q}" "(\<forall>z \<in> sizes. z < 128) \<longrightarrow> live_heap m' = []"
      by (rule allocate_ok [of ?g sizes sz fresh "\<lambda>p. Echo_write p (length bytes)"])
         (use m sz no_heap_held in simp_all)
    then show ?thesis
      using t True f bytes(1) by (simp add: echo_ok_def echo_filled_def)
  next
    case False
    then show ?thesis
      using t f m bytes no_heap_held [OF m(2)] by (simp add: echo_ok_def echo_filled_def)
  qed
qed

lemma complete_write_ok:
  assumes ok: "echo_ok sizes s" and p: "echo_pending s = Some (Echo_write p n)"
    and k: "k \<le> n" "ec = No_error \<longrightarrow> k = n" and sz: "sz \<in> sizes"
  shows "\<exists>t. complete_write_03 ec k sz fresh s = Some t \<and> echo_ok sizes t"
proof -
  let ?f = "echo_emptied k s"
  have f: "memory_ok (echo_memory ?f)" "held_blocks (echo_memory ?f) = {p}"
    "map Some (echo_received s) = echo_sent s @ take n (echo_data s)" "length (echo_data s) = 1024"
    using ok p by (simp_all add: echo_ok_def echo_emptied_def)
  obtain m where m: "asio_handler_deallocate_03 p ?f =
      Some (?f\<lparr>echo_memory := m, echo_pending := None\<rparr>)" "memory_ok m" "held_blocks m = {}"
    by (rule deallocate_ok [OF f(1,2)])
  let ?g = "?f\<lparr>echo_memory := m, echo_pending := None\<rparr>"
  have t: "complete_write_03 ec k sz fresh s = Some (handle_write_03 ec sz fresh ?g)"
    using p m(1) by (simp add: complete_write_03_def)
  show ?thesis
  proof (cases "ec = No_error")
    case True
    obtain q m' where g: "asio_handler_allocate_03 sz fresh Echo_read ?g =
        ?g\<lparr>echo_memory := m', echo_pending := Some (Echo_read q)\<rparr>"
      "memory_ok m'" "held_blocks m' = {q}" "(\<forall>z \<in> sizes. z < 128) \<longrightarrow> live_heap m' = []"
      by (rule allocate_ok [of ?g sizes sz fresh Echo_read]) (use m sz no_heap_held in simp_all)
    then show ?thesis
      using t True f(3,4) k by (simp add: handle_write_03_def echo_ok_def echo_emptied_def)
  next
    case False
    have "prefix (take k (echo_data s)) (take n (echo_data s))"
      using k(1) by (metis min.absorb1 take_is_prefix take_take)
    then show ?thesis
      using False t f(3,4) m no_heap_held [OF m(3)]
      by (simp add: handle_write_03_def echo_ok_def echo_emptied_def)
  qed
qed

lemma echo_reachable_ok: "echo_reachable junk sizes s \<Longrightarrow> echo_ok sizes s"
proof (induction rule: echo_reachable.induct)
  case (echo_started sz fresh)
  obtain p m where "asio_handler_allocate_03 sz fresh Echo_read new_echo =
      new_echo\<lparr>echo_memory := m, echo_pending := Some (Echo_read p)\<rparr>"
    "memory_ok m" "held_blocks m = {p}" "(\<forall>z \<in> sizes. z < 128) \<longrightarrow> live_heap m = []"
    by (rule allocate_ok [of new_echo sizes sz fresh Echo_read])
       (use echo_started no_heap_held in \<open>simp_all add: new_echo_def\<close>)
  then show ?case by (simp add: start_03_def echo_ok_def new_echo_def)
next
  case (echo_read_done s p bytes ec sz fresh t)
  then show ?case using complete_read_ok [of sizes s p bytes ec sz junk fresh t] by auto
next
  case (echo_write_done s p n k ec sz fresh t)
  then show ?case using complete_write_ok [of sizes s p n k ec sz fresh] by auto
qed

section \<open>Properties\<close>

text \<open>
  The echo session echoes: what it has sent is a prefix of what it has received,
  and all of it whenever it is reading again.
\<close>

theorem echo_session_echoes:
  assumes "echo_reachable junk sizes s"
  shows "prefix (echo_sent s) (map Some (echo_received s))
    \<and> (\<forall>p. echo_pending s = Some (Echo_read p) \<longrightarrow> echo_sent s = map Some (echo_received s))"
  using echo_reachable_ok [OF assms]
  by (auto simp: echo_ok_def split: option.splits echo_op.splits)

theorem echo_session_echoes_witness:
  "echo_sent (start_03 100 0 new_echo) = map Some (echo_received (start_03 100 0 new_echo))"
proof -
  have "echo_reachable (\<lambda>_. None) {100} (start_03 100 0 new_echo)" by (rule echo_started) simp
  from echo_session_echoes [OF this] show ?thesis
    by (auto simp: start_03_def asio_handler_allocate_03_def allocate_03_def storage_size_03_def
        new_echo_def new_memory_def)
qed

text \<open>
  Property C33. The handler memory of the older file is sound: in every state exactly the
  outstanding operation holds a block, so no two operations share one and none is lost, and when
  every handler is smaller than the storage the heap is never used. The completion of a write is
  defined, whatever its result; that of a read is undefined exactly when the log of the buffer
  reads a byte behind those just read that no read before has written and that cannot be read.
\<close>

theorem handler_memory_03_sound:
  assumes "echo_reachable junk sizes s"
  shows "held_blocks (echo_memory s) = (case echo_pending s of
        None \<Rightarrow> {} | Some (Echo_read p) \<Rightarrow> {p} | Some (Echo_write p n) \<Rightarrow> {p})
    \<and> ((\<forall>sz \<in> sizes. sz < 128) \<longrightarrow> live_heap (echo_memory s) = [])
    \<and> (\<forall>p ec bytes. echo_pending s = Some (Echo_read p) \<longrightarrow> length bytes \<le> 1024 \<longrightarrow>
         (complete_read_03 junk ec bytes sz fresh s = None \<longleftrightarrow>
            (\<exists>i<1024. length bytes \<le> i \<and> echo_data s ! i = None \<and> junk i = None)))
    \<and> (\<forall>p n ec k. echo_pending s = Some (Echo_write p n) \<longrightarrow>
         complete_write_03 ec k sz fresh s \<noteq> None)"
proof -
  have ok: "echo_ok sizes s" by (rule echo_reachable_ok [OF assms])
  have "complete_write_03 ec k sz fresh s \<noteq> None"
    if "echo_pending s = Some (Echo_write p n)" for p n ec k
    using ok that storage_03.put_held [of "echo_memory s" p]
    by (auto simp: complete_write_03_def asio_handler_deallocate_03_def echo_ok_def echo_emptied_def)
  moreover have "held_blocks (echo_memory s) = (case echo_pending s of
      None \<Rightarrow> {} | Some (Echo_read p) \<Rightarrow> {p} | Some (Echo_write p n) \<Rightarrow> {p})"
    using ok by (auto simp: echo_ok_def split: option.splits echo_op.splits)
  moreover have "(\<forall>sz \<in> sizes. sz < 128) \<longrightarrow> live_heap (echo_memory s) = []"
    using ok by (simp add: echo_ok_def)
  ultimately show ?thesis using complete_read_None [OF ok] by blast
qed

text \<open>As C++ has it, the first read is undefined unless it fills the whole buffer.\<close>

theorem handler_memory_03_sound_witness:
  "live_heap (echo_memory (start_03 100 0 new_echo)) = []
     \<and> complete_read_03 (\<lambda>_. None) No_error ''abc'' 100 0 (start_03 100 0 new_echo) = None
     \<and> complete_read_03 (\<lambda>_. Some NUL) No_error ''abc'' 100 0 (start_03 100 0 new_echo) \<noteq> None"
proof -
  have start: "echo_reachable junk {100} (start_03 100 0 new_echo)" for junk
    by (rule echo_started) simp
  have s: "echo_pending (start_03 100 0 new_echo) = Some (Echo_read Storage)"
    "echo_data (start_03 100 0 new_echo) = replicate 1024 None"
    by (simp_all add: start_03_def asio_handler_allocate_03_def allocate_03_def storage_size_03_def
        new_echo_def new_memory_def)
  have late: "\<exists>i<1024. length ''abc'' \<le> i \<and> (replicate 1024 None :: char option list) ! i = None"
    by (rule exI [of _ 3]) simp
  show ?thesis
    using handler_memory_03_sound [OF start, where junk = "\<lambda>_. None" and sz = 100 and fresh = 0]
      handler_memory_03_sound [OF start, where junk = "\<lambda>_. Some NUL" and sz = 100 and fresh = 0] s late
    by simp
qed

text \<open>
  The newer file has no deallocation hook, so the first completion gives the
  storage inside the session to \<open>::operator delete\<close>: it is undefined exactly when the handler
  was small enough for the storage, for which the class exists.
\<close>

theorem handler_memory_11_faults:
  "complete_read_11 ec bytes sz' fresh' (start_11 sz fresh new_echo) = None \<longleftrightarrow> sz < 1024"
  by (simp add: complete_read_11_def start_11_def do_read_11_def allocate_11_def storage_size_11_def
      release_11_def operator_delete_def operator_new_def new_echo_def new_memory_def
      echo_filled_def)

end
