(* ===== verification/Echo_Server.thy ===== *)
theory Echo_Server
  imports Echo_Session
begin

text \<open>
  \<open>class server\<close> of boost_alloc/server_03.cpp and boost_alloc/server_11.cpp: the acceptors that
  make the echo sessions. The older server makes the session before it accepts and binds it into
  the handler; the newer one accepts into a member socket, from which the session is made.
\<close>

section \<open>The older server\<close>

text \<open>
  \<open>echo_accept\<close> is the session bound into the outstanding accept; \<open>echo_sessions\<close> are the
  sessions that are alive, and \<open>echo_ended\<close> those that were destroyed.
\<close>

record echo_server =
  echo_accept :: "address option"
  echo_sessions :: "address \<Rightarrow> echo_session option"
  echo_ended :: "echo_session list"

definition set_session :: "address \<Rightarrow> echo_session \<Rightarrow> echo_server \<Rightarrow> echo_server" where
  "set_session a c s = s\<lparr>echo_sessions := (echo_sessions s)(a \<mapsto> c)\<rparr>"

definition accept_into :: "address \<Rightarrow> echo_server \<Rightarrow> echo_server" where
  "accept_into a s = (set_session a new_echo s)\<lparr>echo_accept := Some a\<rparr>"

definition new_echo_server :: "address \<Rightarrow> echo_server" where
  "new_echo_server a = accept_into a \<lparr>echo_accept = None, echo_sessions = (\<lambda>_. None), echo_ended = []\<rparr>"

definition echo_handle_accept ::
    "address \<Rightarrow> error_code \<Rightarrow> nat \<Rightarrow> nat \<Rightarrow> address \<Rightarrow> echo_server \<Rightarrow> echo_server option" where
  "echo_handle_accept a ec sz fresh b s =
     map_option (accept_into b)
       (if ec = No_error
        then map_option (\<lambda>c. set_session a (start_03 sz fresh c) s) (echo_sessions s a)
        else Some s)"

text \<open>
  The steps: the accept completes; an operation of a session completes; a session that neither
  an operation nor the accept refers to is destroyed.
\<close>

inductive echo_server_reachable :: "(nat \<Rightarrow> char option) \<Rightarrow> nat set \<Rightarrow> echo_server \<Rightarrow> bool"
  for junk sizes where
  echo_server_init: "echo_server_reachable junk sizes (new_echo_server a)"
| echo_server_accepted: "echo_server_reachable junk sizes s \<Longrightarrow> echo_accept s = Some a \<Longrightarrow>
     echo_sessions s b = None \<Longrightarrow> sz \<in> sizes \<Longrightarrow>
     echo_handle_accept a ec sz fresh b (s\<lparr>echo_accept := None\<rparr>) = Some t \<Longrightarrow>
     echo_server_reachable junk sizes t"
| echo_server_read: "echo_server_reachable junk sizes s \<Longrightarrow> echo_sessions s a = Some c \<Longrightarrow>
     echo_pending c = Some (Echo_read p) \<Longrightarrow> length bytes \<le> 1024 \<Longrightarrow>
     (ec \<noteq> No_error \<longrightarrow> bytes = []) \<Longrightarrow> sz \<in> sizes \<Longrightarrow>
     Heap fresh \<notin> held_blocks (echo_memory c) - {p} \<Longrightarrow>
     complete_read_03 junk ec bytes sz fresh c = Some d \<Longrightarrow>
     echo_server_reachable junk sizes (set_session a d s)"
| echo_server_write: "echo_server_reachable junk sizes s \<Longrightarrow> echo_sessions s a = Some c \<Longrightarrow>
     echo_pending c = Some (Echo_write p n) \<Longrightarrow> k \<le> n \<Longrightarrow> (ec = No_error \<longrightarrow> k = n) \<Longrightarrow>
     sz \<in> sizes \<Longrightarrow> Heap fresh \<notin> held_blocks (echo_memory c) - {p} \<Longrightarrow>
     complete_write_03 ec k sz fresh c = Some d \<Longrightarrow>
     echo_server_reachable junk sizes (set_session a d s)"
| echo_server_released: "echo_server_reachable junk sizes s \<Longrightarrow> echo_sessions s a = Some c \<Longrightarrow>
     echo_pending c = None \<Longrightarrow> echo_accept s \<noteq> Some a \<Longrightarrow>
     echo_server_reachable junk sizes (s\<lparr>echo_sessions := (echo_sessions s)(a := None),
       echo_ended := echo_ended s @ [c]\<rparr>)"

section \<open>The newer server\<close>

record echo_server_11 =
  accepting_11 :: bool
  sessions_11 :: "address \<Rightarrow> echo_session option"

definition do_accept_11 :: "echo_server_11 \<Rightarrow> echo_server_11" where
  "do_accept_11 s = s\<lparr>accepting_11 := True\<rparr>"

definition new_server_11 :: echo_server_11 where
  "new_server_11 = do_accept_11 \<lparr>accepting_11 = False, sessions_11 = (\<lambda>_. None)\<rparr>"

definition on_accept_11 :: "error_code \<Rightarrow> nat \<Rightarrow> nat \<Rightarrow> address \<Rightarrow> echo_server_11 \<Rightarrow> echo_server_11" where
  "on_accept_11 ec sz fresh b s =
     do_accept_11
       (if ec = No_error then s\<lparr>sessions_11 := (sessions_11 s)(b \<mapsto> start_11 sz fresh new_echo)\<rparr>
        else s)"

section \<open>The invariant of the older server\<close>

text \<open>A session is new as long as it is in the accept, or its accept has failed.\<close>

definition echo_server_ok :: "(nat \<Rightarrow> char option) \<Rightarrow> nat set \<Rightarrow> echo_server \<Rightarrow> bool" where
  "echo_server_ok junk sizes s \<longleftrightarrow>
     (\<exists>a. echo_accept s = Some a \<and> echo_sessions s a = Some new_echo)
     \<and> (\<forall>c \<in> ran (echo_sessions s) \<union> set (echo_ended s). c = new_echo \<or> echo_reachable junk sizes c)"

lemma set_session_simps [simp]:
  "echo_accept (set_session a c s) = echo_accept s"
  "echo_sessions (set_session a c s) = (echo_sessions s)(a \<mapsto> c)"
  "echo_ended (set_session a c s) = echo_ended s"
  by (simp_all add: set_session_def)

lemma accept_into_simps [simp]:
  "echo_accept (accept_into a s) = Some a"
  "echo_sessions (accept_into a s) = (echo_sessions s)(a \<mapsto> new_echo)"
  "echo_ended (accept_into a s) = echo_ended s"
  by (simp_all add: accept_into_def)

lemma ran_upd_cases: "c \<in> ran (m(a := v)) \<Longrightarrow> v = Some c \<or> c \<in> ran m"
  by (auto simp: ran_def split: if_splits)

lemma echo_pending_new [simp]: "echo_pending new_echo = None"
  by (simp add: new_echo_def)

lemma session_changed_ok:
  assumes ok: "echo_server_ok junk sizes s" and c: "echo_sessions s a = Some c" "echo_pending c \<noteq> None"
    and d: "echo_reachable junk sizes c \<Longrightarrow> echo_reachable junk sizes d"
  shows "echo_server_ok junk sizes (set_session a d s)"
proof -
  have "c \<noteq> new_echo" using c(2) by auto
  moreover have "c = new_echo \<or> echo_reachable junk sizes c" using ok c(1) by (auto simp: echo_server_ok_def ran_def)
  ultimately have "echo_reachable junk sizes d" using d by blast
  then show ?thesis
    using ok c(1) \<open>c \<noteq> new_echo\<close> by (auto simp: echo_server_ok_def dest!: ran_upd_cases)
qed

lemma handle_accept_server_ok:
  assumes ok: "echo_server_ok junk sizes s" and a: "echo_accept s = Some a" and b: "echo_sessions s b = None"
    and sz: "sz \<in> sizes"
  shows "\<exists>t. echo_handle_accept a ec sz fresh b (s\<lparr>echo_accept := None\<rparr>) = Some t \<and> echo_server_ok junk sizes t
    \<and> echo_accept t = Some b
    \<and> echo_sessions t a = Some (if ec = No_error then start_03 sz fresh new_echo else new_echo)"
proof -
  have new: "echo_sessions s a = Some new_echo" "a \<noteq> b" using ok a b by (auto simp: echo_server_ok_def)
  have "echo_reachable junk sizes (start_03 sz fresh new_echo)" by (rule echo_started [OF sz])
  then show ?thesis
    using ok new by (auto simp: echo_handle_accept_def echo_server_ok_def dest!: ran_upd_cases)
qed

lemma echo_server_reachable_ok: "echo_server_reachable junk sizes s \<Longrightarrow> echo_server_ok junk sizes s"
proof (induction rule: echo_server_reachable.induct)
  case (echo_server_init a)
  show ?case by (auto simp: new_echo_server_def echo_server_ok_def dest!: ran_upd_cases)
next
  case (echo_server_accepted s a b sz ec fresh t)
  then show ?case using handle_accept_server_ok [of junk sizes s a b sz ec fresh] by auto
next
  case (echo_server_read s a c p bytes ec sz fresh d)
  then show ?case
    by (intro session_changed_ok [of junk sizes s a c d]) (auto intro: echo_read_done)
next
  case (echo_server_write s a c p n k ec sz fresh d)
  then show ?case
    by (intro session_changed_ok [of junk sizes s a c d]) (auto intro: echo_write_done)
next
  case (echo_server_released s a c)
  then have "c \<in> ran (echo_sessions s)" by (auto simp: ran_def)
  with echo_server_released show ?case
    by (auto simp: echo_server_ok_def dest!: ran_upd_cases)
qed

section \<open>Properties\<close>

text \<open>
  Property C34. The older echo server: an accept is always outstanding, whatever it results in
  its handler finds the session and starts the next, and every client it has, or had, was sent a
  prefix of what it had sent, all of it whenever its session is reading.
\<close>

theorem echo_server_serves:
  assumes "echo_server_reachable junk sizes s" "c \<in> ran (echo_sessions s) \<union> set (echo_ended s)"
    and "echo_sessions s b = None" "sz \<in> sizes"
  shows "prefix (echo_sent c) (map Some (echo_received c))
    \<and> (\<forall>p. echo_pending c = Some (Echo_read p) \<longrightarrow> echo_sent c = map Some (echo_received c))
    \<and> (\<exists>a t. echo_accept s = Some a
         \<and> echo_handle_accept a ec sz fresh b (s\<lparr>echo_accept := None\<rparr>) = Some t \<and> echo_accept t = Some b
         \<and> echo_sessions t a = Some (if ec = No_error then start_03 sz fresh new_echo else new_echo))"
proof -
  have ok: "echo_server_ok junk sizes s" by (rule echo_server_reachable_ok [OF assms(1)])
  then obtain a where a: "echo_accept s = Some a" by (auto simp: echo_server_ok_def)
  have "c = new_echo \<or> echo_reachable junk sizes c" using ok assms(2) by (simp add: echo_server_ok_def)
  then have "prefix (echo_sent c) (map Some (echo_received c))
      \<and> (\<forall>p. echo_pending c = Some (Echo_read p) \<longrightarrow> echo_sent c = map Some (echo_received c))"
    using echo_session_echoes by (auto simp: new_echo_def)
  then show ?thesis using handle_accept_server_ok [OF ok a assms(3,4)] a by blast
qed

theorem echo_server_serves_witness:
  "\<exists>s c t. echo_server_reachable (\<lambda>_. None) {100} s \<and> echo_sessions s 1 = Some c \<and> prefix (echo_sent c) (map Some (echo_received c))
     \<and> echo_handle_accept 1 No_error 100 0 2 (s\<lparr>echo_accept := None\<rparr>) = Some t \<and> echo_accept t = Some 2"
proof -
  let ?s = "new_echo_server 1"
  have init: "echo_server_reachable (\<lambda>_. None) {100} ?s" by (rule echo_server_init)
  have c: "echo_sessions ?s 1 = Some new_echo" "echo_sessions ?s 2 = None" "echo_accept ?s = Some 1"
    by (simp_all add: new_echo_server_def)
  then have "new_echo \<in> ran (echo_sessions ?s) \<union> set (echo_ended ?s)" by (auto simp: ran_def)
  from echo_server_serves [OF init this c(2), of 100 No_error 0] show ?thesis
    using init c by fastforce
qed

text \<open>
  The newer echo server accepts on and on, but of every client it accepts the first
  completion is undefined, exactly when the handler was small enough for the session's storage.
\<close>

theorem newer_server_faults:
  "accepting_11 (on_accept_11 ec sz fresh b s)
   \<and> (\<exists>c. sessions_11 (on_accept_11 No_error sz fresh b s) b = Some c
        \<and> (complete_read_11 ec' bytes sz' fresh' c = None \<longleftrightarrow> sz < 1024))"
  by (simp add: on_accept_11_def do_accept_11_def handler_memory_11_faults)

end
