(* ===== verification/Daytime_String.thy ===== *)
theory Daytime_String
  imports Cxx_Prelude
begin

text \<open>
  The text of the time that the daytime programs send (\<open>make_daytime_string\<close> in boost_tcp,
  boost_udp and boost_comb) and the log library puts before its lines (ctutkernel). Both are
  \<open>ctime\<close> of the C library, which is written out here: the calendar of the seconds since 1970
  in local time, and the format of \<open>asctime\<close>. What the clock says is a parameter.
\<close>

section \<open>The calendar\<close>

definition leap_year :: "nat \<Rightarrow> bool" where
  "leap_year y \<longleftrightarrow> y mod 4 = 0 \<and> (y mod 100 \<noteq> 0 \<or> y mod 400 = 0)"

definition year_days :: "nat \<Rightarrow> nat" where
  "year_days y = (if leap_year y then 366 else 365)"

definition month_days :: "nat \<Rightarrow> nat list" where
  "month_days y = [31, if leap_year y then 29 else 28, 31, 30, 31, 30, 31, 31, 30, 31, 30, 31]"

lemma year_days_pos [simp]: "0 < year_days y"
  by (simp add: year_days_def)

text \<open>The year, and the day in it, of a number of days counted from the start of a year.\<close>

function year_and_day :: "nat \<Rightarrow> nat \<Rightarrow> nat \<times> nat" where
  "year_and_day y d = (if d < year_days y then (y, d) else year_and_day (Suc y) (d - year_days y))"
  by auto
termination by (relation "measure snd") (auto simp: year_days_def split: if_splits)

declare year_and_day.simps [simp del]

fun month_and_day :: "nat list \<Rightarrow> nat \<Rightarrow> nat \<times> nat" where
  "month_and_day [] d = (0, d)"
| "month_and_day (l # ls) d =
     (if d < l then (0, d) else (case month_and_day ls (d - l) of (m, d') \<Rightarrow> (Suc m, d')))"

record broken_time =
  tm_year :: nat
  tm_mon :: nat
  tm_mday :: nat
  tm_wday :: nat
  tm_hour :: nat
  tm_min :: nat
  tm_sec :: nat

definition localtime :: "nat \<Rightarrow> broken_time" where
  "localtime t =
     (let days = t div 86400; secs = t mod 86400;
          (y, yday) = year_and_day 1970 days;
          (m, d) = month_and_day (month_days y) yday
      in \<lparr>tm_year = y, tm_mon = m, tm_mday = Suc d, tm_wday = (days + 4) mod 7,
          tm_hour = secs div 3600, tm_min = secs mod 3600 div 60, tm_sec = secs mod 60\<rparr>)"

section \<open>The format\<close>

definition day_names :: "string list" where
  "day_names = [''Sun'', ''Mon'', ''Tue'', ''Wed'', ''Thu'', ''Fri'', ''Sat'']"

definition month_names :: "string list" where
  "month_names = [''Jan'', ''Feb'', ''Mar'', ''Apr'', ''May'', ''Jun'', ''Jul'', ''Aug'', ''Sep'',
     ''Oct'', ''Nov'', ''Dec'']"

definition pad_to :: "nat \<Rightarrow> char \<Rightarrow> nat \<Rightarrow> string" where
  "pad_to w c n = replicate (w - length (nat_to_string n)) c @ nat_to_string n"

definition asctime :: "broken_time \<Rightarrow> string" where
  "asctime tm =
     day_names ! tm_wday tm @ '' '' @ month_names ! tm_mon tm @ pad_to 3 CHR '' '' (tm_mday tm)
       @ '' '' @ pad_to 2 CHR ''0'' (tm_hour tm) @ '':'' @ pad_to 2 CHR ''0'' (tm_min tm)
       @ '':'' @ pad_to 2 CHR ''0'' (tm_sec tm) @ '' '' @ nat_to_string (tm_year tm) @ [LF]"

text \<open>
  \<open>ctime\<close> is \<open>asctime\<close> of \<open>localtime\<close>, as the C standard has it; all of these belong to the C library.
  The function of the programs, the same in every file, takes the time and calls it.
\<close>

definition ctime :: "nat \<Rightarrow> string" where
  "ctime now = asctime (localtime now)"

definition make_daytime_string :: "nat \<Rightarrow> string" where
  "make_daytime_string now = ctime now"

text \<open>
  \<open>Log::debug\<close> and \<open>Log::verbose\<close>: the text without its last character, the tag and the message.
\<close>

definition log_debug :: "nat \<Rightarrow> string \<Rightarrow> string \<Rightarrow> string" where
  "log_debug now tag text =
     (let dt = make_daytime_string now
      in take (length (c_str dt) - 1) dt @ '' | '' @ tag @ '' : '' @ text @ [LF])"

definition log_verbose :: "string \<Rightarrow> string \<Rightarrow> string" where
  "log_verbose tag text = tag @ '' : '' @ text @ [LF]"

section \<open>Reading the text back\<close>

fun name_index :: "string list \<Rightarrow> string \<Rightarrow> nat" where
  "name_index [] s = 0"
| "name_index (n # ns) s = (if n = s then 0 else Suc (name_index ns s))"

definition days_before_year :: "nat \<Rightarrow> nat" where
  "days_before_year y = sum_list (map year_days [1970..<y])"

definition days_before_month :: "nat \<Rightarrow> nat \<Rightarrow> nat" where
  "days_before_month y m = sum_list (take m (month_days y))"

definition number_at :: "nat \<Rightarrow> nat \<Rightarrow> string \<Rightarrow> nat" where
  "number_at off w s = nat (dec_value (dropWhile is_space (take w (drop off s))))"

definition read_daytime :: "string \<Rightarrow> nat" where
  "read_daytime s =
     (let y = number_at 20 4 s; m = name_index month_names (take 3 (drop 4 s))
      in (days_before_year y + days_before_month y m + number_at 7 3 s - 1) * 86400
         + number_at 11 2 s * 3600 + number_at 14 2 s * 60 + number_at 17 2 s)"

section \<open>Lemmas on the calendar\<close>

lemma year_and_day_sound:
  "year_and_day y d = (y', d') \<Longrightarrow>
     y \<le> y' \<and> d' < year_days y' \<and> d = sum_list (map year_days [y..<y']) + d'"
proof (induction y d arbitrary: y' d' rule: year_and_day.induct)
  case (1 y d)
  show ?case
  proof (cases "d < year_days y")
    case True
    with "1.prems" show ?thesis by (simp add: year_and_day.simps [of y d])
  next
    case False
    then have "year_and_day (Suc y) (d - year_days y) = (y', d')"
      using "1.prems" by (simp add: year_and_day.simps [of y d])
    with "1.IH" False have ih: "Suc y \<le> y'" "d' < year_days y'"
      "d - year_days y = sum_list (map year_days [Suc y..<y']) + d'" by blast+
    have "[y..<y'] = y # [Suc y..<y']" using ih(1) by (intro upt_conv_Cons) simp
    then have "sum_list (map year_days [y..<y']) = year_days y + sum_list (map year_days [Suc y..<y'])"
      by (simp only: list.map sum_list.Cons)
    moreover have "d = year_days y + (d - year_days y)" using False by linarith
    ultimately show ?thesis using ih by linarith
  qed
qed

lemma month_and_day_sound:
  "month_and_day ls d = (m, d') \<Longrightarrow> d < sum_list ls \<Longrightarrow>
     m < length ls \<and> d' < ls ! m \<and> d = sum_list (take m ls) + d'"
proof (induction ls d arbitrary: m d' rule: month_and_day.induct)
  case (2 l ls d)
  show ?case
  proof (cases "d < l")
    case True
    with 2 show ?thesis by simp
  next
    case False
    obtain k e where ke: "month_and_day ls (d - l) = (k, e)" by fastforce
    have "d - l < sum_list ls" using False "2.prems"(2) by simp
    then have ih: "k < length ls" "e < ls ! k" "d - l = sum_list (take k ls) + e"
      using "2.IH" [OF False ke] by simp_all
    have "m = Suc k" "d' = e" using "2.prems"(1) False ke by simp_all
    with ih False show ?thesis by simp
  qed
qed simp

lemma month_days_sum: "sum_list (month_days y) = year_days y"
  by (simp add: month_days_def year_days_def)

lemma month_days_bound: "m < 12 \<Longrightarrow> month_days y ! m \<le> 31"
  by (auto simp: month_days_def nth_Cons' numeral_nat)

text \<open>The fields of a broken down time are in their ranges, and the time is in them.\<close>

definition time_ok :: "broken_time \<Rightarrow> bool" where
  "time_ok tm \<longleftrightarrow> 1970 \<le> tm_year tm \<and> tm_mon tm < 12 \<and> 0 < tm_mday tm \<and> tm_mday tm \<le> 31
     \<and> tm_wday tm < 7 \<and> tm_hour tm < 24 \<and> tm_min tm < 60 \<and> tm_sec tm < 60"

lemma localtime_fields:
  "time_ok (localtime t)
   \<and> t = (days_before_year (tm_year (localtime t))
          + days_before_month (tm_year (localtime t)) (tm_mon (localtime t))
          + tm_mday (localtime t) - 1) * 86400
         + tm_hour (localtime t) * 3600 + tm_min (localtime t) * 60 + tm_sec (localtime t)"
proof -
  obtain y yd where y: "year_and_day 1970 (t div 86400) = (y, yd)" by fastforce
  obtain m d where m: "month_and_day (month_days y) yd = (m, d)" by fastforce
  note ys = year_and_day_sound [OF y]
  have ms: "m < 12" "d < month_days y ! m" "yd = sum_list (take m (month_days y)) + d"
    using month_and_day_sound [OF m] ys month_days_sum [of y] by (simp_all add: month_days_def)
  have tm: "localtime t = \<lparr>tm_year = y, tm_mon = m, tm_mday = Suc d,
      tm_wday = (t div 86400 + 4) mod 7, tm_hour = t mod 86400 div 3600,
      tm_min = t mod 86400 mod 3600 div 60, tm_sec = t mod 86400 mod 60\<rparr>"
    by (simp add: localtime_def Let_def y m)
  have "t mod 86400 = t mod 86400 div 3600 * 3600 + t mod 86400 mod 3600 div 60 * 60
      + t mod 86400 mod 3600 mod 60" by presburger
  moreover have "t mod 86400 mod 3600 mod 60 = t mod 86400 mod 60"
    by (simp add: mod_mod_cancel)
  ultimately have split: "t = t div 86400 * 86400 + (t mod 86400 div 3600 * 3600
      + t mod 86400 mod 3600 div 60 * 60 + t mod 86400 mod 60)"
    using div_mult_mod_eq [of t 86400] by linarith
  have "t div 86400 = days_before_year y + days_before_month y m + d"
    using ys ms(3) by (simp add: days_before_year_def days_before_month_def)
  moreover have "t mod 86400 div 3600 < 24" by (simp add: div_less_iff_less_mult)
  moreover have "t mod 86400 mod 3600 div 60 < 60" by (simp add: div_less_iff_less_mult)
  ultimately show ?thesis
    using ys ms(1,2) month_days_bound [OF ms(1), of y] split
    by (simp add: tm time_ok_def)
qed

section \<open>Lemmas on the format\<close>

lemma pad_to_length: "length (nat_to_string n) \<le> w \<Longrightarrow> length (pad_to w c n) = w"
  by (simp add: pad_to_def)

lemma nat_to_string_short: "n < 100 \<Longrightarrow> length (nat_to_string n) \<le> 2"
proof -
  assume "n < 100"
  then have "n div 10 < 10" by simp
  then show ?thesis
    by (simp add: nat_to_string.simps [of n] nat_to_string.simps [of "n div 10"])
qed

lemma nat_to_string_four: "1000 \<le> n \<Longrightarrow> n < 10000 \<Longrightarrow> length (nat_to_string n) = 4"
proof -
  assume n: "1000 \<le> n" "n < 10000"
  then have "\<not> n < 10" "\<not> n div 10 < 10" "\<not> n div 10 div 10 < 10" "n div 10 div 10 div 10 < 10"
    by (simp_all add: not_less div_mult2_eq [symmetric] less_eq_div_iff_mult_less_eq)
  then show ?thesis
    by (simp add: nat_to_string.simps [of n] nat_to_string.simps [of "n div 10"]
        nat_to_string.simps [of "n div 10 div 10"] nat_to_string.simps [of "n div 10 div 10 div 10"])
qed

lemma number_at_field:
  "length a = off \<Longrightarrow> length b = w \<Longrightarrow> number_at off w (a @ b @ c) = nat (dec_value (dropWhile is_space b))"
  by (simp add: number_at_def)

lemma number_of_pad:
  "nat (dec_value (dropWhile is_space (pad_to w CHR '' '' n))) = n"
  "nat (dec_value (dropWhile is_space (pad_to w CHR ''0'' n))) = n"
proof -
  have digits: "\<forall>c \<in> set (nat_to_string n). is_dec c" by (rule nat_to_string_digits)
  have "is_space CHR '' ''" by (simp add: is_space_def)
  then have "dropWhile is_space (replicate k CHR '' '' @ nat_to_string n) = nat_to_string n" for k
    by (induction k) (simp_all add: dropWhile_space_digits [OF digits])
  then show "nat (dec_value (dropWhile is_space (pad_to w CHR '' '' n))) = n"
    by (simp add: pad_to_def)
  have "is_dec CHR ''0''" by (simp add: is_dec_def char_to_int_def)
  then have "\<forall>c \<in> set (pad_to w CHR ''0'' n). is_dec c"
    using digits by (auto simp: pad_to_def)
  then show "nat (dec_value (dropWhile is_space (pad_to w CHR ''0'' n))) = n"
    by (simp add: dropWhile_space_digits) (simp add: pad_to_def dec_value_zeros)
qed

lemma number_of_plain: "nat (dec_value (dropWhile is_space (nat_to_string n))) = n"
  by (simp add: dropWhile_space_digits nat_to_string_digits)

lemma name_lengths: "w < 7 \<Longrightarrow> length (day_names ! w) = 3" "m < 12 \<Longrightarrow> length (month_names ! m) = 3"
  by (auto simp: day_names_def month_names_def less_Suc_eq numeral_nat)

lemma name_index_nth: "distinct ns \<Longrightarrow> m < length ns \<Longrightarrow> name_index ns (ns ! m) = m"
  by (induction ns arbitrary: m) (auto simp: nth_Cons split: nat.splits)

lemma month_index: "m < 12 \<Longrightarrow> name_index month_names (month_names ! m) = m"
  by (rule name_index_nth) (simp_all add: month_names_def)

text \<open>The pieces of the text, with their lengths.\<close>

lemma asctime_lengths:
  assumes "time_ok tm" "tm_year tm < 10000"
  shows "length (day_names ! tm_wday tm) = 3" "length (month_names ! tm_mon tm) = 3"
    "length (pad_to 3 CHR '' '' (tm_mday tm)) = 3" "length (pad_to 2 CHR ''0'' (tm_hour tm)) = 2"
    "length (pad_to 2 CHR ''0'' (tm_min tm)) = 2" "length (pad_to 2 CHR ''0'' (tm_sec tm)) = 2"
    "length (nat_to_string (tm_year tm)) = 4"
  using assms nat_to_string_short [of "tm_mday tm"] nat_to_string_short [of "tm_hour tm"]
    nat_to_string_short [of "tm_min tm"] nat_to_string_short [of "tm_sec tm"]
  by (simp_all add: time_ok_def name_lengths pad_to_length nat_to_string_four)

lemma asctime_length:
  assumes "time_ok tm" "tm_year tm < 10000"
  shows "length (asctime tm) = 25"
  by (simp add: asctime_def asctime_lengths [OF assms])

lemma read_asctime:
  assumes "time_ok tm" "tm_year tm < 10000"
  shows "number_at 20 4 (asctime tm) = tm_year tm" "number_at 7 3 (asctime tm) = tm_mday tm"
    "number_at 11 2 (asctime tm) = tm_hour tm" "number_at 14 2 (asctime tm) = tm_min tm"
    "number_at 17 2 (asctime tm) = tm_sec tm"
    "name_index month_names (take 3 (drop 4 (asctime tm))) = tm_mon tm"
proof -
  note lens = asctime_lengths [OF assms]
  define w mo d h mi se y where "w = day_names ! tm_wday tm" and "mo = month_names ! tm_mon tm"
    and "d = pad_to 3 CHR '' '' (tm_mday tm)" and "h = pad_to 2 CHR ''0'' (tm_hour tm)"
    and "mi = pad_to 2 CHR ''0'' (tm_min tm)" and "se = pad_to 2 CHR ''0'' (tm_sec tm)"
    and "y = nat_to_string (tm_year tm)"
  note parts = this
  have whole: "asctime tm = w @ '' '' @ mo @ d @ '' '' @ h @ '':'' @ mi @ '':'' @ se @ '' '' @ y @ [LF]"
    by (simp add: asctime_def parts)
  note l = lens [folded parts]
  show "number_at 20 4 (asctime tm) = tm_year tm"
    using number_at_field [of "w @ '' '' @ mo @ d @ '' '' @ h @ '':'' @ mi @ '':'' @ se @ '' ''" 20 y 4 "[LF]"] l
    by (simp add: whole number_of_plain [of "tm_year tm", folded parts])
  show "number_at 7 3 (asctime tm) = tm_mday tm"
    using number_at_field [of "w @ '' '' @ mo" 7 d 3 "'' '' @ h @ '':'' @ mi @ '':'' @ se @ '' '' @ y @ [LF]"] l
    by (simp add: whole number_of_pad(1) [of 3 "tm_mday tm", folded parts])
  show "number_at 11 2 (asctime tm) = tm_hour tm"
    using number_at_field [of "w @ '' '' @ mo @ d @ '' ''" 11 h 2 "'':'' @ mi @ '':'' @ se @ '' '' @ y @ [LF]"] l
    by (simp add: whole number_of_pad(2) [of 2 "tm_hour tm", folded parts])
  show "number_at 14 2 (asctime tm) = tm_min tm"
    using number_at_field [of "w @ '' '' @ mo @ d @ '' '' @ h @ '':''" 14 mi 2 "'':'' @ se @ '' '' @ y @ [LF]"] l
    by (simp add: whole number_of_pad(2) [of 2 "tm_min tm", folded parts])
  show "number_at 17 2 (asctime tm) = tm_sec tm"
    using number_at_field [of "w @ '' '' @ mo @ d @ '' '' @ h @ '':'' @ mi @ '':''" 17 se 2 "'' '' @ y @ [LF]"] l
    by (simp add: whole number_of_pad(2) [of 2 "tm_sec tm", folded parts])
  have "take 3 (drop 4 (asctime tm)) = mo" using l by (simp add: whole)
  then show "name_index month_names (take 3 (drop 4 (asctime tm))) = tm_mon tm"
    using assms(1) by (simp add: parts month_index time_ok_def)
qed

text \<open>The text is one line: its only line feed is its last character, and it has no NUL.\<close>

lemma num_line: "set (nat_to_string n) \<inter> {LF, NUL} = {}"
  using nat_to_string_digits [of n] dec_not_special by (auto simp: is_space_def)

lemma pad_line: "c \<notin> {LF, NUL} \<Longrightarrow> set (pad_to w c n) \<inter> {LF, NUL} = {}"
  using num_line [of n] by (auto simp: pad_to_def)

lemma name_line:
  "w < 7 \<Longrightarrow> set (day_names ! w) \<inter> {LF, NUL} = {}"
  "m < 12 \<Longrightarrow> set (month_names ! m) \<inter> {LF, NUL} = {}"
  by (auto simp: day_names_def month_names_def less_Suc_eq numeral_nat)

lemma asctime_line:
  assumes "time_ok tm"
  shows "\<exists>line. asctime tm = line @ [LF] \<and> set line \<inter> {LF, NUL} = {}"
proof -
  have sp: "set (pad_to 3 CHR '' '' n) \<inter> {LF, NUL} = {}" for n by (rule pad_line) simp
  have ze: "set (pad_to 2 CHR ''0'' n) \<inter> {LF, NUL} = {}" for n by (rule pad_line) simp
  let ?line = "day_names ! tm_wday tm @ '' '' @ month_names ! tm_mon tm @ pad_to 3 CHR '' '' (tm_mday tm)
       @ '' '' @ pad_to 2 CHR ''0'' (tm_hour tm) @ '':'' @ pad_to 2 CHR ''0'' (tm_min tm)
       @ '':'' @ pad_to 2 CHR ''0'' (tm_sec tm) @ '' '' @ nat_to_string (tm_year tm)"
  have "set ?line \<inter> {LF, NUL} = {}"
    using assms name_line sp ze num_line by (simp add: Int_Un_distrib2 time_ok_def)
  moreover have "asctime tm = ?line @ [LF]" by (simp add: asctime_def)
  ultimately show ?thesis by blast
qed

lemma daytime_length: "tm_year (localtime t) < 10000 \<Longrightarrow> length (make_daytime_string t) = 25"
  by (simp add: make_daytime_string_def ctime_def asctime_length localtime_fields)

lemma read_daytime_inverse:
  "tm_year (localtime t) < 10000 \<Longrightarrow> read_daytime (make_daytime_string t) = t"
  unfolding read_daytime_def Let_def make_daytime_string_def ctime_def
  using localtime_fields [of t] by (simp add: read_asctime)

lemma daytime_line:
  "\<exists>line. make_daytime_string t = line @ [LF] \<and> set line \<inter> {LF, NUL} = {}"
  unfolding make_daytime_string_def ctime_def by (rule asctime_line) (simp add: localtime_fields)

lemma daytime_nonempty: "make_daytime_string t \<noteq> []"
  using daytime_line [of t] by auto

lemma year_of_zero: "tm_year (localtime 0) < 10000"
  by (simp add: localtime_def year_and_day.simps [of 1970] year_days_def leap_year_def month_days_def)

section \<open>Servers of the time\<close>

text \<open>
  What a client may rely on with any of the servers: what it has been sent so far is the
  beginning of the text of a time the server's clock showed. So the line feed tells it that the
  text is whole, and it can be read.
\<close>

locale time_service =
  fixes clock :: "nat set"
    and reachable :: "'s \<Rightarrow> bool"
    and sent_texts :: "'s \<Rightarrow> string set"
  assumes sent_prefix: "reachable s \<Longrightarrow> bytes \<in> sent_texts s \<Longrightarrow> bytes \<noteq> [] \<Longrightarrow>
    \<exists>now \<in> clock. prefix bytes (make_daytime_string now)"
begin

lemma line_feed_completes:
  assumes "reachable s" "bytes \<in> sent_texts s" "LF \<in> set bytes"
  shows "\<exists>now \<in> clock. bytes = make_daytime_string now"
proof -
  obtain now where now: "now \<in> clock" "prefix bytes (make_daytime_string now)"
    using sent_prefix [OF assms(1,2)] assms(3) by force
  obtain line where line: "make_daytime_string now = line @ [LF]" "set line \<inter> {LF, NUL} = {}"
    using daytime_line [of now] by auto
  have "\<not> prefix bytes line" using line(2) assms(3) set_mono_prefix [of bytes line] by auto
  then have "bytes = make_daytime_string now" using now(2) line(1) by (simp add: prefix_snoc)
  with now(1) show ?thesis by blast
qed

lemma line_feed_reads:
  assumes "reachable s" "bytes \<in> sent_texts s" "LF \<in> set bytes"
    and "\<And>now. now \<in> clock \<Longrightarrow> tm_year (localtime now) < 10000"
  shows "read_daytime bytes \<in> clock"
  using line_feed_completes [OF assms(1-3)] assms(4) by (auto simp: read_daytime_inverse)

end

section \<open>Properties\<close>

text \<open>
  The text of the time is 25 characters long up to the year 9999, so it fits the
  buffers of 26 characters of \<open>ctime\<close> and of 128 of the clients, and the time can be read back
  from it.
\<close>

theorem daytime_round_trip:
  assumes "tm_year (localtime now) < 10000"
  shows "read_daytime (make_daytime_string now) = now \<and> length (make_daytime_string now) = 25"
  using assms by (simp add: read_daytime_inverse daytime_length)

theorem daytime_round_trip_witness:
  "read_daytime (make_daytime_string 1000000000) = 1000000000
     \<and> make_daytime_string 1000000000 = ''Sun Sep  9 01:46:40 2001'' @ [LF]"
proof -
  have lt: "localtime 1000000000 = \<lparr>tm_year = 2001, tm_mon = 8, tm_mday = 9, tm_wday = 0,
      tm_hour = 1, tm_min = 46, tm_sec = 40\<rparr>"
    by (simp add: localtime_def year_and_day.simps year_days_def leap_year_def month_days_def)
  moreover have "make_daytime_string 1000000000 = ''Sun Sep  9 01:46:40 2001'' @ [LF]"
    unfolding make_daytime_string_def ctime_def lt
    by (simp add: asctime_def day_names_def month_names_def pad_to_def nat_to_string.simps
        dec_digit_def) code_simp
  ultimately show ?thesis using daytime_round_trip [of 1000000000] by simp
qed

text \<open>
  The log library prints one line per call: the time without its line feed, which
  is the last character and the only one, then the tag and the message.
\<close>

theorem log_debug_line:
  "\<exists>line. make_daytime_string now = line @ [LF] \<and> set line \<inter> {LF, NUL} = {}
     \<and> log_debug now tag msg = line @ '' | '' @ log_verbose tag msg"
proof -
  obtain line where line: "make_daytime_string now = line @ [LF]" "set line \<inter> {LF, NUL} = {}"
    using daytime_line [of now] by auto
  then have "c_str (make_daytime_string now) = line @ [LF]" by (auto intro: c_str_id)
  then have "log_debug now tag msg = line @ '' | '' @ log_verbose tag msg"
    by (simp add: log_debug_def log_verbose_def line(1))
  with line show ?thesis by blast
qed

end
