(* ===== verification/Shared_Buffer.thy ===== *)
theory Shared_Buffer
  imports Daytime_String Asio
begin

text \<open>
  The reference counted buffer of boost_buffer/reference_cnt_11.cpp: a copy of the buffer shares
  the vector with the text, so the text lives as long as the write that sends it, without being
  a member of the session. The vectors are a store with use counts, which copies and
  destructors of buffers change; reading or releasing a vector that is gone is undefined
  (\<open>None\<close>). The rest is the server that sends the time to whoever connects.
\<close>

section \<open>Shared vectors\<close>

record shared_vector =
  sv_bytes :: string
  sv_uses :: nat

datatype rc_op = Rc_accept | Rc_write address address nat

text \<open>
  A write \<open>Rc_write a d i\<close> of session \<open>a\<close> holds a copy of the buffer on vector \<open>d\<close>, of which it
  has written \<open>i\<close> bytes. \<open>rc_sessions\<close> gives what was sent on the sockets of the sessions that
  are alive, \<open>rc_served\<close> the same for those that are gone, with the error of their write.
\<close>

record rc_state =
  rc_store :: "address \<Rightarrow> shared_vector option"
  rc_sessions :: "address \<Rightarrow> string option"
  rc_ops :: "rc_op list"
  rc_served :: "(error_code \<times> string) list"

text \<open>The constructor of \<open>shared_const_buffer\<close>, its copy constructor and its destructor.\<close>

definition shared_const_buffer :: "address \<Rightarrow> string \<Rightarrow> rc_state \<Rightarrow> rc_state" where
  "shared_const_buffer d bytes s =
     s\<lparr>rc_store := (rc_store s)(d \<mapsto> \<lparr>sv_bytes = bytes, sv_uses = 1\<rparr>)\<rparr>"

definition copy_buffer :: "address \<Rightarrow> rc_state \<Rightarrow> rc_state option" where
  "copy_buffer d s =
     (case rc_store s d of
        None \<Rightarrow> None
      | Some v \<Rightarrow> Some (s\<lparr>rc_store := (rc_store s)(d \<mapsto> v\<lparr>sv_uses := Suc (sv_uses v)\<rparr>)\<rparr>))"

definition drop_buffer :: "address \<Rightarrow> rc_state \<Rightarrow> rc_state option" where
  "drop_buffer d s =
     (case rc_store s d of
        None \<Rightarrow> None
      | Some v \<Rightarrow>
          Some (s\<lparr>rc_store := (rc_store s)(d := (if sv_uses v = 1 then None
            else Some (v\<lparr>sv_uses := sv_uses v - 1\<rparr>)))\<rparr>))"

text \<open>What asio reads through the buffer: it must not look behind the end, or at a freed vector.\<close>

definition read_buffer :: "address \<Rightarrow> nat \<Rightarrow> nat \<Rightarrow> rc_state \<Rightarrow> string option" where
  "read_buffer d i n s =
     (case rc_store s d of
        None \<Rightarrow> None
      | Some v \<Rightarrow> if i + n \<le> length (sv_bytes v) then Some (take n (drop i (sv_bytes v))) else None)"

section \<open>Session and server\<close>

definition rc_begin :: "rc_op \<Rightarrow> rc_state \<Rightarrow> rc_state" where
  "rc_begin p s = s\<lparr>rc_ops := rc_ops s @ [p]\<rparr>"

definition rc_finish :: "rc_op \<Rightarrow> rc_state \<Rightarrow> rc_state" where
  "rc_finish p s = s\<lparr>rc_ops := remove1 p (rc_ops s)\<rparr>"

text \<open>
  \<open>session::do_write\<close>: the buffer on the stack is made, copied into the operation, and destroyed
  when the function returns.
\<close>

definition rc_do_write :: "nat \<Rightarrow> address \<Rightarrow> address \<Rightarrow> rc_state \<Rightarrow> rc_state option" where
  "rc_do_write now d a s = do {
     s1 \<leftarrow> copy_buffer d (shared_const_buffer d (make_daytime_string now) s);
     drop_buffer d (rc_begin (Rc_write a d 0) s1)
   }"

definition rc_start :: "nat \<Rightarrow> address \<Rightarrow> address \<Rightarrow> rc_state \<Rightarrow> rc_state option" where
  "rc_start now d a s = rc_do_write now d a s"

definition rc_new_session :: "address \<Rightarrow> rc_state \<Rightarrow> rc_state" where
  "rc_new_session a s = s\<lparr>rc_sessions := (rc_sessions s)(a \<mapsto> [])\<rparr>"

definition rc_do_accept :: "rc_state \<Rightarrow> rc_state" where
  "rc_do_accept s = rc_begin Rc_accept s"

definition rc_on_accept :: "nat \<Rightarrow> address \<Rightarrow> error_code \<Rightarrow> address \<Rightarrow> rc_state \<Rightarrow> rc_state option" where
  "rc_on_accept now d ec a s =
     map_option rc_do_accept
       (if ec = No_error then rc_start now d a (rc_new_session a s) else Some s)"

definition new_rc_server :: rc_state where
  "new_rc_server = rc_do_accept
     \<lparr>rc_store = (\<lambda>_. None), rc_sessions = (\<lambda>_. None), rc_ops = [], rc_served = []\<rparr>"

text \<open>
  The work of asio between the handlers: \<open>async_write\<close> sends some bytes and goes on, and at the
  end its copy of the buffer and, behind the handler with the empty body, the session go.
\<close>

definition rc_send_some :: "address \<Rightarrow> address \<Rightarrow> nat \<Rightarrow> nat \<Rightarrow> rc_state \<Rightarrow> rc_state option" where
  "rc_send_some a d i n s =
     (case (read_buffer d i n s, rc_sessions s a) of
        (Some bytes, Some sent) \<Rightarrow>
          Some (rc_begin (Rc_write a d (i + n))
            (rc_finish (Rc_write a d i) (s\<lparr>rc_sessions := (rc_sessions s)(a \<mapsto> sent @ bytes)\<rparr>)))
      | _ \<Rightarrow> None)"

definition rc_on_write :: "address \<Rightarrow> address \<Rightarrow> nat \<Rightarrow> error_code \<Rightarrow> rc_state \<Rightarrow> rc_state option" where
  "rc_on_write a d i ec s =
     (case rc_sessions s a of
        None \<Rightarrow> None
      | Some sent \<Rightarrow>
          map_option (\<lambda>s. s\<lparr>rc_sessions := (rc_sessions s)(a := None),
                            rc_served := rc_served s @ [(ec, sent)]\<rparr>)
            (drop_buffer d (rc_finish (Rc_write a d i) s)))"

inductive rc_reachable :: "nat set \<Rightarrow> rc_state \<Rightarrow> bool" for clock where
  rc_init: "rc_reachable clock new_rc_server"
| rc_accepted: "rc_reachable clock s \<Longrightarrow> Rc_accept \<in> set (rc_ops s) \<Longrightarrow> now \<in> clock \<Longrightarrow>
     rc_store s d = None \<Longrightarrow> rc_sessions s a = None \<Longrightarrow>
     rc_on_accept now d ec a (rc_finish Rc_accept s) = Some t \<Longrightarrow> rc_reachable clock t"
| rc_sent_some: "rc_reachable clock s \<Longrightarrow> Rc_write a d i \<in> set (rc_ops s) \<Longrightarrow>
     rc_store s d = Some v \<Longrightarrow> i + n \<le> length (sv_bytes v) \<Longrightarrow>
     rc_send_some a d i n s = Some t \<Longrightarrow> rc_reachable clock t"
| rc_written: "rc_reachable clock s \<Longrightarrow> Rc_write a d i \<in> set (rc_ops s) \<Longrightarrow>
     rc_store s d = Some v \<Longrightarrow> (ec = No_error \<longrightarrow> i = length (sv_bytes v)) \<Longrightarrow>
     rc_on_write a d i ec s = Some t \<Longrightarrow> rc_reachable clock t"

section \<open>The invariant\<close>

text \<open>The sessions and the vectors of the writes that are outstanding, in order.\<close>

fun op_session :: "rc_op \<Rightarrow> address list" where
  "op_session Rc_accept = []"
| "op_session (Rc_write a d i) = [a]"

fun op_vector :: "rc_op \<Rightarrow> address list" where
  "op_vector Rc_accept = []"
| "op_vector (Rc_write a d i) = [d]"

definition rc_op_ok :: "nat set \<Rightarrow> rc_state \<Rightarrow> rc_op \<Rightarrow> bool" where
  "rc_op_ok clock s p = (case p of
       Rc_accept \<Rightarrow> True
     | Rc_write a d i \<Rightarrow> \<exists>now \<in> clock.
         rc_store s d = Some \<lparr>sv_bytes = make_daytime_string now, sv_uses = 1\<rparr>
         \<and> i \<le> length (make_daytime_string now)
         \<and> rc_sessions s a = Some (take i (make_daytime_string now)))"

definition rc_ok :: "nat set \<Rightarrow> nat \<Rightarrow> rc_state \<Rightarrow> bool" where
  "rc_ok clock n s \<longleftrightarrow> count_list (rc_ops s) Rc_accept = n
     \<and> distinct (concat (map op_session (rc_ops s))) \<and> distinct (concat (map op_vector (rc_ops s)))
     \<and> dom (rc_sessions s) = set (concat (map op_session (rc_ops s)))
     \<and> dom (rc_store s) = set (concat (map op_vector (rc_ops s)))
     \<and> (\<forall>p \<in> set (rc_ops s). rc_op_ok clock s p)
     \<and> (\<forall>(ec, sent) \<in> set (rc_served s). \<exists>now \<in> clock. prefix sent (make_daytime_string now)
          \<and> (ec = No_error \<longrightarrow> sent = make_daytime_string now))"

text \<open>What the operations come to.\<close>

lemma rc_do_write_eq:
  "rc_do_write now d a s = Some (s\<lparr>rc_store := (rc_store s)
       (d \<mapsto> \<lparr>sv_bytes = make_daytime_string now, sv_uses = 1\<rparr>), rc_ops := rc_ops s @ [Rc_write a d 0]\<rparr>)"
  by (simp add: rc_do_write_def copy_buffer_def shared_const_buffer_def drop_buffer_def rc_begin_def)

lemma rc_on_write_eq:
  "rc_store s d = Some \<lparr>sv_bytes = bytes, sv_uses = 1\<rparr> \<Longrightarrow> rc_sessions s a = Some sent \<Longrightarrow>
     rc_on_write a d i ec s = Some (s\<lparr>rc_store := (rc_store s)(d := None),
       rc_sessions := (rc_sessions s)(a := None), rc_ops := remove1 (Rc_write a d i) (rc_ops s),
       rc_served := rc_served s @ [(ec, sent)]\<rparr>)"
  by (simp add: rc_on_write_def drop_buffer_def rc_finish_def)

lemma rc_send_some_eq:
  "rc_store s d = Some v \<Longrightarrow> rc_sessions s a = Some sent \<Longrightarrow> i + n \<le> length (sv_bytes v) \<Longrightarrow>
     rc_send_some a d i n s = Some (s\<lparr>
       rc_sessions := (rc_sessions s)(a \<mapsto> sent @ take n (drop i (sv_bytes v))),
       rc_ops := remove1 (Rc_write a d i) (rc_ops s) @ [Rc_write a d (i + n)]\<rparr>)"
  by (simp add: rc_send_some_def read_buffer_def rc_begin_def rc_finish_def)

lemma rc_op_frame:
  assumes "rc_op_ok clock s p"
    and "\<And>a. a \<in> set (op_session p) \<Longrightarrow> rc_sessions t a = rc_sessions s a"
    and "\<And>d. d \<in> set (op_vector p) \<Longrightarrow> rc_store t d = rc_store s d"
  shows "rc_op_ok clock t p"
  using assms by (cases p) (simp_all add: rc_op_ok_def)

lemma remove1_split:
  assumes "x \<in> set xs"
  obtains us vs where "xs = us @ x # vs" "remove1 x xs = us @ vs"
  using assms split_list_first [of x xs] by (auto simp: remove1_append)

text \<open>Every step keeps the invariant.\<close>

lemma rc_accepted_ok:
  assumes ok: "rc_ok clock 1 s" and p: "Rc_accept \<in> set (rc_ops s)" and now: "now \<in> clock"
    and fresh: "rc_store s d = None" "rc_sessions s a = None"
  shows "\<exists>t. rc_on_accept now d ec a (rc_finish Rc_accept s) = Some t \<and> rc_ok clock 1 t"
proof -
  obtain us vs where o: "rc_ops s = us @ Rc_accept # vs" "remove1 Rc_accept (rc_ops s) = us @ vs"
    by (rule remove1_split [OF p])
  have ad: "a \<notin> set (concat (map op_session (us @ vs)))" "d \<notin> set (concat (map op_vector (us @ vs)))"
    using ok fresh o(1) unfolding rc_ok_def by (fastforce simp: domIff)+
  let ?t = "s\<lparr>rc_sessions := (rc_sessions s)(a \<mapsto> []),
      rc_store := (rc_store s)(d \<mapsto> \<lparr>sv_bytes = make_daytime_string now, sv_uses = 1\<rparr>), rc_ops := (us @ vs) @ [Rc_write a d 0, Rc_accept]\<rparr>"
  have "rc_op_ok clock ?t q" if "q \<in> set (us @ vs)" for q
    using ok that o(1) ad by (intro rc_op_frame [of clock s q ?t]) (auto simp: rc_ok_def)
  moreover have "rc_op_ok clock ?t (Rc_write a d 0)"
    using now by (auto simp: rc_op_ok_def)
  ultimately have "rc_ok clock 1 ?t"
    using ok o(1) ad by (auto simp: rc_ok_def rc_op_ok_def)
  moreover have "rc_ok clock 1 (s\<lparr>rc_ops := (us @ vs) @ [Rc_accept]\<rparr>)"
    using ok o(1) by (auto simp: rc_ok_def intro: rc_op_frame [of clock s])
  ultimately show ?thesis
    using o(2) by (auto simp: rc_on_accept_def rc_start_def rc_do_write_eq rc_new_session_def
        rc_do_accept_def rc_begin_def rc_finish_def)
qed

lemma rc_write_held:
  assumes ok: "rc_ok clock n s" and p: "Rc_write a d i \<in> set (rc_ops s)"
  obtains us vs now where "rc_ops s = us @ Rc_write a d i # vs"
    "remove1 (Rc_write a d i) (rc_ops s) = us @ vs" "now \<in> clock"
    "rc_store s d = Some \<lparr>sv_bytes = make_daytime_string now, sv_uses = 1\<rparr>"
    "i \<le> length (make_daytime_string now)" "rc_sessions s a = Some (take i (make_daytime_string now))"
    "a \<notin> set (concat (map op_session (us @ vs)))" "d \<notin> set (concat (map op_vector (us @ vs)))"
proof -
  obtain us vs where o: "rc_ops s = us @ Rc_write a d i # vs"
      "remove1 (Rc_write a d i) (rc_ops s) = us @ vs"
    by (rule remove1_split [OF p])
  moreover have "rc_op_ok clock s (Rc_write a d i)" using ok p by (simp add: rc_ok_def)
  moreover have "a \<notin> set (concat (map op_session (us @ vs)))"
    "d \<notin> set (concat (map op_vector (us @ vs)))"
    using ok o(1) by (auto simp: rc_ok_def)
  ultimately show thesis using that by (auto simp: rc_op_ok_def)
qed

lemma rc_sent_some_ok:
  assumes ok: "rc_ok clock m s" and p: "Rc_write a d i \<in> set (rc_ops s)"
    and v: "rc_store s d = Some v" "i + n \<le> length (sv_bytes v)"
  shows "\<exists>t. rc_send_some a d i n s = Some t \<and> rc_ok clock m t"
proof -
  obtain us vs now where w: "rc_ops s = us @ Rc_write a d i # vs"
    "remove1 (Rc_write a d i) (rc_ops s) = us @ vs" "now \<in> clock"
    "rc_store s d = Some \<lparr>sv_bytes = make_daytime_string now, sv_uses = 1\<rparr>"
    "i \<le> length (make_daytime_string now)" "rc_sessions s a = Some (take i (make_daytime_string now))"
    "a \<notin> set (concat (map op_session (us @ vs)))" "d \<notin> set (concat (map op_vector (us @ vs)))"
    by (rule rc_write_held [OF ok p])
  let ?t = "s\<lparr>rc_sessions := (rc_sessions s)(a \<mapsto> take (i + n) (make_daytime_string now)),
      rc_ops := (us @ vs) @ [Rc_write a d (i + n)]\<rparr>"
  have bytes: "sv_bytes v = make_daytime_string now" using v(1) w(4) by auto
  have "rc_op_ok clock ?t q" if "q \<in> set (us @ vs)" for q
    using ok that w(1,7,8) by (intro rc_op_frame [of clock s q ?t]) (auto simp: rc_ok_def)
  moreover have "rc_op_ok clock ?t (Rc_write a d (i + n))"
    using v(2) w(3,4) bytes by (auto simp: rc_op_ok_def)
  ultimately have "rc_ok clock m ?t"
    using ok w(1,7,8) by (auto simp: rc_ok_def)
  then show ?thesis
    using rc_send_some_eq [OF v(1) w(6) v(2)] bytes w(2) by (simp add: take_add)
qed

lemma rc_written_ok:
  assumes ok: "rc_ok clock m s" and p: "Rc_write a d i \<in> set (rc_ops s)"
    and v: "rc_store s d = Some v" "ec = No_error \<longrightarrow> i = length (sv_bytes v)"
  shows "\<exists>t. rc_on_write a d i ec s = Some t \<and> rc_ok clock m t"
proof -
  obtain us vs now where w: "rc_ops s = us @ Rc_write a d i # vs"
    "remove1 (Rc_write a d i) (rc_ops s) = us @ vs" "now \<in> clock"
    "rc_store s d = Some \<lparr>sv_bytes = make_daytime_string now, sv_uses = 1\<rparr>"
    "i \<le> length (make_daytime_string now)" "rc_sessions s a = Some (take i (make_daytime_string now))"
    "a \<notin> set (concat (map op_session (us @ vs)))" "d \<notin> set (concat (map op_vector (us @ vs)))"
    by (rule rc_write_held [OF ok p])
  let ?t = "s\<lparr>rc_store := (rc_store s)(d := None), rc_sessions := (rc_sessions s)(a := None),
      rc_ops := us @ vs, rc_served := rc_served s @ [(ec, take i (make_daytime_string now))]\<rparr>"
  have bytes: "sv_bytes v = make_daytime_string now" using v(1) w(4) by auto
  have "rc_op_ok clock ?t q" if "q \<in> set (us @ vs)" for q
    using ok that w(1,7,8) by (intro rc_op_frame [of clock s q ?t]) (auto simp: rc_ok_def)
  moreover have "prefix (take i (make_daytime_string now)) (make_daytime_string now)"
    "ec = No_error \<longrightarrow> take i (make_daytime_string now) = make_daytime_string now"
    using v(2) bytes by (simp_all add: take_is_prefix)
  ultimately have "rc_ok clock m ?t"
    using ok w(1,3,7,8) by (auto simp: rc_ok_def)
  then show ?thesis using rc_on_write_eq [OF w(4,6)] w(2) by simp
qed

lemma rc_reachable_ok: "rc_reachable clock s \<Longrightarrow> rc_ok clock 1 s"
proof (induction rule: rc_reachable.induct)
  case rc_init
  show ?case by (simp add: new_rc_server_def rc_do_accept_def rc_begin_def rc_ok_def rc_op_ok_def)
next
  case (rc_accepted s now d a ec t)
  then show ?case using rc_accepted_ok [of clock s now d a ec] by auto
next
  case (rc_sent_some s a d i v n t)
  then show ?case using rc_sent_some_ok [of clock 1 s a d i v n] by auto
next
  case (rc_written s a d i v ec t)
  then show ?case using rc_written_ok [of clock 1 s a d i v ec] by auto
qed

lemma rc_served_prefix:
  assumes "rc_reachable clock s" "(ec, sent) \<in> set (rc_served s)"
  shows "\<exists>now \<in> clock. prefix sent (make_daytime_string now)
    \<and> (ec = No_error \<longrightarrow> sent = make_daytime_string now)"
  using rc_reachable_ok [OF assms(1)] assms(2) by (auto simp: rc_ok_def)

interpretation rc_time: time_service clock "rc_reachable clock" "\<lambda>s. snd ` set (rc_served s)" for clock
  by unfold_locales (use rc_served_prefix in fastforce)

section \<open>Properties\<close>

text \<open>
  Property C18. The reference count does its work: in every reachable state the vectors that are
  alive are exactly those of the outstanding writes, each used once, so none is freed under a
  write or leaked, and every read through a buffer and every completion is defined.
\<close>

theorem shared_buffers_outlive_writes:
  assumes "rc_reachable clock s"
  shows "dom (rc_store s) = {d. \<exists>a i. Rc_write a d i \<in> set (rc_ops s)}
    \<and> (\<forall>a d i ec. Rc_write a d i \<in> set (rc_ops s) \<longrightarrow>
         (\<exists>v. rc_store s d = Some v \<and> sv_uses v = 1
            \<and> (\<forall>n. i + n \<le> length (sv_bytes v) \<longrightarrow> rc_send_some a d i n s \<noteq> None))
         \<and> rc_on_write a d i ec s \<noteq> None)"
proof -
  have ok: "rc_ok clock 1 s" by (rule rc_reachable_ok [OF assms])
  have vec: "d \<in> set (op_vector p) \<longleftrightarrow> (\<exists>a i. p = Rc_write a d i)" for d p by (cases p) auto
  have "dom (rc_store s) = {d. \<exists>p \<in> set (rc_ops s). d \<in> set (op_vector p)}"
    using ok by (auto simp: rc_ok_def)
  then have "dom (rc_store s) = {d. \<exists>a i. Rc_write a d i \<in> set (rc_ops s)}"
    unfolding vec by blast
  moreover have "(\<exists>v. rc_store s d = Some v \<and> sv_uses v = 1
      \<and> (\<forall>n. i + n \<le> length (sv_bytes v) \<longrightarrow> rc_send_some a d i n s \<noteq> None))
      \<and> rc_on_write a d i ec s \<noteq> None" if p: "Rc_write a d i \<in> set (rc_ops s)" for a d i ec
    by (rule rc_write_held [OF ok p]) (simp add: rc_send_some_eq rc_on_write_eq)
  ultimately show ?thesis by blast
qed

text \<open>An example: a client is accepted and gets the whole text.\<close>

definition rc_writing :: rc_state where
  "rc_writing = \<lparr>rc_store = (\<lambda>_. None)(1 \<mapsto> \<lparr>sv_bytes = make_daytime_string 0, sv_uses = 1\<rparr>),
     rc_sessions = (\<lambda>_. None)(2 \<mapsto> []), rc_ops = [Rc_write 2 1 0, Rc_accept], rc_served = []\<rparr>"

lemma rc_writing_reachable: "rc_reachable {0} rc_writing"
  by (rule rc_accepted [OF rc_init, where now = 0 and d = 1 and a = 2 and ec = No_error])
     (simp_all add: new_rc_server_def rc_do_accept_def rc_begin_def rc_finish_def rc_on_accept_def
       rc_start_def rc_do_write_eq rc_new_session_def rc_writing_def)

definition rc_done :: rc_state where
  "rc_done = \<lparr>rc_store = (\<lambda>_. None), rc_sessions = (\<lambda>_. None), rc_ops = [Rc_accept],
     rc_served = [(No_error, make_daytime_string 0)]\<rparr>"

lemma rc_done_reachable: "rc_reachable {0} rc_done"
proof -
  let ?n = "length (make_daytime_string 0)"
  let ?t = "rc_writing\<lparr>rc_sessions := (\<lambda>_. None)(2 \<mapsto> make_daytime_string 0),
      rc_ops := [Rc_accept, Rc_write 2 1 ?n]\<rparr>"
  have "rc_send_some 2 1 0 ?n rc_writing = Some ?t"
    by (simp add: rc_send_some_eq rc_writing_def)
  then have "rc_reachable {0} ?t"
    by (rule rc_sent_some [OF rc_writing_reachable, rotated -1,
          where v = "\<lparr>sv_bytes = make_daytime_string 0, sv_uses = 1\<rparr>"])
       (simp_all add: rc_writing_def)
  moreover have "rc_on_write 2 1 ?n No_error ?t = Some rc_done"
    by (simp add: rc_on_write_eq rc_writing_def rc_done_def)
  moreover have "rc_store ?t 1 = Some \<lparr>sv_bytes = make_daytime_string 0, sv_uses = 1\<rparr>"
    "Rc_write 2 1 ?n \<in> set (rc_ops ?t)" by (simp_all add: rc_writing_def)
  ultimately show ?thesis using rc_written by fastforce
qed

theorem shared_buffers_outlive_writes_witness:
  "rc_send_some 2 1 0 10 rc_writing \<noteq> None \<and> rc_on_write 2 1 0 Eof rc_writing \<noteq> None
     \<and> dom (rc_store rc_done) = {}"
proof -
  have "Rc_write 2 1 0 \<in> set (rc_ops rc_writing)" by (simp add: rc_writing_def)
  then obtain v where "rc_store rc_writing 1 = Some v"
    "\<forall>n. 0 + n \<le> length (sv_bytes v) \<longrightarrow> rc_send_some 2 1 0 n rc_writing \<noteq> None"
    "rc_on_write 2 1 0 Eof rc_writing \<noteq> None"
    using shared_buffers_outlive_writes [OF rc_writing_reachable] by blast
  moreover have "rc_store rc_writing 1 = Some \<lparr>sv_bytes = make_daytime_string 0, sv_uses = 1\<rparr>"
    by (simp add: rc_writing_def)
  ultimately show ?thesis
    using shared_buffers_outlive_writes [OF rc_done_reachable] daytime_length [OF year_of_zero]
    by (auto simp: rc_done_def)
qed

text \<open>
  Every client of this server is sent a prefix of the text of a time the clock
  showed, and the whole text when its write succeeds; the server goes on accepting.
\<close>

theorem rc_clients_get_the_time:
  assumes "rc_reachable clock s" "(ec, sent) \<in> set (rc_served s)"
  shows "Rc_accept \<in> set (rc_ops s) \<and> (\<exists>now \<in> clock. prefix sent (make_daytime_string now)
    \<and> (ec = No_error \<longrightarrow> sent = make_daytime_string now))"
  using rc_reachable_ok [OF assms(1)] rc_served_prefix [OF assms]
    count_list_pos [of Rc_accept "rc_ops s"] by (simp add: rc_ok_def)

theorem rc_clients_get_the_time_witness:
  "\<exists>now \<in> {0}. prefix (make_daytime_string 0) (make_daytime_string now)"
proof -
  have "(No_error, make_daytime_string 0) \<in> set (rc_served rc_done)" by (simp add: rc_done_def)
  from rc_clients_get_the_time [OF rc_done_reachable this] show ?thesis by auto
qed

end
