(* ===== verification/Http_Message.thy ===== *)
theory Http_Message
  imports Cxx_Prelude
begin

text \<open>
  The data the HTTP server's parser fills in: \<open>struct header\<close> (http_server/header.hpp) and
  \<open>struct request\<close> (http_server/request.hpp). The two version numbers are plain \<open>int\<close>
  members that no constructor sets, so they are \<open>None\<close> (indeterminate) until the parser
  assigns them.
\<close>

record http_header =
  header_name :: string
  header_value :: string

record request =
  req_method :: string
  req_uri :: string
  req_http_version_major :: "int option"
  req_http_version_minor :: "int option"
  req_headers :: "http_header list"

definition empty_header :: http_header where
  "empty_header = \<lparr>header_name = [], header_value = []\<rparr>"

text \<open>The request member of a connection as its implicit constructor leaves it.\<close>

definition empty_request :: request where
  "empty_request =
     \<lparr>req_method = [], req_uri = [], req_http_version_major = None,
      req_http_version_minor = None, req_headers = []\<rparr>"

text \<open>
  \<open>headers.back()\<close> on an empty vector is undefined, which is \<open>None\<close> here; otherwise the
  last header is changed in place.
\<close>

definition update_back :: "(http_header \<Rightarrow> http_header) \<Rightarrow> request \<Rightarrow> request option" where
  "update_back f r =
     (if req_headers r = [] then None
      else Some (r\<lparr>req_headers := butlast (req_headers r) @ [f (last (req_headers r))]\<rparr>))"

definition back_name_push :: "char \<Rightarrow> request \<Rightarrow> request option" where
  "back_name_push c r = update_back (\<lambda>h. h\<lparr>header_name := header_name h @ [c]\<rparr>) r"

definition back_value_push :: "char \<Rightarrow> request \<Rightarrow> request option" where
  "back_value_push c r = update_back (\<lambda>h. h\<lparr>header_value := header_value h @ [c]\<rparr>) r"

lemma back_name_push_snoc [simp]:
  "back_name_push c (r\<lparr>req_headers := hs @ [h]\<rparr>) =
     Some (r\<lparr>req_headers := hs @ [h\<lparr>header_name := header_name h @ [c]\<rparr>]\<rparr>)"
  by (simp add: back_name_push_def update_back_def)

lemma back_value_push_snoc [simp]:
  "back_value_push c (r\<lparr>req_headers := hs @ [h]\<rparr>) =
     Some (r\<lparr>req_headers := hs @ [h\<lparr>header_value := header_value h @ [c]\<rparr>]\<rparr>)"
  by (simp add: back_value_push_def update_back_def)

lemma back_push_None_iff:
  "back_name_push c r = None \<longleftrightarrow> req_headers r = []"
  "back_value_push c r = None \<longleftrightarrow> req_headers r = []"
  by (simp_all add: back_name_push_def back_value_push_def update_back_def)

lemma back_push_headers:
  "back_name_push c r = Some r' \<Longrightarrow> req_headers r' \<noteq> []"
  "back_value_push c r = Some r' \<Longrightarrow> req_headers r' \<noteq> []"
  by (auto simp: back_name_push_def back_value_push_def update_back_def split: if_splits)

lemma back_push_frame:
  "back_name_push c r = Some r' \<Longrightarrow>
     req_method r' = req_method r \<and> req_uri r' = req_uri r
     \<and> req_http_version_major r' = req_http_version_major r
     \<and> req_http_version_minor r' = req_http_version_minor r"
  "back_value_push c r = Some r' \<Longrightarrow>
     req_method r' = req_method r \<and> req_uri r' = req_uri r
     \<and> req_http_version_major r' = req_http_version_major r
     \<and> req_http_version_minor r' = req_http_version_minor r"
  by (auto simp: back_name_push_def back_value_push_def update_back_def split: if_splits)

end
