(* ===== verification/Incremental_Machine.thy ===== *)
theory Incremental_Machine
  imports Cxx_Prelude
begin

text \<open>
  The interface of a machine that is fed a byte stream piece by piece, as a network handler
  is: a step on one byte, an outcome that asks for more input, and a loop that stops at the
  first other outcome. The lemmas say that how the stream is cut into pieces does not matter.
\<close>

text \<open>
  Feeding a list of pieces: the next piece is given only while the outcome is \<open>more\<close>; what
  follows the piece in which the machine stopped is dropped.
\<close>

fun feed ::
    "('s \<Rightarrow> string \<Rightarrow> ('o \<times> string \<times> 's) option) \<Rightarrow> 'o \<Rightarrow> 's \<Rightarrow> string list
     \<Rightarrow> ('o \<times> 's) option" where
  "feed run more s [] = Some (more, s)"
| "feed run more s (x # xs) =
     (case run s x of
        None \<Rightarrow> None
      | Some (out, rest, s') \<Rightarrow> if out = more then feed run more s' xs else Some (out, s'))"

locale incremental_machine =
  fixes step :: "'s \<Rightarrow> char \<Rightarrow> ('o \<times> 's) option"
    and more :: 'o
    and run :: "'s \<Rightarrow> string \<Rightarrow> ('o \<times> string \<times> 's) option"
  assumes run_Nil: "run s [] = Some (more, [], s)"
    and run_Cons: "run s (c # cs) =
      (case step s c of
         None \<Rightarrow> None
       | Some (out, s') \<Rightarrow> if out = more then run s' cs else Some (out, cs, s'))"
begin

lemma run_append:
  "run s (xs @ ys) =
     (case run s xs of
        None \<Rightarrow> None
      | Some (out, rest, s') \<Rightarrow> if out = more then run s' ys else Some (out, rest @ ys, s'))"
  by (induction xs arbitrary: s) (auto simp: run_Nil run_Cons split: option.splits)

lemma run_rest_suffix: "run s xs = Some (out, rest, s') \<Longrightarrow> suffix rest xs"
  by (induction xs arbitrary: s)
     (auto simp: run_Nil run_Cons intro: suffix_ConsI split: option.splits if_splits)

lemma run_more_rest: "run s xs = Some (more, rest, s') \<Longrightarrow> rest = []"
  by (induction xs arbitrary: s) (auto simp: run_Nil run_Cons split: option.splits if_splits)

lemma run_progress: "run s xs = Some (out, rest, s') \<Longrightarrow> out \<noteq> more \<Longrightarrow> length rest < length xs"
  by (induction xs arbitrary: s)
     (auto simp: run_Nil run_Cons less_SucI split: option.splits if_splits)

lemma feed_eq_run:
  "feed run more s xss = map_option (\<lambda>(out, rest, s'). (out, s')) (run s (concat xss))"
proof (induction xss arbitrary: s)
  case Nil
  then show ?case by (simp add: run_Nil)
next
  case (Cons xs xss)
  then show ?case by (auto simp: run_append split: option.splits)
qed

lemma feed_split_irrelevant: "concat xss = concat yss \<Longrightarrow> feed run more s xss = feed run more s yss"
  by (simp add: feed_eq_run)

lemma run_invariant:
  assumes step_inv: "\<And>s c out s'. I s \<Longrightarrow> step s c = Some (out, s') \<Longrightarrow> I s'"
    and "I s" and "run s xs = Some (out, rest, s')"
  shows "I s'"
  using assms(2, 3)
proof (induction xs arbitrary: s)
  case Nil
  then show ?case by (simp add: run_Nil)
next
  case (Cons c cs)
  from Cons.prems(2) obtain out1 s1 where
    one: "step s c = Some (out1, s1)"
      "if out1 = more then run s1 cs = Some (out, rest, s') else s1 = s'"
    by (auto simp: run_Cons split: option.splits if_splits)
  from Cons.prems(1) one(1) have "I s1" by (rule step_inv)
  with one(2) Cons.IH show ?case by (auto split: if_splits)
qed

end

end
