(* ===== verification/Http_Request_Parser.thy ===== *)
theory Http_Request_Parser
  imports Http_Message Incremental_Machine
begin

text \<open>
  The incremental request parser, \<open>class request_parser\<close> of http_server/request_parser.hpp
  and request_parser.cpp: the character classes, \<open>consume\<close> (one character of the state
  machine), the template loop \<open>parse\<close>, and what every call keeps true. \<open>None\<close> stands
  for undefined behaviour: \<open>headers.back()\<close> of an empty vector, a version number read
  before it is set, or a version number that overflows \<open>int\<close>.
\<close>

section \<open>Character classes\<close>

definition is_char :: "int \<Rightarrow> bool" where
  "is_char c \<longleftrightarrow> c \<ge> 0 \<and> c \<le> 127"

definition is_ctl :: "int \<Rightarrow> bool" where
  "is_ctl c \<longleftrightarrow> (c \<ge> 0 \<and> c \<le> 31) \<or> c = 127"

definition is_tspecial :: "int \<Rightarrow> bool" where
  "is_tspecial c \<longleftrightarrow>
     c \<in> char_to_int ` {CHR ''('', CHR '')'', CHR ''<'', CHR ''>'', CHR ''@'',
       CHR '','', CHR '';'', CHR '':'', CHR 0x5C, CHR 0x22,
       CHR ''/'', CHR ''['', CHR '']'', CHR ''?'', CHR ''='',
       CHR ''{'', CHR ''}'', CHR '' '', TAB}"

definition is_digit :: "int \<Rightarrow> bool" where
  "is_digit c \<longleftrightarrow> c \<ge> char_to_int CHR ''0'' \<and> c \<le> char_to_int CHR ''9''"

section \<open>The state machine\<close>

datatype result_type = Good | Bad | Indeterminate

datatype parser_state =
    Method_start
  | Method
  | Uri
  | Http_version_h
  | Http_version_t_1
  | Http_version_t_2
  | Http_version_p
  | Http_version_slash
  | Http_version_major_start
  | Http_version_major
  | Http_version_minor_start
  | Http_version_minor
  | Expecting_newline_1
  | Header_line_start
  | Header_lws
  | Header_name
  | Space_before_header_value
  | Header_value
  | Expecting_newline_2
  | Expecting_newline_3

text \<open>\<open>request_parser()\<close> and \<open>reset()\<close>: only the state is set, never the request.\<close>

definition new_parser :: parser_state where
  "new_parser = Method_start"

definition reset :: "parser_state \<Rightarrow> parser_state" where
  "reset st = Method_start"

text \<open>
  \<open>version * 10 + input - '0'\<close>, evaluated from the left in \<open>int\<close>: every intermediate
  result must fit, and the version must have been set.
\<close>

definition push_digit :: "int option \<Rightarrow> char \<Rightarrow> int option" where
  "push_digit version input = do {
     v \<leftarrow> version;
     a \<leftarrow> c_int (v * 10);
     b \<leftarrow> c_int (a + char_to_int input);
     c_int (b - char_to_int CHR ''0'')
   }"

definition push_major :: "char \<Rightarrow> request \<Rightarrow> request option" where
  "push_major input r = do {
     v \<leftarrow> push_digit (req_http_version_major r) input;
     Some (r\<lparr>req_http_version_major := Some v\<rparr>)
   }"

definition push_minor :: "char \<Rightarrow> request \<Rightarrow> request option" where
  "push_minor input r = do {
     v \<leftarrow> push_digit (req_http_version_minor r) input;
     Some (r\<lparr>req_http_version_minor := Some v\<rparr>)
   }"

text \<open>Return \<open>indeterminate\<close> in a new state, with the request some update produced.\<close>

definition continue_with ::
    "parser_state \<Rightarrow> request option \<Rightarrow> (result_type \<times> parser_state \<times> request) option" where
  "continue_with st r = map_option (\<lambda>r'. (Indeterminate, st, r')) r"

definition expect ::
    "char \<Rightarrow> parser_state \<Rightarrow> parser_state \<Rightarrow> request \<Rightarrow> char
     \<Rightarrow> (result_type \<times> parser_state \<times> request) option" where
  "expect x next st r input =
     (if input = x then Some (Indeterminate, next, r) else Some (Bad, st, r))"

fun consume ::
    "parser_state \<Rightarrow> request \<Rightarrow> char \<Rightarrow> (result_type \<times> parser_state \<times> request) option" where
  "consume Method_start r input =
     (if \<not> is_char (char_to_int input) \<or> is_ctl (char_to_int input)
         \<or> is_tspecial (char_to_int input)
      then Some (Bad, Method_start, r)
      else Some (Indeterminate, Method, r\<lparr>req_method := req_method r @ [input]\<rparr>))"
| "consume Method r input =
     (if input = CHR '' '' then Some (Indeterminate, Uri, r)
      else if \<not> is_char (char_to_int input) \<or> is_ctl (char_to_int input)
         \<or> is_tspecial (char_to_int input)
      then Some (Bad, Method, r)
      else Some (Indeterminate, Method, r\<lparr>req_method := req_method r @ [input]\<rparr>))"
| "consume Uri r input =
     (if input = CHR '' '' then Some (Indeterminate, Http_version_h, r)
      else if is_ctl (char_to_int input) then Some (Bad, Uri, r)
      else Some (Indeterminate, Uri, r\<lparr>req_uri := req_uri r @ [input]\<rparr>))"
| "consume Http_version_h r input = expect CHR ''H'' Http_version_t_1 Http_version_h r input"
| "consume Http_version_t_1 r input = expect CHR ''T'' Http_version_t_2 Http_version_t_1 r input"
| "consume Http_version_t_2 r input = expect CHR ''T'' Http_version_p Http_version_t_2 r input"
| "consume Http_version_p r input = expect CHR ''P'' Http_version_slash Http_version_p r input"
| "consume Http_version_slash r input =
     (if input = CHR ''/''
      then Some (Indeterminate, Http_version_major_start,
             r\<lparr>req_http_version_major := Some 0, req_http_version_minor := Some 0\<rparr>)
      else Some (Bad, Http_version_slash, r))"
| "consume Http_version_major_start r input =
     (if is_digit (char_to_int input)
      then continue_with Http_version_major (push_major input r)
      else Some (Bad, Http_version_major_start, r))"
| "consume Http_version_major r input =
     (if input = CHR ''.'' then Some (Indeterminate, Http_version_minor_start, r)
      else if is_digit (char_to_int input)
      then continue_with Http_version_major (push_major input r)
      else Some (Bad, Http_version_major, r))"
| "consume Http_version_minor_start r input =
     (if is_digit (char_to_int input)
      then continue_with Http_version_minor (push_minor input r)
      else Some (Bad, Http_version_minor_start, r))"
| "consume Http_version_minor r input =
     (if input = CR then Some (Indeterminate, Expecting_newline_1, r)
      else if is_digit (char_to_int input)
      then continue_with Http_version_minor (push_minor input r)
      else Some (Bad, Http_version_minor, r))"
| "consume Expecting_newline_1 r input =
     expect LF Header_line_start Expecting_newline_1 r input"
| "consume Header_line_start r input =
     (if input = CR then Some (Indeterminate, Expecting_newline_3, r)
      else if req_headers r \<noteq> [] \<and> (input = CHR '' '' \<or> input = TAB)
      then Some (Indeterminate, Header_lws, r)
      else if \<not> is_char (char_to_int input) \<or> is_ctl (char_to_int input)
         \<or> is_tspecial (char_to_int input)
      then Some (Bad, Header_line_start, r)
      else continue_with Header_name
             (back_name_push input (r\<lparr>req_headers := req_headers r @ [empty_header]\<rparr>)))"
| "consume Header_lws r input =
     (if input = CR then Some (Indeterminate, Expecting_newline_2, r)
      else if input = CHR '' '' \<or> input = TAB then Some (Indeterminate, Header_lws, r)
      else if is_ctl (char_to_int input) then Some (Bad, Header_lws, r)
      else continue_with Header_value (back_value_push input r))"
| "consume Header_name r input =
     (if input = CHR '':'' then Some (Indeterminate, Space_before_header_value, r)
      else if \<not> is_char (char_to_int input) \<or> is_ctl (char_to_int input)
         \<or> is_tspecial (char_to_int input)
      then Some (Bad, Header_name, r)
      else continue_with Header_name (back_name_push input r))"
| "consume Space_before_header_value r input =
     expect CHR '' '' Header_value Space_before_header_value r input"
| "consume Header_value r input =
     (if input = CR then Some (Indeterminate, Expecting_newline_2, r)
      else if is_ctl (char_to_int input) then Some (Bad, Header_value, r)
      else continue_with Header_value (back_value_push input r))"
| "consume Expecting_newline_2 r input =
     expect LF Header_line_start Expecting_newline_2 r input"
| "consume Expecting_newline_3 r input =
     (if input = LF then Some (Good, Expecting_newline_3, r)
      else Some (Bad, Expecting_newline_3, r))"

text \<open>
  The member template \<open>parse\<close> over a range of characters: the result, the characters
  left in the range, and the parser and the request as it leaves them.
\<close>

fun parse ::
    "parser_state \<Rightarrow> request \<Rightarrow> string
     \<Rightarrow> (result_type \<times> string \<times> parser_state \<times> request) option" where
  "parse st r [] = Some (Indeterminate, [], st, r)"
| "parse st r (c # s) =
     (case consume st r c of
        None \<Rightarrow> None
      | Some (result, st', r') \<Rightarrow>
          if result = Good \<or> result = Bad then Some (result, s, st', r')
          else parse st' r' s)"

section \<open>Arithmetic of the version numbers\<close>

lemma is_digit_is_dec [simp]: "is_digit (char_to_int c) \<longleftrightarrow> is_dec c"
  by (simp add: is_digit_def is_dec_def char_to_int_def)

lemma push_digit_eq:
  assumes "is_dec c" "0 \<le> v" "v \<le> int_max"
  shows "push_digit (Some v) c =
    (if v * 10 + char_to_int c \<le> int_max then Some (v * 10 + (char_to_int c - 48)) else None)"
proof -
  have zero: "char_to_int CHR ''0'' = 48"
    by (simp add: char_to_int_def)
  from assms show ?thesis
    by (auto simp: push_digit_def c_int_def zero is_dec_def int_max_def int_min_def
        split: bind_splits)
qed

section \<open>The parser's invariant\<close>

text \<open>
  In the states inside a header line there is a header to extend, and in the states of the
  version both numbers have been set to something an \<open>int\<close> holds.
\<close>

definition in_header :: "parser_state \<Rightarrow> bool" where
  "in_header st \<longleftrightarrow>
     st \<in> {Header_lws, Header_name, Space_before_header_value, Header_value, Expecting_newline_2}"

definition in_version :: "parser_state \<Rightarrow> bool" where
  "in_version st \<longleftrightarrow>
     st \<in> {Http_version_major_start, Http_version_major, Http_version_minor_start,
       Http_version_minor}"

definition version_ok :: "int option \<Rightarrow> bool" where
  "version_ok v \<longleftrightarrow> (case v of None \<Rightarrow> False | Some n \<Rightarrow> 0 \<le> n \<and> n \<le> int_max)"

definition parser_ok :: "parser_state \<Rightarrow> request \<Rightarrow> bool" where
  "parser_ok st r \<longleftrightarrow>
     (in_header st \<longrightarrow> req_headers r \<noteq> [])
     \<and> (in_version st \<longrightarrow> version_ok (req_http_version_major r)
         \<and> version_ok (req_http_version_minor r))"

text \<open>The only way a step from such a state is undefined: a version number grows too large.\<close>

definition version_overflow :: "int option \<Rightarrow> char \<Rightarrow> bool" where
  "version_overflow v c \<longleftrightarrow>
     is_dec c \<and> (case v of None \<Rightarrow> False | Some n \<Rightarrow> n * 10 + char_to_int c > int_max)"

definition overflowing_step :: "parser_state \<Rightarrow> request \<Rightarrow> char \<Rightarrow> bool" where
  "overflowing_step st r c \<longleftrightarrow>
     (st \<in> {Http_version_major_start, Http_version_major}
       \<and> version_overflow (req_http_version_major r) c)
     \<or> (st \<in> {Http_version_minor_start, Http_version_minor}
       \<and> version_overflow (req_http_version_minor r) c)"

lemma push_digit_ok:
  "version_ok v \<Longrightarrow> is_dec c \<Longrightarrow> push_digit v c = Some w \<Longrightarrow> version_ok (Some w)"
  by (cases v) (auto simp: version_ok_def push_digit_eq is_dec_def split: if_splits)

lemma push_digit_None_iff:
  "version_ok v \<Longrightarrow> is_dec c \<Longrightarrow> push_digit v c = None \<longleftrightarrow> version_overflow v c"
  by (cases v) (auto simp: version_ok_def version_overflow_def push_digit_eq)

lemma separators_not_dec [simp]: "\<not> is_dec CHR ''.''" "\<not> is_dec CR" "\<not> is_dec LF"
  by (simp_all add: is_dec_def char_to_int_def)

lemma version_overflow_digit: "version_overflow v c \<Longrightarrow> is_dec c"
  by (simp add: version_overflow_def)

lemma push_version_ok:
  "push_major c r = Some r' \<Longrightarrow> is_dec c \<Longrightarrow> version_ok (req_http_version_major r) \<Longrightarrow>
     version_ok (req_http_version_major r')"
  "push_minor c r = Some r' \<Longrightarrow> is_dec c \<Longrightarrow> version_ok (req_http_version_minor r) \<Longrightarrow>
     version_ok (req_http_version_minor r')"
  by (auto simp: push_major_def push_minor_def split: bind_splits dest: push_digit_ok)

lemma push_version_frame:
  "push_major c r = Some r' \<Longrightarrow>
     req_http_version_minor r' = req_http_version_minor r \<and> req_headers r' = req_headers r"
  "push_minor c r = Some r' \<Longrightarrow>
     req_http_version_major r' = req_http_version_major r \<and> req_headers r' = req_headers r"
  by (auto simp: push_major_def push_minor_def split: bind_splits)

lemma version_ok_simps [simp]: "version_ok (Some 0)" "\<not> version_ok None"
  by (simp_all add: version_ok_def int_max_def)

lemma push_version_None_iff:
  "push_major c r = None \<longleftrightarrow> push_digit (req_http_version_major r) c = None"
  "push_minor c r = None \<longleftrightarrow> push_digit (req_http_version_minor r) c = None"
  by (auto simp: push_major_def push_minor_def split: bind_splits)

lemmas parser_ok_defs = parser_ok_def in_header_def in_version_def continue_with_def expect_def

lemma new_parser_ok: "parser_ok new_parser r"
  by (simp add: parser_ok_defs new_parser_def)

lemma reset_ok: "parser_ok (reset st) r"
  by (simp add: parser_ok_defs reset_def)

lemma consume_ok:
  "parser_ok st r \<Longrightarrow> consume st r c = Some (out, st', r') \<Longrightarrow> parser_ok st' r'"
  by (cases st)
     (auto simp: parser_ok_defs dest: back_push_headers push_version_ok push_version_frame
       split: if_splits)

lemma consume_None_iff:
  "parser_ok st r \<Longrightarrow> consume st r c = None \<longleftrightarrow> overflowing_step st r c"
  by (cases st)
     (auto simp: parser_ok_defs overflowing_step_def back_name_push_def back_value_push_def
       update_back_def push_version_None_iff
       push_digit_None_iff dest: version_overflow_digit)

section \<open>The loop\<close>

text \<open>\<open>parse\<close> is the run of an incremental machine whose state is the parser and the request.\<close>

interpretation http_parse: incremental_machine
  "\<lambda>(st, r) c. consume st r c" Indeterminate "\<lambda>(st, r) s. parse st r s"
proof unfold_locales
  fix s :: "parser_state \<times> request" and c cs
  show "(case s of (st, r) \<Rightarrow> \<lambda>s. parse st r s) [] = Some (Indeterminate, [], s)"
    by (cases s) simp
  have "out = Good \<or> out = Bad \<longleftrightarrow> out \<noteq> Indeterminate" for out
    by (cases out) auto
  then show "(case s of (st, r) \<Rightarrow> \<lambda>s. parse st r s) (c # cs) =
    (case (case s of (st, r) \<Rightarrow> \<lambda>c. consume st r c) c of
       None \<Rightarrow> None
     | Some (out, s') \<Rightarrow>
         if out = Indeterminate then (case s' of (st, r) \<Rightarrow> \<lambda>s. parse st r s) cs
         else Some (out, cs, s'))"
    by (cases s) (auto split: option.splits)
qed

lemma parse_append:
  "parse st r (xs @ ys) =
     (case parse st r xs of
        None \<Rightarrow> None
      | Some (out, rest, st', r') \<Rightarrow>
          if out = Indeterminate then parse st' r' ys else Some (out, rest @ ys, st', r'))"
  using http_parse.run_append [of "(st, r)" xs ys] by (simp split: option.splits prod.splits)

lemma parse_ok:
  "parser_ok st r \<Longrightarrow> parse st r s = Some (out, rest, st', r') \<Longrightarrow> parser_ok st' r'"
  using http_parse.run_invariant
    [where I = "\<lambda>(st, r). parser_ok st r" and s = "(st, r)" and s' = "(st', r')"
      and xs = s and out = out and rest = rest]
  by (auto intro: consume_ok)

lemma parse_None_iff:
  assumes "parser_ok st r"
  shows "parse st r s = None \<longleftrightarrow>
    (\<exists>xs c ys st' r'. s = xs @ c # ys \<and> parse st r xs = Some (Indeterminate, [], st', r')
       \<and> overflowing_step st' r' c)" (is "_ \<longleftrightarrow> ?R st r s")
  using assms
proof (induction st r s rule: parse.induct)
  case (1 st r)
  then show ?case by simp
next
  case (2 st r c s)
  show ?case
  proof
    assume none: "parse st r (c # s) = None"
    show "?R st r (c # s)"
    proof (cases "consume st r c")
      case None
      with "2.prems" have "overflowing_step st r c" by (simp add: consume_None_iff)
      then have "c # s = [] @ c # s \<and> parse st r [] = Some (Indeterminate, [], st, r)
        \<and> overflowing_step st r c" by simp
      then show ?thesis by blast
    next
      case (Some z)
      obtain out st1 r1 where z: "z = (out, st1, r1)" by (metis prod_cases3)
      with Some none have ind: "out = Indeterminate" "parse st1 r1 s = None"
        by (auto split: if_splits) (cases out, auto)
      from "2.prems" Some z have "parser_ok st1 r1" by (auto dest: consume_ok)
      with "2.IH" Some z ind have "?R st1 r1 s" by auto
      then obtain xs d ys st' r' where
        "s = xs @ d # ys" "parse st1 r1 xs = Some (Indeterminate, [], st', r')"
        "overflowing_step st' r' d" by blast
      with Some z ind have "c # s = (c # xs) @ d # ys
        \<and> parse st r (c # xs) = Some (Indeterminate, [], st', r') \<and> overflowing_step st' r' d"
        by simp
      then show ?thesis by blast
    qed
  next
    assume "?R st r (c # s)"
    then obtain xs d ys st' r' where
      s: "c # s = xs @ d # ys" and xs: "parse st r xs = Some (Indeterminate, [], st', r')"
      and d: "overflowing_step st' r' d" by blast
    from "2.prems" xs have "parser_ok st' r'" by (rule parse_ok)
    with d have "consume st' r' d = None" by (simp add: consume_None_iff)
    with s xs show "parse st r (c # s) = None" by (simp only: parse_append) simp
  qed
qed

section \<open>Completing a prefix\<close>

text \<open>For every state, an input that ends the message there.\<close>

fun completion :: "parser_state \<Rightarrow> string" where
  "completion Expecting_newline_3 = [LF]"
| "completion Header_line_start = [CR, LF]"
| "completion Expecting_newline_2 = [LF, CR, LF]"
| "completion Header_value = [CR, LF, CR, LF]"
| "completion Header_lws = [CR, LF, CR, LF]"
| "completion Space_before_header_value = '' '' @ [CR, LF, CR, LF]"
| "completion Header_name = '': '' @ [CR, LF, CR, LF]"
| "completion Expecting_newline_1 = [LF, CR, LF]"
| "completion Http_version_minor = [CR, LF, CR, LF]"
| "completion Http_version_minor_start = ''0'' @ [CR, LF, CR, LF]"
| "completion Http_version_major = ''.0'' @ [CR, LF, CR, LF]"
| "completion Http_version_major_start = ''0.0'' @ [CR, LF, CR, LF]"
| "completion Http_version_slash = ''/0.0'' @ [CR, LF, CR, LF]"
| "completion Http_version_p = ''P/0.0'' @ [CR, LF, CR, LF]"
| "completion Http_version_t_2 = ''TP/0.0'' @ [CR, LF, CR, LF]"
| "completion Http_version_t_1 = ''TTP/0.0'' @ [CR, LF, CR, LF]"
| "completion Http_version_h = ''HTTP/0.0'' @ [CR, LF, CR, LF]"
| "completion Uri = '' HTTP/0.0'' @ [CR, LF, CR, LF]"
| "completion Method = ''  HTTP/0.0'' @ [CR, LF, CR, LF]"
| "completion Method_start = ''G  HTTP/0.0'' @ [CR, LF, CR, LF]"

text \<open>
  A version after which both fields are zero or small is enough: the completion starts a new
  number with the digit 0, or adds no digit.
\<close>

definition versions_fresh :: "parser_state \<Rightarrow> request \<Rightarrow> bool" where
  "versions_fresh st r \<longleftrightarrow>
     (st = Http_version_major_start \<longrightarrow> req_http_version_major r = Some 0)
     \<and> (st \<in> {Http_version_major_start, Http_version_major, Http_version_minor_start}
         \<longrightarrow> req_http_version_minor r = Some 0)"

lemma new_parser_versions_fresh: "versions_fresh new_parser r"
  by (simp add: versions_fresh_def new_parser_def)

lemma consume_versions_fresh:
  "versions_fresh st r \<Longrightarrow> consume st r c = Some (out, st', r') \<Longrightarrow> versions_fresh st' r'"
  by (cases st)
     (auto simp: versions_fresh_def expect_def continue_with_def dest: push_version_frame
       split: if_splits)

lemma push_zero [simp]: "push_digit (Some 0) CHR ''0'' = Some 0"
  by (simp add: push_digit_def c_int_def cxx_arith)

lemma zero_is_dec [simp]: "is_dec CHR ''0''"
  by (simp add: is_dec_def char_to_int_def)

lemma completion_accepted:
  assumes "versions_fresh st r"
  shows "\<exists>st' r'. parse st r (completion st) = Some (Good, [], st', r')"
  using assms
  by (cases st)
     (auto simp: versions_fresh_def expect_def continue_with_def push_major_def push_minor_def
       is_char_def is_ctl_def is_tspecial_def is_digit_def char_to_int_def)

text \<open>As long as the parser asks for more there is a continuation that it accepts.\<close>

lemma asks_for_more_viable:
  assumes "parse new_parser r s = Some (Indeterminate, rest, st', r')"
  shows "\<exists>t st'' r''. parse new_parser r (s @ t) = Some (Good, [], st'', r'')"
proof -
  have "versions_fresh st' r'"
    using http_parse.run_invariant [where I = "\<lambda>(st, r). versions_fresh st r"
        and s = "(new_parser, r)" and xs = s and s' = "(st', r')" and out = Indeterminate
        and rest = rest] assms
    by (auto intro: consume_versions_fresh new_parser_versions_fresh)
  with assms completion_accepted [of st' r'] show ?thesis
    by (intro exI [of _ "completion st'"]) (auto simp: parse_append)
qed

section \<open>Properties\<close>

text \<open>
  Property C12. Parsing is undefined only when a version number overflows an \<open>int\<close>: the bytes
  before it were read without a verdict, and the next byte is a digit too many. In particular
  the parser never extends a header that does not exist, and never reads an unset version.
\<close>

theorem parse_undefined_only_on_overflow:
  "parse new_parser r s = None \<longleftrightarrow>
     (\<exists>xs c ys st' r'. s = xs @ c # ys
        \<and> parse new_parser r xs = Some (Indeterminate, [], st', r')
        \<and> overflowing_step st' r' c)"
  by (rule parse_None_iff [OF new_parser_ok])

text \<open>
  However the bytes of a stream are cut into the pieces that successive reads
  deliver, feeding the pieces to the parser gives the verdict and the request that one call on
  the whole stream gives.
\<close>

theorem parse_pieces:
  "feed (\<lambda>(st, r) s. parse st r s) Indeterminate (st, r) pieces =
     map_option (\<lambda>(out, rest, p). (out, p)) (parse st r (concat pieces))"
  using http_parse.feed_eq_run [of "(st, r)" pieces] by simp

text \<open>
  Property C32. The parser rejects at the earliest possible byte: as long as it asks for more,
  some continuation of what it has read is accepted.
\<close>

theorem parse_viable_prefix:
  assumes "parse new_parser r s = Some (Indeterminate, rest, st', r')"
  shows "\<exists>t st'' r''. parse new_parser r (s @ t) = Some (Good, [], st'', r'')"
  by (rule asks_for_more_viable [OF assms])

theorem parse_viable_prefix_witness:
  "\<exists>t st'' r''. parse new_parser empty_request (''GET'' @ t) = Some (Good, [], st'', r'')"
proof -
  have "parse new_parser empty_request ''GET'' =
    Some (Indeterminate, [], Method, empty_request\<lparr>req_method := ''GET''\<rparr>)"
    by (simp add: new_parser_def empty_request_def is_char_def is_ctl_def is_tspecial_def
        char_to_int_def)
  then show ?thesis by (rule parse_viable_prefix)
qed

end
