(* ===== verification/Http_Request_Grammar.thy ===== *)
theory Http_Request_Grammar
  imports Http_Request_Parser
begin

text \<open>
  A declarative specification of the request language the parser of
  http_server/request_parser.cpp accepts, and the proof that the parser implements it: a text
  is accepted with a given request and a given rest exactly when it is the rendering of a
  well-formed message that denotes this request, followed by this rest. The proof goes through
  one equation per parser state, each an equivalence.
\<close>

section \<open>Well-formed messages\<close>

definition token_char :: "char \<Rightarrow> bool" where
  "token_char c \<longleftrightarrow>
     is_char (char_to_int c) \<and> \<not> is_ctl (char_to_int c) \<and> \<not> is_tspecial (char_to_int c)"

definition text_char :: "char \<Rightarrow> bool" where
  "text_char c \<longleftrightarrow> \<not> is_ctl (char_to_int c)"

definition uri_char :: "char \<Rightarrow> bool" where
  "uri_char c \<longleftrightarrow> text_char c \<and> c \<noteq> CHR '' ''"

definition blank :: "char \<Rightarrow> bool" where
  "blank c \<longleftrightarrow> c = CHR '' '' \<or> c = TAB"

text \<open>A version number whose digits an \<open>int\<close> can accumulate one by one.\<close>

definition version_digits :: "string \<Rightarrow> bool" where
  "version_digits ds \<longleftrightarrow>
     ds \<noteq> [] \<and> (\<forall>c \<in> set ds. is_dec c) \<and> dec_value ds + 48 \<le> int_max"

text \<open>
  A line of the header section starts a header, or continues the value of the header before
  it after some white space (the line folding of RFC 822).
\<close>

datatype header_line =
    Field string string
  | Continuation string string

fun render_line :: "header_line \<Rightarrow> string" where
  "render_line (Field n v) = n @ '': '' @ v @ [CR, LF]"
| "render_line (Continuation ws v) = ws @ v @ [CR, LF]"

fun line_ok :: "bool \<Rightarrow> header_line \<Rightarrow> bool" where
  "line_ok first (Field n v) \<longleftrightarrow>
     n \<noteq> [] \<and> (\<forall>c \<in> set n. token_char c) \<and> (\<forall>c \<in> set v. text_char c)"
| "line_ok first (Continuation ws v) \<longleftrightarrow>
     \<not> first \<and> ws \<noteq> [] \<and> (\<forall>c \<in> set ws. blank c)
     \<and> (v \<noteq> [] \<longrightarrow> \<not> blank (hd v)) \<and> (\<forall>c \<in> set v. text_char c)"

fun lines_ok :: "bool \<Rightarrow> header_line list \<Rightarrow> bool" where
  "lines_ok first [] = True"
| "lines_ok first (l # ls) \<longleftrightarrow> line_ok first l \<and> lines_ok False ls"

fun add_line :: "http_header list \<Rightarrow> header_line \<Rightarrow> http_header list" where
  "add_line hs (Field n v) = hs @ [\<lparr>header_name = n, header_value = v\<rparr>]"
| "add_line hs (Continuation ws v) =
     butlast hs @ [(last hs)\<lparr>header_value := header_value (last hs) @ v\<rparr>]"

record message =
  msg_method :: string
  msg_uri :: string
  msg_major :: string
  msg_minor :: string
  msg_lines :: "header_line list"

definition message_ok :: "message \<Rightarrow> bool" where
  "message_ok m \<longleftrightarrow>
     msg_method m \<noteq> [] \<and> (\<forall>c \<in> set (msg_method m). token_char c)
     \<and> (\<forall>c \<in> set (msg_uri m). uri_char c)
     \<and> version_digits (msg_major m) \<and> version_digits (msg_minor m)
     \<and> lines_ok True (msg_lines m)"

definition render_lines :: "header_line list \<Rightarrow> string" where
  "render_lines ls = concat (map render_line ls) @ [CR, LF]"

definition render_message :: "message \<Rightarrow> string" where
  "render_message m =
     msg_method m @ '' '' @ msg_uri m @ '' HTTP/'' @ msg_major m @ ''.'' @ msg_minor m
     @ [CR, LF] @ render_lines (msg_lines m)"

definition message_request :: "message \<Rightarrow> request" where
  "message_request m =
     \<lparr>req_method = msg_method m, req_uri = msg_uri m,
      req_http_version_major = Some (dec_value (msg_major m)),
      req_http_version_minor = Some (dec_value (msg_minor m)),
      req_headers = foldl add_line [] (msg_lines m)\<rparr>"

section \<open>Acceptance, one equation per state\<close>

definition accepts :: "parser_state \<Rightarrow> request \<Rightarrow> string \<Rightarrow> string \<Rightarrow> request \<Rightarrow> bool" where
  "accepts st r s rest r' \<longleftrightarrow> (\<exists>st'. parse st r s = Some (Good, rest, st', r'))"

lemma accepts_Nil [simp]: "\<not> accepts st r [] rest r'"
  by (simp add: accepts_def)

lemma accepts_Cons:
  "accepts st r (c # s) rest r' \<longleftrightarrow>
     (\<exists>out st1 r1. consume st r c = Some (out, st1, r1)
        \<and> (if out = Good then rest = s \<and> r' = r1
           else out = Indeterminate \<and> accepts st1 r1 s rest r'))"
proof (cases "consume st r c")
  case None
  then show ?thesis by (simp add: accepts_def)
next
  case (Some z)
  obtain out st1 r1 where "z = (out, st1, r1)" by (metis prod_cases3)
  with Some show ?thesis by (cases out) (auto simp: accepts_def)
qed

lemmas accepts_step = accepts_Cons expect_def continue_with_def

text \<open>
  A run of characters that the machine collects in a state until a delimiter takes it to the
  next one. \<open>P x c\<close> says when \<open>c\<close> may be collected after \<open>x\<close>, \<open>upd\<close> how.
\<close>

fun collectable :: "('x \<Rightarrow> char \<Rightarrow> bool) \<Rightarrow> ('x \<Rightarrow> char \<Rightarrow> 'x) \<Rightarrow> 'x \<Rightarrow> string \<Rightarrow> bool" where
  "collectable P upd x [] = True"
| "collectable P upd x (c # cs) \<longleftrightarrow> P x c \<and> collectable P upd (upd x c) cs"

lemma collectable_const: "collectable (\<lambda>x. P) upd x cs \<longleftrightarrow> (\<forall>c \<in> set cs. P c)"
  by (induction cs arbitrary: x) auto

lemma collect_until:
  assumes "\<And>x. \<not> A x []"
    and "\<And>x s. A x (d # s) \<longleftrightarrow> B x s"
    and "\<And>x c s. c \<noteq> d \<Longrightarrow> A x (c # s) \<longleftrightarrow> P x c \<and> A (upd x c) s"
    and "\<And>x. \<not> P x d"
  shows "A x s \<longleftrightarrow>
    (\<exists>cs s'. s = cs @ d # s' \<and> collectable P upd x cs \<and> B (foldl upd x cs) s')"
proof (induction s arbitrary: x)
  case Nil
  then show ?case by (simp add: assms(1))
next
  case (Cons c s)
  show ?case (is "_ \<longleftrightarrow> (\<exists>cs s'. ?R cs s')")
  proof (cases "c = d")
    case True
    have "?R cs s' \<longleftrightarrow> cs = [] \<and> s' = s \<and> B x s" for cs s'
      by (cases cs) (auto simp: True assms(4))
    with True show ?thesis by (simp add: assms(2))
  next
    case False
    have "(\<exists>cs s'. ?R cs s') \<longleftrightarrow>
      (\<exists>cs s'. P x c \<and> s = cs @ d # s' \<and> collectable P upd (upd x c) cs
         \<and> B (foldl upd (upd x c) cs) s')" (is "?L \<longleftrightarrow> ?M")
    proof
      assume ?L
      then obtain cs s' where R: "?R cs s'" by blast
      with False show ?M by (cases cs) auto
    next
      assume ?M
      then obtain cs s' where "?R (c # cs) s'" by auto
      then show ?L by blast
    qed
    with False show ?thesis by (simp add: assms(3) Cons.IH)
  qed
qed

lemma accepts_newline_3:
  "accepts Expecting_newline_3 r s rest r' \<longleftrightarrow> s = LF # rest \<and> r' = r"
  by (cases s) (auto simp: accepts_step)

lemma accepts_newline_2:
  "accepts Expecting_newline_2 r s rest r' \<longleftrightarrow>
     (\<exists>s'. s = LF # s' \<and> accepts Header_line_start r s' rest r')"
  by (cases s) (auto simp: accepts_step)

lemma accepts_newline_1:
  "accepts Expecting_newline_1 r s rest r' \<longleftrightarrow>
     (\<exists>s'. s = LF # s' \<and> accepts Header_line_start r s' rest r')"
  by (cases s) (auto simp: accepts_step)

lemma specials_not_token [simp]:
  "\<not> token_char CHR '' ''" "\<not> token_char CHR '':''" "\<not> token_char CR" "\<not> token_char TAB"
  "\<not> text_char CR" "\<not> text_char TAB" "text_char CHR '' ''" "\<not> uri_char CHR '' ''"
  by (simp_all add: token_char_def text_char_def uri_char_def is_char_def is_ctl_def
      is_tspecial_def char_to_int_def)

section \<open>The header lines\<close>

lemma foldl_name:
  "foldl (\<lambda>h c. h\<lparr>header_name := header_name h @ [c]\<rparr>) h cs =
     h\<lparr>header_name := header_name h @ cs\<rparr>"
  by (induction cs arbitrary: h) auto

lemma foldl_value:
  "foldl (\<lambda>h c. h\<lparr>header_value := header_value h @ [c]\<rparr>) h cs =
     h\<lparr>header_value := header_value h @ cs\<rparr>"
  by (induction cs arbitrary: h) auto

lemma accepts_value:
  "accepts Header_value (r\<lparr>req_headers := hs @ [h]\<rparr>) s rest r' \<longleftrightarrow>
     (\<exists>v s'. s = v @ [CR, LF] @ s' \<and> (\<forall>c \<in> set v. text_char c)
        \<and> accepts Header_line_start
             (r\<lparr>req_headers := hs @ [h\<lparr>header_value := header_value h @ v\<rparr>]\<rparr>) s' rest r')"
proof -
  have "accepts Header_value (r\<lparr>req_headers := hs @ [h]\<rparr>) s rest r' \<longleftrightarrow>
    (\<exists>v s'. s = v @ CR # s' \<and> collectable (\<lambda>x. text_char)
        (\<lambda>h c. h\<lparr>header_value := header_value h @ [c]\<rparr>) h v
      \<and> accepts Expecting_newline_2
        (r\<lparr>req_headers := hs @ [foldl (\<lambda>h c. h\<lparr>header_value := header_value h @ [c]\<rparr>) h v]\<rparr>)
        s' rest r')"
    by (rule collect_until
        [where A = "\<lambda>h s. accepts Header_value (r\<lparr>req_headers := hs @ [h]\<rparr>) s rest r'"])
       (auto simp: accepts_step text_char_def is_ctl_def char_to_int_def)
  then show ?thesis
    by (auto simp: collectable_const foldl_value accepts_newline_2)
qed

lemma accepts_name:
  "accepts Header_name (r\<lparr>req_headers := hs @ [h]\<rparr>) s rest r' \<longleftrightarrow>
     (\<exists>n s'. s = n @ '':'' @ s' \<and> (\<forall>c \<in> set n. token_char c)
        \<and> accepts Space_before_header_value
             (r\<lparr>req_headers := hs @ [h\<lparr>header_name := header_name h @ n\<rparr>]\<rparr>) s' rest r')"
proof -
  have "accepts Header_name (r\<lparr>req_headers := hs @ [h]\<rparr>) s rest r' \<longleftrightarrow>
    (\<exists>n s'. s = n @ CHR '':'' # s' \<and> collectable (\<lambda>x. token_char)
        (\<lambda>h c. h\<lparr>header_name := header_name h @ [c]\<rparr>) h n
      \<and> accepts Space_before_header_value
        (r\<lparr>req_headers := hs @ [foldl (\<lambda>h c. h\<lparr>header_name := header_name h @ [c]\<rparr>) h n]\<rparr>)
        s' rest r')"
    by (rule collect_until
        [where A = "\<lambda>h s. accepts Header_name (r\<lparr>req_headers := hs @ [h]\<rparr>) s rest r'"])
       (auto simp: accepts_step token_char_def is_ctl_def is_tspecial_def)
  then show ?thesis
    by (auto simp: collectable_const foldl_name)
qed

lemma accepts_space:
  "accepts Space_before_header_value r s rest r' \<longleftrightarrow>
     (\<exists>s'. s = '' '' @ s' \<and> accepts Header_value r s' rest r')"
  by (cases s) (auto simp: accepts_step)

lemma accepts_lws:
  "accepts Header_lws (r\<lparr>req_headers := hs @ [h]\<rparr>) s rest r' \<longleftrightarrow>
     (\<exists>ws v s'. s = ws @ v @ [CR, LF] @ s' \<and> (\<forall>c \<in> set ws. blank c)
        \<and> (v \<noteq> [] \<longrightarrow> \<not> blank (hd v)) \<and> (\<forall>c \<in> set v. text_char c)
        \<and> accepts Header_line_start
             (r\<lparr>req_headers := hs @ [h\<lparr>header_value := header_value h @ v\<rparr>]\<rparr>) s' rest r')"
    (is "_ \<longleftrightarrow> (\<exists>ws v s'. ?R s ws v s')")
proof (induction s)
  case Nil
  then show ?case by simp
next
  case (Cons c s)
  consider (cr) "c = CR" | (blank) "blank c" | (other) "c \<noteq> CR" "\<not> blank c" by blast
  then show ?case
  proof cases
    case cr
    then have "?R (c # s) ws v s' \<longleftrightarrow> ws = [] \<and> v = [] \<and> s = LF # s'
      \<and> accepts Header_line_start (r\<lparr>req_headers := hs @ [h]\<rparr>) s' rest r'" for ws v s'
      by (cases ws; cases v) (auto simp: blank_def)
    with cr show ?thesis by (simp add: accepts_step accepts_newline_2)
  next
    case blank
    have "(\<exists>ws v s'. ?R (c # s) ws v s') \<longleftrightarrow> (\<exists>ws v s'. ?R s ws v s')" (is "?L \<longleftrightarrow> ?M")
    proof
      assume ?L
      then obtain ws v s' where R: "?R (c # s) ws v s'" by blast
      then obtain ws' where "ws = c # ws'"
        using blank by (cases ws; cases v) (auto simp: blank_def)
      with R have "?R s ws' v s'" by simp
      then show ?M by blast
    next
      assume ?M
      then obtain ws v s' where "?R s ws v s'" by blast
      with blank have "?R (c # s) (c # ws) v s'" by simp
      then show ?L by blast
    qed
    moreover from blank have "accepts Header_lws (r\<lparr>req_headers := hs @ [h]\<rparr>) (c # s) rest r'
      \<longleftrightarrow> accepts Header_lws (r\<lparr>req_headers := hs @ [h]\<rparr>) s rest r'"
      by (auto simp: accepts_step blank_def)
    ultimately show ?thesis by (simp only: Cons.IH)
  next
    case other
    have "(\<exists>ws v s'. ?R (c # s) ws v s') \<longleftrightarrow>
      (\<exists>v s'. s = v @ [CR, LF] @ s' \<and> text_char c \<and> (\<forall>c \<in> set v. text_char c)
         \<and> accepts Header_line_start
             (r\<lparr>req_headers := hs @ [h\<lparr>header_value := header_value h @ c # v\<rparr>]\<rparr>) s' rest r')"
      (is "?L \<longleftrightarrow> (\<exists>v s'. ?Q v s')")
    proof
      assume ?L
      then obtain ws v s' where R: "?R (c # s) ws v s'" by blast
      with other have "ws = []" by (cases ws) auto
      with R other obtain v' where "v = c # v'" by (cases v) auto
      with R \<open>ws = []\<close> have "?Q v' s'" by simp
      then show "\<exists>v s'. ?Q v s'" by blast
    next
      assume "\<exists>v s'. ?Q v s'"
      then obtain v s' where "?Q v s'" by blast
      with other have "?R (c # s) [] (c # v) s'" by simp
      then show ?L by blast
    qed
    moreover from other have
      "accepts Header_lws (r\<lparr>req_headers := hs @ [h]\<rparr>) (c # s) rest r' \<longleftrightarrow>
         text_char c \<and> accepts Header_value
           (r\<lparr>req_headers := hs @ [h\<lparr>header_value := header_value h @ [c]\<rparr>]\<rparr>) s rest r'"
      by (auto simp: accepts_step blank_def text_char_def)
    ultimately show ?thesis by (auto simp: accepts_value)
  qed
qed

lemma blank_not_token: "blank c \<Longrightarrow> \<not> token_char c"
  by (auto simp: blank_def)

lemma line_head:
  assumes "line_ok first l" "c # s = render_line l @ s'"
  shows "(token_char c \<and> (\<exists>n v. l = Field (c # n) v \<and> line_ok first l
            \<and> s = n @ '': '' @ v @ [CR, LF] @ s'))
    \<or> (blank c \<and> \<not> first \<and> (\<exists>ws v. l = Continuation (c # ws) v \<and> line_ok first l
            \<and> s = ws @ v @ [CR, LF] @ s'))"
proof (cases l)
  case (Field n v)
  with assms show ?thesis by (cases n) auto
next
  case (Continuation ws v)
  with assms show ?thesis by (cases ws) auto
qed

lemma accepts_name_value:
  "accepts Header_name (r\<lparr>req_headers := hs @ [\<lparr>header_name = m, header_value = []\<rparr>]\<rparr>) s rest r'
    \<longleftrightarrow> (\<exists>n v s'. s = n @ '': '' @ v @ [CR, LF] @ s' \<and> (\<forall>c \<in> set n. token_char c)
          \<and> (\<forall>c \<in> set v. text_char c)
          \<and> accepts Header_line_start
               (r\<lparr>req_headers := hs @ [\<lparr>header_name = m @ n, header_value = v\<rparr>]\<rparr>) s' rest r')"
  by (simp add: accepts_name accepts_space accepts_value) blast

lemma accepts_field:
  assumes "token_char c"
  shows "accepts Header_name (r\<lparr>req_headers := hs @ [\<lparr>header_name = [c], header_value = []\<rparr>]\<rparr>) s rest r'
    \<longleftrightarrow> (\<exists>l s'. c # s = render_line l @ s' \<and> line_ok (hs = []) l
          \<and> accepts Header_line_start (r\<lparr>req_headers := add_line hs l\<rparr>) s' rest r')"
    (is "?L \<longleftrightarrow> (\<exists>l s'. ?R l s')")
proof
  assume ?L
  then obtain n v s' where
    "s = n @ '': '' @ v @ [CR, LF] @ s'" "\<forall>c \<in> set n. token_char c" "\<forall>c \<in> set v. text_char c"
    "accepts Header_line_start
       (r\<lparr>req_headers := hs @ [\<lparr>header_name = [c] @ n, header_value = v\<rparr>]\<rparr>) s' rest r'"
    unfolding accepts_name_value by blast
  with assms have "?R (Field (c # n) v) s'" by simp
  then show "\<exists>l s'. ?R l s'" by blast
next
  assume "\<exists>l s'. ?R l s'"
  then obtain l s' where R: "c # s = render_line l @ s'" "line_ok (hs = []) l"
    "accepts Header_line_start (r\<lparr>req_headers := add_line hs l\<rparr>) s' rest r'" by blast
  from line_head [OF R(2, 1)] assms obtain n v where
    "l = Field (c # n) v" "s = n @ '': '' @ v @ [CR, LF] @ s'"
    by (auto dest: blank_not_token)
  with R(2, 3) have "s = n @ '': '' @ v @ [CR, LF] @ s' \<and> (\<forall>c \<in> set n. token_char c)
    \<and> (\<forall>c \<in> set v. text_char c)
    \<and> accepts Header_line_start
         (r\<lparr>req_headers := hs @ [\<lparr>header_name = [c] @ n, header_value = v\<rparr>]\<rparr>) s' rest r'"
    by simp
  then show ?L unfolding accepts_name_value by blast
qed

lemma accepts_continuation:
  assumes "blank c" "hs \<noteq> []"
  shows "accepts Header_lws (r\<lparr>req_headers := hs\<rparr>) s rest r'
    \<longleftrightarrow> (\<exists>l s'. c # s = render_line l @ s' \<and> line_ok (hs = []) l
          \<and> accepts Header_line_start (r\<lparr>req_headers := add_line hs l\<rparr>) s' rest r')"
    (is "?L \<longleftrightarrow> (\<exists>l s'. ?R l s')")
proof -
  obtain hs1 h where hs: "hs = hs1 @ [h]" using assms(2) by (cases hs rule: rev_exhaust) auto
  show ?thesis
  proof
    assume ?L
    then obtain ws v s' where
      "s = ws @ v @ [CR, LF] @ s'" "\<forall>c \<in> set ws. blank c" "v \<noteq> [] \<longrightarrow> \<not> blank (hd v)"
      "\<forall>c \<in> set v. text_char c"
      "accepts Header_line_start
         (r\<lparr>req_headers := hs1 @ [h\<lparr>header_value := header_value h @ v\<rparr>]\<rparr>) s' rest r'"
      unfolding hs accepts_lws by blast
    with assms hs have "c # s = render_line (Continuation (c # ws) v) @ s'"
      "line_ok (hs = []) (Continuation (c # ws) v)"
      "accepts Header_line_start
         (r\<lparr>req_headers := add_line hs (Continuation (c # ws) v)\<rparr>) s' rest r'"
      by simp_all
    then show "\<exists>l s'. ?R l s'" by blast
  next
    assume "\<exists>l s'. ?R l s'"
    then obtain l s' where R: "c # s = render_line l @ s'" "line_ok (hs = []) l"
      "accepts Header_line_start (r\<lparr>req_headers := add_line hs l\<rparr>) s' rest r'" by blast
    from line_head [OF R(2, 1)] assms obtain ws v where
      "l = Continuation (c # ws) v" "s = ws @ v @ [CR, LF] @ s'"
      by (auto dest: blank_not_token)
    with R(2, 3) have "s = ws @ v @ [CR, LF] @ s' \<and> (\<forall>c \<in> set ws. blank c)
      \<and> (v \<noteq> [] \<longrightarrow> \<not> blank (hd v)) \<and> (\<forall>c \<in> set v. text_char c)
      \<and> accepts Header_line_start
           (r\<lparr>req_headers := hs1 @ [h\<lparr>header_value := header_value h @ v\<rparr>]\<rparr>) s' rest r'"
      by (simp add: hs)
    then show ?L unfolding hs accepts_lws by blast
  qed
qed

lemma accepts_line:
  "accepts Header_line_start r s rest r' \<longleftrightarrow>
     s = [CR, LF] @ rest \<and> r' = r
     \<or> (\<exists>l s'. s = render_line l @ s' \<and> line_ok (req_headers r = []) l
          \<and> accepts Header_line_start
               (r\<lparr>req_headers := add_line (req_headers r) l\<rparr>) s' rest r')"
    (is "_ \<longleftrightarrow> ?End s \<or> (\<exists>l s'. ?R s l s')")
proof (cases s)
  case Nil
  have "render_line l \<noteq> []" for l by (cases l) auto
  with Nil show ?thesis by auto
next
  case (Cons c s1)
  note field = accepts_field [where r = r and hs = "req_headers r", simplified]
  note continuation = accepts_continuation [where r = r and hs = "req_headers r", simplified]
  consider (cr) "c = CR" | (token) "token_char c"
    | (blank) "blank c" "req_headers r \<noteq> []"
    | (bad) "c \<noteq> CR" "\<not> token_char c" "\<not> blank c \<or> req_headers r = []" by blast
  then show ?thesis
  proof cases
    case cr
    then have "\<not> ?R s l s'" for l s' by (auto simp: Cons blank_def dest: line_head)
    with cr show ?thesis by (auto simp: Cons accepts_step accepts_newline_3)
  next
    case token
    then have "c \<noteq> CR" "\<not> blank c" by (auto dest: blank_not_token)
    with token have "accepts Header_line_start r s rest r' \<longleftrightarrow>
      accepts Header_name
        (r\<lparr>req_headers := req_headers r @ [\<lparr>header_name = [c], header_value = []\<rparr>]\<rparr>) s1 rest r'"
      by (auto simp: Cons accepts_step token_char_def blank_def empty_header_def)
    with token \<open>c \<noteq> CR\<close> show ?thesis by (simp add: field Cons)
  next
    case blank
    then have "c \<noteq> CR" by (auto simp: blank_def)
    with blank have "accepts Header_line_start r s rest r' \<longleftrightarrow> accepts Header_lws r s1 rest r'"
      by (auto simp: Cons accepts_step blank_def)
    with blank \<open>c \<noteq> CR\<close> show ?thesis by (simp add: continuation Cons)
  next
    case bad
    then have "\<not> ?R s l s'" for l s' by (auto simp: Cons dest: line_head)
    with bad show ?thesis
      by (auto simp: Cons accepts_step token_char_def blank_def)
  qed
qed

lemma render_line_length: "0 < length (render_line l)"
  by (cases l) auto

lemma add_line_nonempty: "line_ok (hs = []) l \<Longrightarrow> add_line hs l \<noteq> []"
  by (cases l) auto

lemma accepts_lines:
  "accepts Header_line_start r s rest r' \<longleftrightarrow>
     (\<exists>ls. s = render_lines ls @ rest \<and> lines_ok (req_headers r = []) ls
        \<and> r' = r\<lparr>req_headers := foldl add_line (req_headers r) ls\<rparr>)"
proof (induction "length s" arbitrary: s r rule: less_induct)
  case less
  show ?case (is "?L \<longleftrightarrow> (\<exists>ls. ?R ls)")
  proof
    assume ?L
    then consider "s = [CR, LF] @ rest" "r' = r"
      | l s' where "s = render_line l @ s'" "line_ok (req_headers r = []) l"
          "accepts Header_line_start
             (r\<lparr>req_headers := add_line (req_headers r) l\<rparr>) s' rest r'"
      by (subst (asm) accepts_line) blast
    then show "\<exists>ls. ?R ls"
    proof cases
      case 1
      then have "?R []" by (simp add: render_lines_def)
      then show ?thesis by blast
    next
      case 2
      from less [of s'] 2 render_line_length [of l] add_line_nonempty [OF 2(2)]
      obtain ls where "s' = render_lines ls @ rest" "lines_ok False ls"
        "r' = r\<lparr>req_headers := foldl add_line (add_line (req_headers r) l) ls\<rparr>" by auto
      with 2 have "?R (l # ls)" by (simp add: render_lines_def)
      then show ?thesis by blast
    qed
  next
    assume "\<exists>ls. ?R ls"
    then obtain ls where R: "?R ls" by blast
    show ?L
    proof (cases ls)
      case Nil
      with R show ?thesis by (subst accepts_line) (simp add: render_lines_def)
    next
      case (Cons l ls')
      with R have l: "s = render_line l @ render_lines ls' @ rest"
        "line_ok (req_headers r = []) l" "lines_ok False ls'" by (auto simp: render_lines_def)
      let ?r = "r\<lparr>req_headers := add_line (req_headers r) l\<rparr>"
      have "length (render_lines ls' @ rest) < length s"
        using l(1) render_line_length [of l] by simp
      moreover have "lines_ok (req_headers ?r = []) ls'"
        using add_line_nonempty [OF l(2)] l(3) by simp
      moreover have "r' = ?r\<lparr>req_headers := foldl add_line (req_headers ?r) ls'\<rparr>"
        using R Cons by simp
      ultimately have "accepts Header_line_start ?r (render_lines ls' @ rest) rest r'"
        using less by blast
      with l show ?thesis by (subst accepts_line) blast
    qed
  qed
qed

section \<open>The version numbers\<close>

definition digit_fits :: "int \<Rightarrow> char \<Rightarrow> bool" where
  "digit_fits v c \<longleftrightarrow> is_dec c \<and> push_digit (Some v) c \<noteq> None"

definition add_digit :: "int \<Rightarrow> char \<Rightarrow> int" where
  "add_digit v c = v * 10 + (char_to_int c - 48)"

lemma push_digit_value: "push_digit (Some v) c = Some w \<Longrightarrow> w = add_digit v c"
  by (auto simp: push_digit_def c_int_def add_digit_def char_to_int_def
      split: bind_splits if_splits)

lemma add_digit_ge:
  assumes "0 \<le> v" "is_dec c"
  shows "v \<le> add_digit v c"
  using assms by (auto simp: add_digit_def is_dec_def)

lemma foldl_add_digit_ge: "0 \<le> v \<Longrightarrow> \<forall>c \<in> set ds. is_dec c \<Longrightarrow> v \<le> foldl add_digit v ds"
proof (induction ds arbitrary: v)
  case Nil
  then show ?case by simp
next
  case (Cons d ds)
  then have "v \<le> add_digit v d" by (simp add: add_digit_ge)
  with Cons.IH [of "add_digit v d"] Cons.prems show ?case by simp
qed

lemma collectable_digits:
  assumes "0 \<le> v" "v \<le> int_max"
  shows "collectable digit_fits add_digit v ds \<longleftrightarrow>
    (\<forall>c \<in> set ds. is_dec c) \<and> (ds \<noteq> [] \<longrightarrow> foldl add_digit v ds + 48 \<le> int_max)"
  using assms
proof (induction ds arbitrary: v)
  case Nil
  then show ?case by simp
next
  case (Cons d ds)
  have fits: "digit_fits v d \<longleftrightarrow> is_dec d \<and> add_digit v d + 48 \<le> int_max"
    using Cons.prems by (auto simp: digit_fits_def push_digit_eq add_digit_def split: if_splits)
  show ?case
  proof (cases "is_dec d \<and> add_digit v d + 48 \<le> int_max")
    case True
    with Cons.prems have range: "0 \<le> add_digit v d" "add_digit v d \<le> int_max"
      using add_digit_ge [of v d] by auto
    from True Cons.IH [OF range] show ?thesis by (cases ds) (auto simp: fits)
  next
    case False
    have "is_dec d \<Longrightarrow> \<forall>c \<in> set ds. is_dec c \<Longrightarrow> add_digit v d \<le> foldl add_digit (add_digit v d) ds"
      using Cons.prems add_digit_ge [of v d] by (intro foldl_add_digit_ge) auto
    with False show ?thesis by (auto simp: fits)
  qed
qed

lemma dec_value_foldl: "dec_value ds = foldl add_digit 0 ds"
  by (simp add: dec_value_def add_digit_def [abs_def])

lemma version_digits_Cons:
  "version_digits (d # ds) \<longleftrightarrow>
     digit_fits 0 d \<and> collectable digit_fits add_digit (add_digit 0 d) ds"
  using collectable_digits [of 0 "d # ds"]
  by (simp add: version_digits_def dec_value_foldl int_max_def)

lemma version_digits_collect:
  "version_digits cs \<longleftrightarrow>
     (\<exists>d ds. cs = d # ds \<and> digit_fits 0 d \<and> collectable digit_fits add_digit (add_digit 0 d) ds)"
  by (cases cs) (auto simp: version_digits_Cons, simp add: version_digits_def)

lemma first_digit:
  "(\<exists>d s1. s = d # s1 \<and> digit_fits 0 d
      \<and> (\<exists>ds s'. s1 = ds @ t @ s' \<and> collectable digit_fits add_digit (add_digit 0 d) ds
           \<and> Q (foldl add_digit (add_digit 0 d) ds) s')) \<longleftrightarrow>
   (\<exists>ds s'. s = ds @ t @ s' \<and> version_digits ds \<and> Q (dec_value ds) s')" (is "?L \<longleftrightarrow> ?R")
proof
  assume ?L
  then obtain d ds s' where "s = (d # ds) @ t @ s'" "version_digits (d # ds)"
    "Q (dec_value (d # ds)) s'"
    by (auto simp: version_digits_Cons dec_value_foldl)
  then show ?R by blast
next
  assume ?R
  then obtain ds s' where ds: "s = ds @ t @ s'" "version_digits ds" "Q (dec_value ds) s'"
    by blast
  then obtain d ds1 where "ds = d # ds1" by (auto simp: version_digits_collect)
  with ds show ?L by (auto simp: version_digits_Cons dec_value_foldl)
qed

lemma accepts_major:
  "accepts Http_version_major (r\<lparr>req_http_version_major := Some v\<rparr>) s rest r' \<longleftrightarrow>
     (\<exists>ds s'. s = ds @ CHR ''.'' # s' \<and> collectable digit_fits add_digit v ds
        \<and> accepts Http_version_minor_start
             (r\<lparr>req_http_version_major := Some (foldl add_digit v ds)\<rparr>) s' rest r')"
  by (rule collect_until [where A = "\<lambda>v s. accepts Http_version_major
        (r\<lparr>req_http_version_major := Some v\<rparr>) s rest r'"])
     (auto simp: accepts_step digit_fits_def push_major_def dest: push_digit_value
       split: bind_splits)

lemma accepts_minor:
  "accepts Http_version_minor (r\<lparr>req_http_version_minor := Some v\<rparr>) s rest r' \<longleftrightarrow>
     (\<exists>ds s'. s = ds @ [CR, LF] @ s' \<and> collectable digit_fits add_digit v ds
        \<and> accepts Header_line_start
             (r\<lparr>req_http_version_minor := Some (foldl add_digit v ds)\<rparr>) s' rest r')"
proof -
  have "accepts Http_version_minor (r\<lparr>req_http_version_minor := Some v\<rparr>) s rest r' \<longleftrightarrow>
     (\<exists>ds s'. s = ds @ CR # s' \<and> collectable digit_fits add_digit v ds
        \<and> accepts Expecting_newline_1
             (r\<lparr>req_http_version_minor := Some (foldl add_digit v ds)\<rparr>) s' rest r')"
    by (rule collect_until [where A = "\<lambda>v s. accepts Http_version_minor
          (r\<lparr>req_http_version_minor := Some v\<rparr>) s rest r'"])
       (auto simp: accepts_step digit_fits_def push_minor_def dest: push_digit_value
         split: bind_splits)
  then show ?thesis by (auto simp: accepts_newline_1)
qed

lemma accepts_major_start:
  "accepts Http_version_major_start (r\<lparr>req_http_version_major := Some 0\<rparr>) s rest r' \<longleftrightarrow>
     (\<exists>ds s'. s = ds @ ''.'' @ s' \<and> version_digits ds
        \<and> accepts Http_version_minor_start
             (r\<lparr>req_http_version_major := Some (dec_value ds)\<rparr>) s' rest r')"
proof -
  have "accepts Http_version_major_start (r\<lparr>req_http_version_major := Some 0\<rparr>) s rest r' \<longleftrightarrow>
    (\<exists>d s1. s = d # s1 \<and> digit_fits 0 d \<and> accepts Http_version_major
       (r\<lparr>req_http_version_major := Some (add_digit 0 d)\<rparr>) s1 rest r')"
    by (cases s) (auto simp: accepts_step digit_fits_def push_major_def dest: push_digit_value
       split: bind_splits)
  then show ?thesis
    using first_digit [where t = "''.''" and s = s]
    by (simp add: accepts_major)
qed

lemma accepts_minor_start:
  "accepts Http_version_minor_start (r\<lparr>req_http_version_minor := Some 0\<rparr>) s rest r' \<longleftrightarrow>
     (\<exists>ds s'. s = ds @ [CR, LF] @ s' \<and> version_digits ds
        \<and> accepts Header_line_start
             (r\<lparr>req_http_version_minor := Some (dec_value ds)\<rparr>) s' rest r')"
proof -
  have "accepts Http_version_minor_start (r\<lparr>req_http_version_minor := Some 0\<rparr>) s rest r' \<longleftrightarrow>
    (\<exists>d s1. s = d # s1 \<and> digit_fits 0 d \<and> accepts Http_version_minor
       (r\<lparr>req_http_version_minor := Some (add_digit 0 d)\<rparr>) s1 rest r')"
    by (cases s) (auto simp: accepts_step digit_fits_def push_minor_def dest: push_digit_value
       split: bind_splits)
  then show ?thesis
    using first_digit [where t = "[CR, LF]" and s = s]
    by (simp only: accepts_minor)
qed

section \<open>The request line and the whole message\<close>

lemma foldl_method:
  "foldl (\<lambda>r c. r\<lparr>req_method := req_method r @ [c]\<rparr>) r cs = r\<lparr>req_method := req_method r @ cs\<rparr>"
  by (induction cs arbitrary: r) auto

lemma foldl_uri:
  "foldl (\<lambda>r c. r\<lparr>req_uri := req_uri r @ [c]\<rparr>) r cs = r\<lparr>req_uri := req_uri r @ cs\<rparr>"
  by (induction cs arbitrary: r) auto

lemma accepts_method:
  "accepts Method r s rest r' \<longleftrightarrow>
     (\<exists>m s'. s = m @ '' '' @ s' \<and> (\<forall>c \<in> set m. token_char c)
        \<and> accepts Uri (r\<lparr>req_method := req_method r @ m\<rparr>) s' rest r')"
proof -
  have "accepts Method r s rest r' \<longleftrightarrow>
    (\<exists>m s'. s = m @ CHR '' '' # s' \<and> collectable (\<lambda>x. token_char)
        (\<lambda>r c. r\<lparr>req_method := req_method r @ [c]\<rparr>) r m
      \<and> accepts Uri (foldl (\<lambda>r c. r\<lparr>req_method := req_method r @ [c]\<rparr>) r m) s' rest r')"
    by (rule collect_until [where A = "\<lambda>r s. accepts Method r s rest r'"])
       (auto simp: accepts_step token_char_def is_tspecial_def)
  then show ?thesis by (simp add: collectable_const foldl_method)
qed

lemma accepts_method_start:
  "accepts Method_start r s rest r' \<longleftrightarrow>
     (\<exists>m s'. s = m @ '' '' @ s' \<and> m \<noteq> [] \<and> (\<forall>c \<in> set m. token_char c)
        \<and> accepts Uri (r\<lparr>req_method := req_method r @ m\<rparr>) s' rest r')"
proof -
  have "accepts Method_start r s rest r' \<longleftrightarrow> (\<exists>c s1. s = c # s1 \<and> token_char c
    \<and> accepts Method (r\<lparr>req_method := req_method r @ [c]\<rparr>) s1 rest r')"
    by (cases s) (auto simp: accepts_step token_char_def)
  also have "\<dots> \<longleftrightarrow> (\<exists>m s'. s = m @ '' '' @ s' \<and> m \<noteq> [] \<and> (\<forall>c \<in> set m. token_char c)
        \<and> accepts Uri (r\<lparr>req_method := req_method r @ m\<rparr>) s' rest r')" (is "?L \<longleftrightarrow> ?M")
  proof
    assume ?L
    then obtain c m s' where "s = c # m @ '' '' @ s'" "token_char c" "\<forall>c \<in> set m. token_char c"
      "accepts Uri (r\<lparr>req_method := req_method r @ c # m\<rparr>) s' rest r'"
      by (auto simp: accepts_method)
    then have "s = (c # m) @ '' '' @ s' \<and> c # m \<noteq> [] \<and> (\<forall>c \<in> set (c # m). token_char c)
      \<and> accepts Uri (r\<lparr>req_method := req_method r @ c # m\<rparr>) s' rest r'" by simp
    then show ?M by blast
  next
    assume ?M
    then obtain m s' where m: "s = m @ '' '' @ s'" "m \<noteq> []" "\<forall>c \<in> set m. token_char c"
      "accepts Uri (r\<lparr>req_method := req_method r @ m\<rparr>) s' rest r'" by blast
    then show ?L by (cases m) (auto simp: accepts_method)
  qed
  finally show ?thesis .
qed

lemma accepts_uri:
  "accepts Uri r s rest r' \<longleftrightarrow>
     (\<exists>u s'. s = u @ '' '' @ s' \<and> (\<forall>c \<in> set u. uri_char c)
        \<and> accepts Http_version_h (r\<lparr>req_uri := req_uri r @ u\<rparr>) s' rest r')"
proof -
  have "accepts Uri r s rest r' \<longleftrightarrow>
    (\<exists>u s'. s = u @ CHR '' '' # s' \<and> collectable (\<lambda>x. uri_char)
        (\<lambda>r c. r\<lparr>req_uri := req_uri r @ [c]\<rparr>) r u
      \<and> accepts Http_version_h (foldl (\<lambda>r c. r\<lparr>req_uri := req_uri r @ [c]\<rparr>) r u) s' rest r')"
    by (rule collect_until [where A = "\<lambda>r s. accepts Uri r s rest r'"])
       (auto simp: accepts_step uri_char_def text_char_def)
  then show ?thesis by (simp add: collectable_const foldl_uri)
qed

lemma accepts_http:
  "accepts Http_version_h r s rest r' \<longleftrightarrow>
     (\<exists>s'. s = ''HTTP/'' @ s' \<and> accepts Http_version_major_start
        (r\<lparr>req_http_version_major := Some 0, req_http_version_minor := Some 0\<rparr>) s' rest r')"
proof -
  have "accepts Http_version_h r s rest r' \<longleftrightarrow> (\<exists>s'. s = ''H'' @ s' \<and> accepts Http_version_t_1 r s' rest r')"
    "accepts Http_version_t_1 r s rest r' \<longleftrightarrow> (\<exists>s'. s = ''T'' @ s' \<and> accepts Http_version_t_2 r s' rest r')"
    "accepts Http_version_t_2 r s rest r' \<longleftrightarrow> (\<exists>s'. s = ''T'' @ s' \<and> accepts Http_version_p r s' rest r')"
    "accepts Http_version_p r s rest r' \<longleftrightarrow> (\<exists>s'. s = ''P'' @ s' \<and> accepts Http_version_slash r s' rest r')"
    "accepts Http_version_slash r s rest r' \<longleftrightarrow> (\<exists>s'. s = ''/'' @ s' \<and> accepts Http_version_major_start
        (r\<lparr>req_http_version_major := Some 0, req_http_version_minor := Some 0\<rparr>) s' rest r')" for s
    by (cases s; auto simp: accepts_step)+
  then show ?thesis by auto
qed

lemma accepts_request_line:
  "accepts new_parser r s rest r' \<longleftrightarrow>
     (\<exists>me u ma mi s'.
        s = me @ '' '' @ u @ '' '' @ ''HTTP/'' @ ma @ ''.'' @ mi @ [CR, LF] @ s'
        \<and> me \<noteq> [] \<and> (\<forall>c \<in> set me. token_char c) \<and> (\<forall>c \<in> set u. uri_char c)
        \<and> version_digits ma \<and> version_digits mi
        \<and> accepts Header_line_start
             (r\<lparr>req_method := req_method r @ me, req_uri := req_uri r @ u,
                req_http_version_major := Some (dec_value ma),
                req_http_version_minor := Some (dec_value mi)\<rparr>) s' rest r')"
proof -
  have major: "accepts Http_version_major_start
      (r\<lparr>req_http_version_major := Some 0, req_http_version_minor := Some 0\<rparr>) s rest r' \<longleftrightarrow>
    (\<exists>ma mi s'. s = ma @ ''.'' @ mi @ [CR, LF] @ s' \<and> version_digits ma \<and> version_digits mi
       \<and> accepts Header_line_start
           (r\<lparr>req_http_version_major := Some (dec_value ma),
              req_http_version_minor := Some (dec_value mi)\<rparr>) s' rest r')" for r s
  proof -
    have swap: "r\<lparr>req_http_version_major := a, req_http_version_minor := b\<rparr> =
      r\<lparr>req_http_version_minor := b, req_http_version_major := a\<rparr>" for r :: request and a b
      by simp
    have minor: "accepts Http_version_minor_start
        (r\<lparr>req_http_version_minor := Some 0, req_http_version_major := Some v\<rparr>) s rest r' \<longleftrightarrow>
      (\<exists>mi s'. s = mi @ [CR, LF] @ s' \<and> version_digits mi
         \<and> accepts Header_line_start
             (r\<lparr>req_http_version_major := Some v, req_http_version_minor := Some (dec_value mi)\<rparr>)
             s' rest r')" for r v s
      using accepts_minor_start [where r = "r\<lparr>req_http_version_major := Some v\<rparr>"]
      by (simp add: swap [symmetric])
    show ?thesis
      using accepts_major_start [where r = "r\<lparr>req_http_version_minor := Some 0\<rparr>"] minor
      by (simp add: swap) blast
  qed
  show ?thesis
    unfolding new_parser_def accepts_method_start accepts_uri accepts_http major
    by (simp; blast)
qed

lemma accepts_message:
  "accepts new_parser empty_request s rest r \<longleftrightarrow>
     (\<exists>m. message_ok m \<and> s = render_message m @ rest \<and> r = message_request m)"
    (is "?L \<longleftrightarrow> (\<exists>m. ?R m)")
proof
  assume ?L
  then obtain me u ma mi ls where parts:
    "s = me @ '' '' @ u @ '' '' @ ''HTTP/'' @ ma @ ''.'' @ mi @ [CR, LF] @ render_lines ls @ rest"
    "me \<noteq> []" "\<forall>c \<in> set me. token_char c" "\<forall>c \<in> set u. uri_char c"
    "version_digits ma" "version_digits mi" "lines_ok True ls"
    "r = \<lparr>req_method = me, req_uri = u, req_http_version_major = Some (dec_value ma),
       req_http_version_minor = Some (dec_value mi), req_headers = foldl add_line [] ls\<rparr>"
    unfolding accepts_request_line accepts_lines by (auto simp: empty_request_def)
  let ?m = "\<lparr>msg_method = me, msg_uri = u, msg_major = ma, msg_minor = mi, msg_lines = ls\<rparr>"
  from parts have "?R ?m"
    by (simp add: message_ok_def render_message_def message_request_def)
  then show "\<exists>m. ?R m" by blast
next
  assume "\<exists>m. ?R m"
  then obtain m where m: "?R m" by blast
  then have "accepts Header_line_start (message_request (m\<lparr>msg_lines := []\<rparr>))
    (render_lines (msg_lines m) @ rest) rest r"
    by (auto simp: accepts_lines message_ok_def message_request_def)
  with m show ?L
    unfolding accepts_request_line
    by (intro exI [of _ "msg_method m"] exI [of _ "msg_uri m"] exI [of _ "msg_major m"]
        exI [of _ "msg_minor m"] exI [of _ "render_lines (msg_lines m) @ rest"])
       (simp add: message_ok_def render_message_def message_request_def empty_request_def)
qed

section \<open>What a request is made of\<close>

text \<open>
  The type of a request that the parser is filling in, state by state: which characters each part
  is made of, and which parts have been begun.
\<close>

definition header_typed :: "http_header \<Rightarrow> bool" where
  "header_typed h \<longleftrightarrow> header_name h \<noteq> [] \<and> (\<forall>c \<in> set (header_name h). token_char c)
     \<and> (\<forall>c \<in> set (header_value h). text_char c)"

definition before_version :: "parser_state \<Rightarrow> bool" where
  "before_version st \<longleftrightarrow>
     st \<in> {Method_start, Method, Uri, Http_version_h, Http_version_t_1, Http_version_t_2,
       Http_version_p, Http_version_slash}"

definition request_typed :: "parser_state \<Rightarrow> request \<Rightarrow> bool" where
  "request_typed st r \<longleftrightarrow>
     (\<forall>c \<in> set (req_method r). token_char c) \<and> (req_method r = [] \<longleftrightarrow> st = Method_start)
     \<and> (\<forall>c \<in> set (req_uri r). uri_char c)
     \<and> (st \<in> {Method_start, Method} \<longrightarrow> req_uri r = [])
     \<and> (if before_version st
        then req_http_version_major r = None \<and> req_http_version_minor r = None
        else version_ok (req_http_version_major r) \<and> version_ok (req_http_version_minor r))
     \<and> (\<forall>h \<in> set (req_headers r). header_typed h)
     \<and> (before_version st \<or> in_version st \<or> st = Expecting_newline_1 \<longrightarrow> req_headers r = [])
     \<and> (in_header st \<longrightarrow> req_headers r \<noteq> [])"

lemma back_push_typed:
  assumes "\<forall>h \<in> set (req_headers r). header_typed h"
  shows "back_name_push c r = Some r' \<Longrightarrow> token_char c \<Longrightarrow> \<forall>h \<in> set (req_headers r'). header_typed h"
    "back_value_push c r = Some r' \<Longrightarrow> text_char c \<Longrightarrow> \<forall>h \<in> set (req_headers r'). header_typed h"
  using assms
  by (cases "req_headers r" rule: rev_cases;
      auto simp: back_name_push_def back_value_push_def update_back_def header_typed_def)+

lemma push_version_typed:
  "push_major c r = Some r' \<Longrightarrow> req_method r' = req_method r \<and> req_uri r' = req_uri r"
  "push_minor c r = Some r' \<Longrightarrow> req_method r' = req_method r \<and> req_uri r' = req_uri r"
  by (auto simp: push_major_def push_minor_def split: bind_splits)

lemma first_name_char:
  "token_char c \<Longrightarrow> header_typed (empty_header\<lparr>header_name := header_name empty_header @ [c]\<rparr>)"
  by (simp add: header_typed_def empty_header_def)

text \<open>The parts of the type, each kept by a step of its own accord.\<close>

definition line_typed :: "parser_state \<Rightarrow> request \<Rightarrow> bool" where
  "line_typed st r \<longleftrightarrow>
     (\<forall>c \<in> set (req_method r). token_char c) \<and> (req_method r = [] \<longleftrightarrow> st = Method_start)
     \<and> (\<forall>c \<in> set (req_uri r). uri_char c)
     \<and> (st \<in> {Method_start, Method} \<longrightarrow> req_uri r = [])"

definition version_typed :: "parser_state \<Rightarrow> request \<Rightarrow> bool" where
  "version_typed st r \<longleftrightarrow>
     (if before_version st
      then req_http_version_major r = None \<and> req_http_version_minor r = None
      else version_ok (req_http_version_major r) \<and> version_ok (req_http_version_minor r))"

definition headers_begun :: "parser_state \<Rightarrow> request \<Rightarrow> bool" where
  "headers_begun st r \<longleftrightarrow>
     (before_version st \<or> in_version st \<or> st = Expecting_newline_1 \<longrightarrow> req_headers r = [])
     \<and> (in_header st \<longrightarrow> req_headers r \<noteq> [])"

lemma request_typed_iff:
  "request_typed st r \<longleftrightarrow> line_typed st r \<and> version_typed st r
     \<and> (\<forall>h \<in> set (req_headers r). header_typed h) \<and> headers_begun st r"
  by (auto simp: request_typed_def line_typed_def version_typed_def headers_begun_def)

text \<open>The conditions of the code, as the classes of characters they are.\<close>

lemma character_classes:
  "is_ctl (char_to_int c) \<longleftrightarrow> \<not> text_char c"
  "\<not> is_char (char_to_int c) \<or> \<not> text_char c \<or> is_tspecial (char_to_int c) \<longleftrightarrow> \<not> token_char c"
  by (auto simp: text_char_def token_char_def)

lemma token_charI:
  "is_char (char_to_int c) \<Longrightarrow> text_char c \<Longrightarrow> \<not> is_tspecial (char_to_int c) \<Longrightarrow> token_char c"
  by (simp add: text_char_def token_char_def)

lemma uri_charI: "text_char c \<Longrightarrow> c \<noteq> CHR '' '' \<Longrightarrow> uri_char c"
  by (simp add: uri_char_def)

lemma consume_line_typed:
  "line_typed st r \<Longrightarrow> consume st r c = Some (out, st', r') \<Longrightarrow> line_typed st' r'"
  by (cases st)
     (auto simp: line_typed_def continue_with_def expect_def character_classes
       intro: token_charI uri_charI dest: push_version_typed back_push_frame split: if_splits)

lemma consume_version_typed:
  "version_typed st r \<Longrightarrow> consume st r c = Some (out, st', r') \<Longrightarrow> version_typed st' r'"
  by (cases st)
     (auto simp: version_typed_def before_version_def continue_with_def expect_def
       dest: push_version_ok push_version_frame back_push_frame split: if_splits)

lemma consume_headers_typed:
  "\<forall>h \<in> set (req_headers r). header_typed h \<Longrightarrow> consume st r c = Some (out, st', r') \<Longrightarrow>
     \<forall>h \<in> set (req_headers r'). header_typed h"
  by (cases st)
     (auto simp: continue_with_def expect_def token_char_def text_char_def first_name_char
       dest: push_version_frame back_push_typed split: if_splits)

lemma consume_headers_begun:
  "headers_begun st r \<Longrightarrow> consume st r c = Some (out, st', r') \<Longrightarrow> headers_begun st' r'"
  by (cases st)
     (auto simp: headers_begun_def before_version_def in_version_def in_header_def continue_with_def
       expect_def dest: push_version_frame back_push_headers split: if_splits)

lemma consume_typed:
  "request_typed st r \<Longrightarrow> consume st r c = Some (out, st', r') \<Longrightarrow> request_typed st' r'"
  using consume_line_typed [of st r c out st' r'] consume_version_typed [of st r c out st' r']
    consume_headers_typed [of r st c out st' r'] consume_headers_begun [of st r c out st' r']
  by (simp add: request_typed_iff)

section \<open>Properties\<close>

text \<open>
  Property C5. The parser accepts exactly the well-formed messages: a stream gets the verdict
  \<open>good\<close> with request \<open>r\<close> and unread rest \<open>rest\<close> if and only if it is the rendering of a
  well-formed message that denotes \<open>r\<close>, followed by \<open>rest\<close>.
\<close>

theorem parser_accepts_exactly_messages:
  "(\<exists>st. parse new_parser empty_request s = Some (Good, rest, st, r)) \<longleftrightarrow>
     (\<exists>m. message_ok m \<and> s = render_message m @ rest \<and> r = message_request m)"
  using accepts_message by (simp add: accepts_def)

text \<open>
  Property C21. The type of what the parser collects, whatever its input and whether it accepts it,
  rejects it or asks for more: the method and the names of the headers are made of token characters
  and are not empty once begun, the URI and the values hold no control character, the version is
  unset before its slash and then always a pair of numbers an \<open>int\<close> holds, and there is no header
  before the header lines and one in them. So no part of a request holds a CR, a LF or a NUL.
\<close>

theorem request_is_typed:
  assumes "parse new_parser empty_request s = Some (out, rest, st, r)"
  shows "request_typed st r
    \<and> (\<forall>t \<in> {req_method r, req_uri r} \<union> header_name ` set (req_headers r)
           \<union> header_value ` set (req_headers r). CR \<notin> set t \<and> LF \<notin> set t \<and> NUL \<notin> set t)"
proof -
  have "request_typed new_parser empty_request"
    by (simp add: request_typed_def before_version_def in_version_def in_header_def new_parser_def
        empty_request_def)
  then have typed: "request_typed st r"
    using http_parse.run_invariant [where I = "\<lambda>(st, r). request_typed st r" and xs = s
        and s = "(new_parser, empty_request)" and s' = "(st, r)" and out = out and rest = rest] assms
    by (auto intro: consume_typed)
  have chars: "text_char x" if "token_char x \<or> uri_char x" for x
    using that by (auto simp: token_char_def text_char_def uri_char_def)
  have "\<forall>x \<in> set (req_method r). text_char x" "\<forall>x \<in> set (req_uri r). text_char x"
    "\<forall>h \<in> set (req_headers r). (\<forall>x \<in> set (header_name h). text_char x)
       \<and> (\<forall>x \<in> set (header_value h). text_char x)"
    using typed chars by (simp_all add: request_typed_def header_typed_def)
  then have all_text: "text_char x"
    if "t \<in> {req_method r, req_uri r} \<union> header_name ` set (req_headers r)
      \<union> header_value ` set (req_headers r)" "x \<in> set t" for t x
    using that by auto
  have "\<not> text_char CR" "\<not> text_char LF" "\<not> text_char NUL"
    by (simp_all add: text_char_def is_ctl_def char_to_int_def)
  with all_text typed show ?thesis by blast
qed

text \<open>An input that ends in the middle of a header line.\<close>

theorem request_is_typed_witness:
  "\<exists>st r. parse new_parser empty_request ((''A b HTTP/'' @ ''1.0'') @ [CR, LF] @ ''C: d'') =
       Some (Indeterminate, [], st, r)
     \<and> request_typed Header_value r \<and> req_headers r = [\<lparr>header_name = ''C'', header_value = ''d''\<rparr>]"
proof -
  let ?r = "empty_request\<lparr>req_method := ''A'', req_uri := ''b'', req_http_version_major := Some 0,
    req_http_version_minor := Some 0\<rparr>"
  have "parse new_parser empty_request ''A b HTTP/'' = Some (Indeterminate, [], Http_version_major_start, ?r)"
    by (simp add: new_parser_def empty_request_def is_char_def is_ctl_def is_tspecial_def
        char_to_int_def expect_def)
  moreover have "parse Http_version_major_start ?r ''1.0'' =
    Some (Indeterminate, [], Http_version_minor, ?r\<lparr>req_http_version_major := Some 1\<rparr>)"
    by (simp add: empty_request_def is_digit_def char_to_int_def continue_with_def push_major_def
        push_minor_def push_digit_def c_int_def int_max_def int_min_def)
  moreover have "parse Http_version_minor (?r\<lparr>req_http_version_major := Some 1\<rparr>) ([CR, LF] @ ''C: d'') =
    Some (Indeterminate, [], Header_value, ?r\<lparr>req_http_version_major := Some 1,
       req_headers := [\<lparr>header_name = ''C'', header_value = ''d''\<rparr>]\<rparr>)"
    by (simp add: empty_request_def empty_header_def is_char_def is_ctl_def is_tspecial_def
        char_to_int_def expect_def continue_with_def back_name_push_def back_value_push_def
        update_back_def)
  ultimately have "parse new_parser empty_request ((''A b HTTP/'' @ ''1.0'') @ [CR, LF] @ ''C: d'') =
    Some (Indeterminate, [], Header_value, ?r\<lparr>req_http_version_major := Some 1,
       req_headers := [\<lparr>header_name = ''C'', header_value = ''d''\<rparr>]\<rparr>)"
    by (simp only: parse_append option.case prod.case result_type.case) simp
  with request_is_typed [OF this] show ?thesis by simp
qed

end
