(* ===== verification/Http_Reply.thy ===== *)
theory Http_Reply
  imports Http_Message
begin

text \<open>
  \<open>struct reply\<close> of http_server/reply.hpp and reply.cpp: the status codes, the status lines,
  the stock replies, and the list of buffers a reply is sent as. A \<open>const_buffer\<close> is the
  memory object its pointer points into (from the pointer to the end of the object) and a
  size, because a log statement of the connection later reads it as a NUL terminated string.
\<close>

section \<open>Status codes\<close>

datatype status_type =
    Ok
  | Created
  | Accepted
  | No_content
  | Multiple_choices
  | Moved_permanently
  | Moved_temporarily
  | Not_modified
  | Bad_request
  | Unauthorized
  | Forbidden
  | Not_found
  | Internal_server_error
  | Not_implemented
  | Bad_gateway
  | Service_unavailable

text \<open>The values of the enumerators.\<close>

fun status_code :: "status_type \<Rightarrow> nat" where
  "status_code Ok = 200"
| "status_code Created = 201"
| "status_code Accepted = 202"
| "status_code No_content = 204"
| "status_code Multiple_choices = 300"
| "status_code Moved_permanently = 301"
| "status_code Moved_temporarily = 302"
| "status_code Not_modified = 304"
| "status_code Bad_request = 400"
| "status_code Unauthorized = 401"
| "status_code Forbidden = 403"
| "status_code Not_found = 404"
| "status_code Internal_server_error = 500"
| "status_code Not_implemented = 501"
| "status_code Bad_gateway = 502"
| "status_code Service_unavailable = 503"

text \<open>Enumerators compare by their values, and a size for the library's size function.\<close>

instantiation status_type :: linorder
begin

definition less_eq_status_type :: "status_type \<Rightarrow> status_type \<Rightarrow> bool" where
  "less_eq_status_type a b \<longleftrightarrow> status_code a \<le> status_code b"

definition less_status_type :: "status_type \<Rightarrow> status_type \<Rightarrow> bool" where
  "less_status_type a b \<longleftrightarrow> status_code a < status_code b"

lemma status_code_inject: "status_code a = status_code b \<Longrightarrow> a = b"
  by (cases a; cases b) simp_all

instance
  by standard (auto simp: less_eq_status_type_def less_status_type_def dest: status_code_inject)

end

record reply =
  rep_status :: status_type
  rep_headers :: "http_header list"
  rep_content :: string

section \<open>Buffers\<close>

record const_buffer =
  buf_object :: string
  buf_size :: nat

text \<open>
  \<open>boost::asio::buffer\<close> of a \<open>std::string\<close> (whose storage ends with a NUL after the
  characters) and of a character array (whose storage is exactly its elements).
\<close>

definition buffer_of_string :: "string \<Rightarrow> const_buffer" where
  "buffer_of_string s = \<lparr>buf_object = s @ [NUL], buf_size = length s\<rparr>"

definition buffer_of_array :: "string \<Rightarrow> const_buffer" where
  "buffer_of_array a = \<lparr>buf_object = a, buf_size = length a\<rparr>"

text \<open>What a write of the buffer sends.\<close>

definition buffer_bytes :: "const_buffer \<Rightarrow> string" where
  "buffer_bytes b = take (buf_size b) (buf_object b)"

text \<open>
  \<open>std::string(const char*)\<close> from the buffer's pointer: the characters before the first
  NUL of the object, undefined (\<open>None\<close>) if the object holds none.
\<close>

definition buffer_c_string :: "const_buffer \<Rightarrow> string option" where
  "buffer_c_string b = (if NUL \<in> set (buf_object b) then Some (c_str (buf_object b)) else None)"

section \<open>Status lines and stock replies\<close>

text \<open>\<open>status_strings::to_buffer\<close> of http_server/reply.cpp, with the strings it refers to.\<close>

fun status_line :: "status_type \<Rightarrow> string" where
  "status_line Ok = ''HTTP/1.0 200 OK'' @ [CR, LF]"
| "status_line Created = ''HTTP/1.0 201 Created'' @ [CR, LF]"
| "status_line Accepted = ''HTTP/1.0 202 Accepted'' @ [CR, LF]"
| "status_line No_content = ''HTTP/1.0 204 No Content'' @ [CR, LF]"
| "status_line Multiple_choices = ''HTTP/1.0 300 Multiple Choices'' @ [CR, LF]"
| "status_line Moved_permanently = ''HTTP/1.0 301 Moved Permanently'' @ [CR, LF]"
| "status_line Moved_temporarily = ''HTTP/1.0 302 Moved Temporarily'' @ [CR, LF]"
| "status_line Not_modified = ''HTTP/1.0 304 Not Modified'' @ [CR, LF]"
| "status_line Bad_request = ''HTTP/1.0 400 Bad Request'' @ [CR, LF]"
| "status_line Unauthorized = ''HTTP/1.0 401 Unauthorized'' @ [CR, LF]"
| "status_line Forbidden = ''HTTP/1.0 403 Forbidden'' @ [CR, LF]"
| "status_line Not_found = ''HTTP/1.0 404 Not Found'' @ [CR, LF]"
| "status_line Internal_server_error = ''HTTP/1.0 500 Internal Server Error'' @ [CR, LF]"
| "status_line Not_implemented = ''HTTP/1.0 501 Not Implemented'' @ [CR, LF]"
| "status_line Bad_gateway = ''HTTP/1.0 502 Bad Gateway'' @ [CR, LF]"
| "status_line Service_unavailable = ''HTTP/1.0 503 Service Unavailable'' @ [CR, LF]"

definition status_buffer :: "status_type \<Rightarrow> const_buffer" where
  "status_buffer st = buffer_of_string (status_line st)"

text \<open>
  \<open>stock_replies::to_string\<close> of http_server/reply.cpp. Its last label is spelt
  \<open>defualt\<close>, so it is an unused goto label and not a default case; every enumerator has a
  case of its own.
\<close>

fun stock_content :: "status_type \<Rightarrow> string" where
  "stock_content Ok = []"
| "stock_content Created =
     ''<html><head><title>Created</title></head>'' @
     ''<body><h1>201 Created</h1></body></html>''"
| "stock_content Accepted =
     ''<html><head><title>Accepted</title></head>'' @
     ''<body><h1>202 Accepted</h1></body></html>''"
| "stock_content No_content =
     ''<html><head><title>No Content</title></head>'' @
     ''<body><h1>204 Content</h1></body></html>''"
| "stock_content Multiple_choices =
     ''<html><head><title>Multiple Choices</title></head>'' @
     ''<body><h1>300 Multiple Choices</h1></body></html>''"
| "stock_content Moved_permanently =
     ''<html><head><title>Moved Permanently</title></head>'' @
     ''<body><h1>301 Moved Permanently</h1></body></html>''"
| "stock_content Moved_temporarily =
     ''<html><head><title>Moved Temporarily</title></head>'' @
     ''<body><h1>302 Moved Temporarily</h1></body></html>''"
| "stock_content Not_modified =
     ''<html><head><title>Not Modified</title></head>'' @
     ''<body><h1>304 Not Modified</h1></body></html>''"
| "stock_content Bad_request =
     ''<html><head><title>Bad Request</title></head>'' @
     ''<body><h1>400 Bad Request</h1></body></html>''"
| "stock_content Unauthorized =
     ''<html><head><title>Unauthorized</title></head>'' @
     ''<body><h1>401 Unauthorized</h1></body></html>''"
| "stock_content Forbidden =
     ''<html><head><title>Forbidden</title></head>'' @
     ''<body><h1>403 Forbidden</h1></body></html>''"
| "stock_content Not_found =
     ''<html><head><title>Not Found</title></head>'' @
     ''<body><h1>404 Not Found</h1></body></html>''"
| "stock_content Internal_server_error =
     ''<html><head><title>Internal Server Error</title></head>'' @
     ''<body><h1>500 Internal Server Error</h1></body></html>''"
| "stock_content Not_implemented =
     ''<html><head><title>Not Implemented</title></head>'' @
     ''<body><h1>501 Not Implemented</h1></body></html>''"
| "stock_content Bad_gateway =
     ''<html><head><title>Bad Gateway</title></head>'' @
     ''<body><h1>502 Bad Gateway</h1></body></html>''"
| "stock_content Service_unavailable =
     ''<html><head><title>Service Unavailable</title></head>'' @
     ''<body><h1>503 Service Unavailable</h1></body></html>''"

definition name_value_separator :: string where
  "name_value_separator = [CHR '':'', CHR '' '']"

definition crlf :: string where
  "crlf = [CR, LF]"

text \<open>\<open>reply::to_buffers()\<close>: the loop over the headers, then an empty line and the content.\<close>

fun header_buffers :: "http_header list \<Rightarrow> const_buffer list" where
  "header_buffers [] = []"
| "header_buffers (h # hs) =
     buffer_of_string (header_name h) # buffer_of_array name_value_separator
     # buffer_of_string (header_value h) # buffer_of_array crlf # header_buffers hs"

definition to_buffers :: "reply \<Rightarrow> const_buffer list" where
  "to_buffers rep =
     status_buffer (rep_status rep) # header_buffers (rep_headers rep)
     @ [buffer_of_array crlf, buffer_of_string (rep_content rep)]"

text \<open>\<open>reply::stock_reply\<close>.\<close>

definition stock_reply :: "status_type \<Rightarrow> reply" where
  "stock_reply status =
     \<lparr>rep_status = status,
      rep_headers =
        [\<lparr>header_name = ''Content-Length'',
          header_value = nat_to_string (length (stock_content status))\<rparr>,
         \<lparr>header_name = ''Content-Type'', header_value = ''test/html''\<rparr>],
      rep_content = stock_content status\<rparr>"

text \<open>The bytes an \<open>async_write\<close> of a buffer sequence sends.\<close>

definition buffers_bytes :: "const_buffer list \<Rightarrow> string" where
  "buffers_bytes bs = concat (map buffer_bytes bs)"

definition reply_bytes :: "reply \<Rightarrow> string" where
  "reply_bytes rep = buffers_bytes (to_buffers rep)"

section \<open>The bytes on the wire\<close>

lemma buffer_bytes_simps [simp]:
  "buffer_bytes (buffer_of_string s) = s" "buffer_bytes (buffer_of_array a) = a"
  by (simp_all add: buffer_bytes_def buffer_of_string_def buffer_of_array_def)

lemma buffers_bytes_simps [simp]:
  "buffers_bytes [] = []" "buffers_bytes (b # bs) = buffer_bytes b @ buffers_bytes bs"
  "buffers_bytes (bs @ cs) = buffers_bytes bs @ buffers_bytes cs"
  by (simp_all add: buffers_bytes_def)

definition render_header :: "http_header \<Rightarrow> string" where
  "render_header h = header_name h @ '': '' @ header_value h @ [CR, LF]"

lemma header_buffers_bytes: "buffers_bytes (header_buffers hs) = concat (map render_header hs)"
  by (induction hs) (auto simp: render_header_def name_value_separator_def crlf_def)

lemma reply_bytes_eq:
  "reply_bytes rep =
     status_line (rep_status rep) @ concat (map render_header (rep_headers rep)) @ [CR, LF]
     @ rep_content rep"
  by (simp add: reply_bytes_def to_buffers_def header_buffers_bytes status_buffer_def crlf_def)

lemma header_buffers_length: "length (header_buffers hs) = 4 * length hs"
  by (induction hs) auto

section \<open>Reading a reply back\<close>

text \<open>
  A reader for what is on the wire, as a client has one: lines up to CR LF, header lines split
  at the first colon, the content after the empty line. It is the specification that the
  buffers are checked against.
\<close>

definition read_line :: "string \<Rightarrow> string \<times> string" where
  "read_line s = (takeWhile (\<lambda>c. c \<noteq> CR) s, drop 2 (dropWhile (\<lambda>c. c \<noteq> CR) s))"

definition read_header :: "string \<Rightarrow> http_header" where
  "read_header l =
     \<lparr>header_name = takeWhile (\<lambda>c. c \<noteq> CHR '':'') l,
      header_value = drop 2 (dropWhile (\<lambda>c. c \<noteq> CHR '':'') l)\<rparr>"

lemma read_line_shorter: "takeWhile (\<lambda>c. c \<noteq> CR) s \<noteq> [] \<Longrightarrow> length (snd (read_line s)) < length s"
  using length_dropWhile_le [of "\<lambda>c. c \<noteq> CR" "tl s"] by (cases s) (auto simp: read_line_def)

function read_headers :: "string \<Rightarrow> http_header list \<times> string" where
  "read_headers s =
     (if fst (read_line s) = [] then ([], snd (read_line s))
      else (let (hs, content) = read_headers (snd (read_line s))
            in (read_header (fst (read_line s)) # hs, content)))"
  by pat_completeness auto
termination
  by (relation "measure length") (auto simp: read_line_def dest: read_line_shorter [unfolded read_line_def])

declare read_headers.simps [simp del]

definition read_reply :: "string \<Rightarrow> string \<times> http_header list \<times> string" where
  "read_reply s = (fst (read_line s), read_headers (snd (read_line s)))"

definition header_ok :: "http_header \<Rightarrow> bool" where
  "header_ok h \<longleftrightarrow>
     CR \<notin> set (header_name h) \<and> CHR '':'' \<notin> set (header_name h) \<and> CR \<notin> set (header_value h)"

definition status_text :: "status_type \<Rightarrow> string" where
  "status_text st = fst (read_line (status_line st))"

lemma takeWhile_delimiter:
  "d \<notin> set xs \<Longrightarrow> takeWhile (\<lambda>c. c \<noteq> d) (xs @ d # ys) = xs"
  "d \<notin> set xs \<Longrightarrow> dropWhile (\<lambda>c. c \<noteq> d) (xs @ d # ys) = d # ys"
  by (induction xs) auto

lemma read_line_append: "CR \<notin> set l \<Longrightarrow> read_line (l @ CR # LF # s) = (l, s)"
  by (simp add: read_line_def takeWhile_delimiter)

lemma status_line_eq: "status_line st = status_text st @ [CR, LF] \<and> CR \<notin> set (status_text st)"
  by (cases st) (simp_all add: status_text_def read_line_def)

lemma read_headers_line:
  "read_line s = (l, t) \<Longrightarrow> l \<noteq> [] \<Longrightarrow> read_headers t = (hs, content) \<Longrightarrow>
     read_headers s = (read_header l # hs, content)"
  by (subst read_headers.simps) simp

lemma read_headers_append:
  assumes "\<forall>h \<in> set hs. header_ok h"
  shows "read_headers (concat (map render_header hs) @ CR # LF # content) = (hs, content)"
  using assms
proof (induction hs)
  case Nil
  then show ?case
    using read_line_append [of "[]"] by (simp add: read_headers.simps)
next
  case (Cons h hs)
  let ?l = "header_name h @ '': '' @ header_value h"
  have line: "read_line (?l @ CR # LF # concat (map render_header hs) @ CR # LF # content)
    = (?l, concat (map render_header hs) @ CR # LF # content)"
    using Cons.prems by (intro read_line_append) (simp add: header_ok_def)
  have "read_header ?l = h"
    using Cons.prems takeWhile_delimiter [of "CHR '':''" "header_name h"]
    by (simp add: read_header_def header_ok_def)
  moreover have "concat (map render_header (h # hs)) @ CR # LF # content
    = ?l @ CR # LF # concat (map render_header hs) @ CR # LF # content"
    by (simp add: render_header_def)
  moreover have "?l \<noteq> []" by simp
  moreover have "read_headers (concat (map render_header hs) @ CR # LF # content) = (hs, content)"
    using Cons by simp
  ultimately show ?case
    using read_headers_line [OF line] by simp
qed

lemma read_reply_bytes:
  assumes "\<forall>h \<in> set (rep_headers rep). header_ok h"
  shows "read_reply (reply_bytes rep) =
    (status_text (rep_status rep), rep_headers rep, rep_content rep)"
proof -
  have bytes: "reply_bytes rep = status_text (rep_status rep) @ CR # LF
      # concat (map render_header (rep_headers rep)) @ CR # LF # rep_content rep"
    using status_line_eq [of "rep_status rep"] by (simp add: reply_bytes_eq)
  show ?thesis
    unfolding read_reply_def bytes
    using status_line_eq [of "rep_status rep"]
    by (simp add: read_line_append read_headers_append [OF assms])
qed

lemma nat_to_string_no_CR: "CR \<notin> set (nat_to_string n)"
  using nat_to_string_digits [of n] by (auto simp: is_dec_def char_to_int_def)

lemma stock_headers_ok: "\<forall>h \<in> set (rep_headers (stock_reply st)). header_ok h"
  by (simp add: stock_reply_def header_ok_def nat_to_string_no_CR)

section \<open>What a connection needs of a request handler\<close>

text \<open>
  A connection sends whatever its request handler makes of a request. What it relies on is that
  the headers of the reply cannot be mistaken for something else on the wire.
\<close>

locale request_service =
  fixes respond :: "request \<Rightarrow> reply \<Rightarrow> reply"
  assumes respond_headers: "h \<in> set (rep_headers (respond req rep)) \<Longrightarrow> header_ok h"
begin

lemma respond_readable:
  "read_reply (reply_bytes (respond req rep)) =
     (status_text (rep_status (respond req rep)), rep_headers (respond req rep),
      rep_content (respond req rep))"
  by (rule read_reply_bytes) (simp add: respond_headers)

end

section \<open>Properties\<close>

text \<open>
  A stock reply on the wire is a complete HTTP message: it reads back as the
  status, its two headers and its content, and the value of the length header is the decimal
  length of exactly the content that follows the empty line.
\<close>

theorem stock_reply_on_the_wire:
  "\<exists>value.
     read_reply (reply_bytes (stock_reply st)) =
       (status_text st,
        [\<lparr>header_name = ''Content-Length'', header_value = value\<rparr>,
         \<lparr>header_name = ''Content-Type'', header_value = ''test/html''\<rparr>], stock_content st)
     \<and> dec_value value = int (length (stock_content st))"
  using read_reply_bytes [OF stock_headers_ok [of st]]
  by (simp add: stock_reply_def)

text \<open>
  For every reply, one of the buffers that the connection's write logs as a C
  string holds no NUL: reading it as one runs past the end of the array it points to.
\<close>

theorem reply_buffers_not_c_strings:
  "\<exists>b \<in> set (to_buffers rep). buffer_c_string b = None"
  by (simp add: to_buffers_def buffer_c_string_def buffer_of_array_def crlf_def)

end
