(* ===== verification/Http_Request_Handler.thy ===== *)
theory Http_Request_Handler
  imports Http_Reply
begin

text \<open>
  \<open>class request_handler\<close> of http_server/request_handler.cpp and
  \<open>mime_types::extension_to_type\<close> of http_server/mime_types.cpp: decoding the URI, checking
  the path, and building the reply from a file. The file system is a parameter
  \<open>files\<close>, which gives for a C path the bytes an input stream opened on it delivers, or
  \<open>None\<close> if it cannot be opened.
\<close>

section \<open>Media types\<close>

definition mappings :: "(string \<times> string) list" where
  "mappings =
     [(''gif'', ''image/gif''),
      (''htm'', ''text/html''),
      (''html'', ''text/html''),
      (''jpg'', ''image/jpeg''),
      (''png'', ''image/png'')]"

fun find_mapping :: "(string \<times> string) list \<Rightarrow> string \<Rightarrow> string" where
  "find_mapping [] extension = ''text/plain''"
| "find_mapping (m # ms) extension =
     (if fst m = extension then snd m else find_mapping ms extension)"

definition extension_to_type :: "string \<Rightarrow> string" where
  "extension_to_type extension = find_mapping mappings extension"

section \<open>Decoding the URI\<close>

text \<open>
  \<open>url_decode(in, out)\<close>: the loop over the index \<open>i\<close>, with the output built so far.
  \<open>None\<close> is the return value \<open>false\<close>.
\<close>

function url_loop :: "string \<Rightarrow> nat \<Rightarrow> string \<Rightarrow> string option" where
  "url_loop inp i out =
     (if i < length inp then
        if inp ! i = CHR ''%'' then
          if i + 3 \<le> length inp then
            (case extract_hex (take 2 (drop (i + 1) inp)) of
               Some v \<Rightarrow> url_loop inp (i + 3) (out @ [int_to_char v])
             | None \<Rightarrow> None)
          else None
        else if inp ! i = CHR ''+'' then url_loop inp (i + 1) (out @ '' '')
        else url_loop inp (i + 1) (out @ [inp ! i])
      else Some out)"
  by pat_completeness auto
termination
  by (relation "measure (\<lambda>(inp, i, out). length inp - i)") auto

declare url_loop.simps [simp del]

definition url_decode :: "string \<Rightarrow> string option" where
  "url_decode inp = url_loop inp 0 []"

section \<open>Handling a request\<close>

text \<open>\<open>rep.headers.resize(n)\<close>.\<close>

definition resize_headers :: "nat \<Rightarrow> http_header list \<Rightarrow> http_header list" where
  "resize_headers n hs = take n hs @ replicate (n - length hs) empty_header"

text \<open>
  The loop \<open>while (is.read(buf, 512).gcount() > 0) content.append(buf, is.gcount())\<close> over
  what is left of the file.
\<close>

function read_loop :: "string \<Rightarrow> string \<Rightarrow> string" where
  "read_loop content left =
     (let buf = take 512 left in
      if length buf > 0 then read_loop (content @ buf) (drop 512 left) else content)"
  by pat_completeness auto
termination
  by (relation "measure (\<lambda>(content, left). length left)") auto

declare read_loop.simps [simp del]

text \<open>
  The extension: what follows the last dot, when that dot is after the last slash.
  \<open>npos\<close> is the largest position, so no dot is after a missing slash.
\<close>

definition path_extension :: "string \<Rightarrow> string" where
  "path_extension request_path =
     (case find_last_of CHR ''.'' request_path of
        None \<Rightarrow> []
      | Some last_dot_pos \<Rightarrow>
          (case find_last_of CHR ''/'' request_path of
             None \<Rightarrow> []
           | Some last_slash_pos \<Rightarrow>
               if last_dot_pos > last_slash_pos then drop (last_dot_pos + 1) request_path
               else []))"

definition add_index :: "string \<Rightarrow> string" where
  "add_index request_path =
     (if last request_path = CHR ''/'' then request_path @ ''index.html'' else request_path)"

text \<open>
  \<open>handle_request(req, rep)\<close>, with \<open>doc_root_\<close> as its first argument; the result is
  \<open>rep\<close> after the call. The fields of \<open>rep\<close> that the successful branch does not set
  keep their values (the content is appended to).
\<close>

definition serve_file :: "(string \<Rightarrow> string option) \<Rightarrow> string \<Rightarrow> string \<Rightarrow> reply \<Rightarrow> reply" where
  "serve_file files doc_root path0 rep =
     (let request_path = add_index path0;
          extension = path_extension request_path;
          full_path = doc_root @ request_path
      in case files (c_str full_path) of
           None \<Rightarrow> stock_reply Not_found
         | Some bytes \<Rightarrow>
             let content = read_loop (rep_content rep) bytes;
                 headers = (resize_headers 2 (rep_headers rep))
                   [0 := \<lparr>header_name = ''Conetent-Length'',
                          header_value = nat_to_string (length content)\<rparr>,
                    1 := \<lparr>header_name = ''Content-type'',
                          header_value = extension_to_type extension\<rparr>]
             in \<lparr>rep_status = Ok, rep_headers = headers, rep_content = content\<rparr>)"

definition handle_request ::
    "(string \<Rightarrow> string option) \<Rightarrow> string \<Rightarrow> request \<Rightarrow> reply \<Rightarrow> reply" where
  "handle_request files doc_root req rep =
     (case url_decode (req_uri req) of
        None \<Rightarrow> stock_reply Bad_request
      | Some request_path \<Rightarrow>
          if request_path = [] \<or> request_path ! 0 \<noteq> CHR ''/''
             \<or> find_sub ''..'' request_path \<noteq> None
          then stock_reply Bad_request
          else serve_file files doc_root request_path rep)"

section \<open>The decoder against a list recursion\<close>

fun decode_spec :: "string \<Rightarrow> string option" where
  "decode_spec [] = Some []"
| "decode_spec (c # s) =
     (if c = CHR ''%'' then
        (case s of
           a # b # t \<Rightarrow>
             (case extract_hex [a, b] of
                Some v \<Rightarrow> map_option ((#) (int_to_char v)) (decode_spec t)
              | None \<Rightarrow> None)
         | _ \<Rightarrow> None)
      else map_option ((#) (if c = CHR ''+'' then CHR '' '' else c)) (decode_spec s))"

lemma url_loop_eq: "url_loop inp i out = map_option ((@) out) (decode_spec (drop i inp))"
proof (induction inp i out rule: url_loop.induct)
  case (1 inp i out)
  show ?case
  proof (cases "i < length inp")
    case False
    then show ?thesis by (simp add: url_loop.simps [of inp])
  next
    case i: True
    then have drop: "drop i inp = inp ! i # drop (i + 1) inp"
      by (simp add: Cons_nth_drop_Suc)
    consider (pct) "inp ! i = CHR ''%''" "i + 3 \<le> length inp"
      | (short) "inp ! i = CHR ''%''" "\<not> i + 3 \<le> length inp"
      | (other) "inp ! i \<noteq> CHR ''%''" by blast
    then show ?thesis
    proof cases
      case pct
      then obtain a b where ab: "drop (i + 1) inp = a # b # drop (i + 3) inp"
        by (metis Cons_nth_drop_Suc Suc_eq_plus1 add_Suc_right eval_nat_numeral(3) less_eq_Suc_le
            numeral_2_eq_2 One_nat_def Suc_leD)
      show ?thesis
      proof (cases "extract_hex [a, b]")
        case None
        with i pct ab show ?thesis by (simp add: url_loop.simps [of inp] drop)
      next
        case (Some v)
        then have "url_loop inp (i + 3) (out @ [int_to_char v]) =
          map_option ((@) (out @ [int_to_char v])) (decode_spec (drop (i + 3) inp))"
          using i pct by (intro "1.IH"(1)) (simp_all add: ab [simplified])
        with Some i pct ab show ?thesis
          by (cases "decode_spec (drop (i + 3) inp)") (simp_all add: url_loop.simps [of inp] drop)
      qed
    next
      case short
      then have "length (drop (i + 1) inp) < 2" by simp
      then have "drop (i + 1) inp = [] \<or> (\<exists>a. drop (i + 1) inp = [a])"
        by (cases "drop (i + 1) inp"; cases "tl (drop (i + 1) inp)") simp_all
      with i short show ?thesis by (auto simp: url_loop.simps [of inp] drop)
    next
      case other
      with "1.IH"(2, 3) i show ?thesis
        by (simp add: url_loop.simps [of inp] drop option.map_comp comp_def)
    qed
  qed
qed

lemma url_decode_eq: "url_decode inp = decode_spec inp"
  by (cases "decode_spec inp") (simp_all add: url_decode_def url_loop_eq)

lemma decode_spec_length: "decode_spec s = Some t \<Longrightarrow> length t \<le> length s"
proof (induction s arbitrary: t rule: decode_spec.induct)
  case 1
  then show ?case by simp
next
  case (2 c s)
  show ?case
  proof (cases "c = CHR ''%''")
    case True
    with "2.prems" obtain a b u v where s: "s = a # b # u" "extract_hex [a, b] = Some v"
      "map_option ((#) (int_to_char v)) (decode_spec u) = Some t"
      by (auto split: list.splits option.splits)
    then obtain t' where "decode_spec u = Some t'" "t = int_to_char v # t'" by auto
    then have "length t' \<le> length u"
      using "2.IH"(1) [OF True s(1) refl s(2)] by blast
    with s \<open>t = _\<close> show ?thesis by simp
  next
    case False
    with "2.prems" obtain t' where "decode_spec s = Some t'" "length t = Suc (length t')"
      by auto
    with "2.IH"(2) [OF False] show ?thesis by simp
  qed
qed

text \<open>An encoder that keeps the unreserved characters and writes the others as \<open>%XX\<close>.\<close>

definition hex_char :: "nat \<Rightarrow> char" where
  "hex_char d = (if d < 10 then char_of (48 + d) else char_of (55 + d))"

definition unreserved :: "char \<Rightarrow> bool" where
  "unreserved c \<longleftrightarrow> c \<noteq> CHR ''%'' \<and> c \<noteq> CHR ''+''"

definition encode_char :: "(char \<Rightarrow> bool) \<Rightarrow> char \<Rightarrow> string" where
  "encode_char keep c =
     (if keep c \<and> unreserved c then [c]
      else [CHR ''%'', hex_char (of_char c div 16), hex_char (of_char c mod 16)])"

definition url_encode :: "(char \<Rightarrow> bool) \<Rightarrow> string \<Rightarrow> string" where
  "url_encode keep s = concat (map (encode_char keep) s)"

lemma hex_char_value:
  assumes "d < 16"
  shows "char_to_int (hex_char d) = (if d < 10 then 48 + int d else 55 + int d)"
proof -
  have "(of_char (hex_char d) :: nat) = (if d < 10 then 48 + d else 55 + d)"
    using assms by (simp add: hex_char_def)
  then have "(of_char (hex_char d) :: int) = (if d < 10 then 48 + int d else 55 + int d)"
    by (metis of_nat_of_char of_nat_add of_nat_numeral)
  with assms show ?thesis by (simp add: char_to_int_def)
qed

lemma hex_digit_hex_char: "d < 16 \<Longrightarrow> hex_digit (hex_char d) = Some (int d)"
  by (simp add: hex_digit_def hex_char_value Let_def)

lemma hex_char_plain:
  assumes "d < 16"
  shows "\<not> is_space (hex_char d)" "hex_char d \<noteq> CHR ''-''" "hex_char d \<noteq> CHR ''+''"
    "hex_char d \<noteq> CHR ''x''" "hex_char d \<noteq> CHR ''X''"
proof -
  have v: "48 \<le> char_to_int (hex_char d)" "char_to_int (hex_char d) \<le> 70"
    using assms by (simp_all add: hex_char_value)
  have "x = hex_char d \<Longrightarrow> 48 \<le> char_to_int x \<and> char_to_int x \<le> 70" for x
    using v by simp
  from this [of "CHR '' ''"] this [of TAB] this [of LF] this [of "CHR 0x0B"] this [of "CHR 0x0C"]
    this [of CR] this [of "CHR ''-''"] this [of "CHR ''+''"] this [of "CHR ''x''"]
    this [of "CHR ''X''"]
  show "\<not> is_space (hex_char d)" "hex_char d \<noteq> CHR ''-''" "hex_char d \<noteq> CHR ''+''"
    "hex_char d \<noteq> CHR ''x''" "hex_char d \<noteq> CHR ''X''"
    by (auto simp: is_space_def char_to_int_def)
qed

lemma extract_hex_two:
  assumes "d < 16" "e < 16"
  shows "extract_hex [hex_char d, hex_char e] = Some (int (d * 16 + e))"
  using assms hex_char_plain [of d] hex_char_plain [of e]
  by (simp add: extract_hex_def hex_magnitude_def hex_digit_hex_char hex_value_def)

lemma decode_encode_char:
  "decode_spec (encode_char keep c @ s) = map_option ((#) c) (decode_spec s)"
proof (cases "keep c \<and> unreserved c")
  case True
  then show ?thesis by (simp add: encode_char_def unreserved_def)
next
  case False
  obtain n where n: "n < 256" "(of_char c :: nat) = n" "c = char_of n"
    using nat_of_char_less_256 [of c] char_of_char [of c] by metis
  then have "n div 16 < 16" by simp
  then have "extract_hex [hex_char (n div 16), hex_char (n mod 16)] = Some (int n)"
    by (simp add: extract_hex_two)
  moreover have "int_to_char (int n) = c"
    using n by (simp add: int_to_char_def)
  moreover have "encode_char keep c = [CHR ''%'', hex_char (n div 16), hex_char (n mod 16)]"
    using False n(2) by (auto simp: encode_char_def)
  ultimately show ?thesis by simp
qed

lemma decode_encode: "decode_spec (url_encode keep s) = Some s"
  by (induction s) (simp_all add: url_encode_def decode_encode_char)

section \<open>Reading the file\<close>

lemma read_loop_eq: "read_loop content left = content @ left"
proof (induction content left rule: read_loop.induct)
  case (1 content left)
  show ?case
  proof (cases "left = []")
    case True
    then show ?thesis by (simp add: read_loop.simps [of content])
  next
    case False
    with "1" [OF refl] show ?thesis
      by (simp add: read_loop.simps [of content left] Let_def)
  qed
qed

lemma resize_headers_set:
  "(resize_headers 2 hs)[0 := a, 1 := b] = [a, b]"
proof -
  have "length (resize_headers 2 hs) = 2"
    by (auto simp: resize_headers_def)
  then obtain x y where "resize_headers 2 hs = [x, y]"
    by (auto simp: numeral_2_eq_2 length_Suc_conv)
  then show ?thesis by simp
qed

lemma serve_file_eq:
  "serve_file files doc_root p rep =
     (case files (c_str (doc_root @ add_index p)) of
        None \<Rightarrow> stock_reply Not_found
      | Some bytes \<Rightarrow>
          \<lparr>rep_status = Ok,
           rep_headers =
             [\<lparr>header_name = ''Conetent-Length'',
               header_value = nat_to_string (length (rep_content rep @ bytes))\<rparr>,
              \<lparr>header_name = ''Content-type'',
               header_value = extension_to_type (path_extension (add_index p))\<rparr>],
           rep_content = rep_content rep @ bytes\<rparr>)"
  unfolding serve_file_def Let_def read_loop_eq resize_headers_set by (rule refl)

section \<open>Which files can be opened\<close>

text \<open>
  The components of a path between its slashes, and the paths that stay inside the directory
  they are relative to: absolute, no component that climbs up, and no NUL to cut them short.
\<close>

fun components :: "string \<Rightarrow> string list" where
  "components [] = [[]]"
| "components (c # s) =
     (if c = CHR ''/'' then [] # components s
      else (c # hd (components s)) # tl (components s))"

definition confined :: "string \<Rightarrow> bool" where
  "confined p \<longleftrightarrow> p \<noteq> [] \<and> hd p = CHR ''/'' \<and> ''..'' \<notin> set (components p) \<and> NUL \<notin> set p"

lemma components_nonempty: "components s \<noteq> []"
  by (cases s) auto

lemma components_sublist: "w \<in> set (components s) \<Longrightarrow> sublist w s"
proof -
  have "(\<forall>w \<in> set (components s). sublist w s) \<and> prefix (hd (components s)) s"
  proof (induction s)
    case Nil
    then show ?case by simp
  next
    case (Cons c s)
    then have "set (tl (components s)) \<subseteq> set (components s)"
      by (cases "components s") auto
    with Cons show ?case
      by (auto simp: sublist_Cons_right)
  qed
  then show "w \<in> set (components s) \<Longrightarrow> sublist w s" by blast
qed

lemma sublist_c_str: "sublist w (c_str s) \<Longrightarrow> sublist w s"
  using c_str_prefix [of s] by (meson prefix_imp_sublist sublist_order.order_trans)

lemma dots_add_index:
  assumes "p \<noteq> []" "\<not> sublist ''..'' p"
  shows "\<not> sublist ''..'' (add_index p)"
proof (cases "last p = CHR ''/''")
  case True
  have "\<not> suffix (w @ ''.'') p" for w
    using True by (auto simp: suffix_def)
  from this [of "''.''"] this [of "[]"] have "xs1 @ xs2 = ''..'' \<Longrightarrow> suffix xs1 p \<Longrightarrow> xs1 = []" for xs1 xs2
    by (cases xs1 rule: rev_exhaust; cases xs2) (auto simp: Cons_eq_append_conv append_eq_Cons_conv)
  moreover have "\<not> sublist ''..'' ''index.html''" "\<not> prefix ''..'' ''index.html''"
    by (simp_all add: sublist_Cons_right)
  ultimately have "\<not> sublist ''..'' (p @ ''index.html'')"
    unfolding sublist_append using assms(2) by (metis append_Nil)
  with True show ?thesis by (simp add: add_index_def)
next
  case False
  with assms(2) show ?thesis by (simp add: add_index_def)
qed

lemma add_index_hd: "p \<noteq> [] \<Longrightarrow> hd (add_index p) = hd p \<and> add_index p \<noteq> []"
  by (auto simp: add_index_def)

lemma checked_path_confined:
  assumes "p \<noteq> []" "p ! 0 = CHR ''/''" "find_sub ''..'' p = None"
  shows "confined (c_str (add_index p))"
proof -
  have "hd (add_index p) = CHR ''/''" "add_index p \<noteq> []"
    using add_index_hd [OF assms(1)] assms(1,2) by (simp_all add: hd_conv_nth)
  then obtain t where "add_index p = CHR ''/'' # t" by (cases "add_index p") auto
  then have head: "c_str (add_index p) = CHR ''/'' # c_str t" by (simp add: c_str_def)
  have "\<not> sublist ''..'' (add_index p)"
    using assms(1, 3) by (intro dots_add_index) (simp_all add: find_sub_None_iff)
  then have "''..'' \<notin> set (components (c_str (add_index p)))"
    by (blast dest: components_sublist sublist_c_str)
  with head c_str_no_NUL [of "add_index p"] show ?thesis by (simp add: confined_def)
qed

lemma handle_request_cases:
  obtains (bad) "handle_request files root req rep = stock_reply Bad_request"
      "\<And>files' root' rep'. handle_request files' root' req rep' = stock_reply Bad_request"
  | (serve) p where "url_decode (req_uri req) = Some p" "confined (c_str (add_index p))"
      "\<And>files' root' rep'. handle_request files' root' req rep' = serve_file files' root' p rep'"
proof (cases "url_decode (req_uri req)")
  case None
  then show ?thesis by (intro bad) (simp_all add: handle_request_def)
next
  case (Some p)
  show ?thesis
  proof (cases "p = [] \<or> p ! 0 \<noteq> CHR ''/'' \<or> find_sub ''..'' p \<noteq> None")
    case True
    with Some show ?thesis by (intro bad) (auto simp: handle_request_def)
  next
    case False
    with Some show ?thesis
      by (intro serve [of p]) (auto simp: handle_request_def intro: checked_path_confined)
  qed
qed

section \<open>Properties\<close>

text \<open>
  Property C28. Decoding undoes percent encoding, whichever characters the encoder chose to
  keep: every byte string, control bytes and bytes above 127 included, survives the round trip.
\<close>

theorem url_decode_encode: "url_decode (url_encode keep s) = Some s"
  by (simp add: url_decode_eq decode_encode)

text \<open>
  The loop over the index computes the list recursion that consumes one character
  or one escape at a time, so it reads every position once and never outside the string.
\<close>

theorem url_decode_is_decode_spec:
  "url_decode inp = decode_spec inp \<and> (\<forall>out. decode_spec inp = Some out \<longrightarrow> length out \<le> length inp)"
  using decode_spec_length by (auto simp: url_decode_eq)

theorem url_decode_is_decode_spec_witness:
  "url_decode ''a%20b'' = Some ''a b'' \<and> length ''a b'' \<le> length ''a%20b''"
proof -
  have "decode_spec ''a%20b'' = Some ''a b''"
    by (simp add: extract_hex_def hex_magnitude_def is_space_def hex_digit_def hex_value_def
        char_to_int_def int_to_char_def char_of_def bit_iff_odd_drop_bit)
  with url_decode_is_decode_spec [of "''a%20b''"] show ?thesis by simp
qed

text \<open>
  Property C13. Nothing outside the document root is ever opened: two file systems that agree
  on the confined paths below the root give the same reply to every request, whatever its URI
  decodes to. (The root is a command line argument and holds no NUL.)
\<close>

theorem handle_request_confined:
  assumes "NUL \<notin> set doc_root"
    and "\<And>p. confined p \<Longrightarrow> files1 (doc_root @ p) = files2 (doc_root @ p)"
  shows "handle_request files1 doc_root req rep = handle_request files2 doc_root req rep"
proof (cases rule: handle_request_cases [of files1 doc_root req rep])
  case bad
  then show ?thesis by simp
next
  case (serve p)
  have "c_str (doc_root @ add_index p) = doc_root @ c_str (add_index p)"
    using assms(1) by (rule c_str_append)
  with serve assms(2) [of "c_str (add_index p)"] show ?thesis
    by (simp add: serve_file_eq)
qed

theorem handle_request_confined_witness:
  "handle_request (\<lambda>p. if p = ''/etc/passwd'' then Some ''secret'' else None) ''/srv''
     (empty_request\<lparr>req_uri := ''/%2e%2e/etc/passwd''\<rparr>) (stock_reply Accepted) =
   handle_request (\<lambda>p. None) ''/srv'' (empty_request\<lparr>req_uri := ''/%2e%2e/etc/passwd''\<rparr>)
     (stock_reply Accepted)"
  by (rule handle_request_confined) simp_all

text \<open>The reply a request gets, branch by branch, over the reference decoder.\<close>

definition reply_spec :: "(string \<Rightarrow> string option) \<Rightarrow> string \<Rightarrow> request \<Rightarrow> reply \<Rightarrow> reply" where
  "reply_spec files doc_root req rep =
     (case decode_spec (req_uri req) of
        Some (CHR ''/'' # p) \<Rightarrow>
          if sublist ''..'' (CHR ''/'' # p) then stock_reply Bad_request
          else (case files (c_str (doc_root @ add_index (CHR ''/'' # p))) of
                  None \<Rightarrow> stock_reply Not_found
                | Some bytes \<Rightarrow>
                    \<lparr>rep_status = Ok,
                     rep_headers =
                       [\<lparr>header_name = ''Conetent-Length'',
                         header_value = nat_to_string (length (rep_content rep @ bytes))\<rparr>,
                        \<lparr>header_name = ''Content-type'',
                         header_value =
                           extension_to_type (path_extension (add_index (CHR ''/'' # p)))\<rparr>],
                     rep_content = rep_content rep @ bytes\<rparr>)
      | _ \<Rightarrow> stock_reply Bad_request)"

lemma reply_spec_content:
  "rep_content rep = rep_content rep' \<Longrightarrow>
     reply_spec files doc_root req rep = reply_spec files doc_root req rep'"
  by (simp only: reply_spec_def)

lemma handle_request_eq:
  "handle_request files doc_root req rep = reply_spec files doc_root req rep"
proof (cases "decode_spec (req_uri req)")
  case None
  then show ?thesis by (simp add: handle_request_def reply_spec_def url_decode_eq)
next
  case (Some p)
  show ?thesis
  proof (cases "p \<noteq> [] \<and> hd p = CHR ''/''")
    case True
    then obtain q where p: "p = CHR ''/'' # q" by (cases p) auto
    have "handle_request files doc_root req rep =
      (if sublist ''..'' p then stock_reply Bad_request else serve_file files doc_root p rep)"
      using Some p find_sub_None_iff [of "''..''" p]
      by (auto simp: handle_request_def url_decode_eq simp del: find_sub.simps)
    with Some p show ?thesis
      by (simp add: reply_spec_def serve_file_eq)
  next
    case False
    have "reply_spec files doc_root req rep = stock_reply Bad_request"
      using Some False by (cases p) (auto simp: reply_spec_def split: char.splits bool.splits)
    moreover have "p = [] \<or> p ! 0 \<noteq> CHR ''/''"
      using False by (auto simp: hd_conv_nth)
    ultimately show ?thesis using Some by (auto simp: handle_request_def url_decode_eq)
  qed
qed

text \<open>
  Property C20. What a request gets, on every branch: the stock reply for a bad request when
  the URI does not decode to an absolute path without \<open>..\<close>, the stock reply for a missing
  file when the file cannot be opened, and otherwise status 200, the bytes of the file after
  what the content held before, their number, and the media type of the extension.
\<close>

theorem handle_request_meets_spec:
  "handle_request files doc_root req rep = reply_spec files doc_root req rep"
  by (rule handle_request_eq)

text \<open>Every reply of the handler has two headers, and both are safe on the wire.\<close>

lemma handle_request_headers:
  "(\<forall>h \<in> set (rep_headers (handle_request files doc_root req rep)). header_ok h)
   \<and> length (rep_headers (handle_request files doc_root req rep)) = 2"
proof (cases rule: handle_request_cases [of files doc_root req rep])
  case bad
  then show ?thesis
    by (simp add: stock_headers_ok) (simp add: stock_reply_def)
next
  case (serve p)
  have "CR \<notin> set (extension_to_type e)" for e
    by (auto simp: extension_to_type_def mappings_def)
  then show ?thesis
    using serve stock_headers_ok [of Not_found]
    by (simp add: serve_file_eq header_ok_def nat_to_string_no_CR stock_reply_def split: option.split)
qed

interpretation http_service: request_service "handle_request files doc_root" for files doc_root
  by unfold_locales (use handle_request_headers in blast)

text \<open>
  Property C27. No request can inject header lines into its reply: whatever the URI and the
  file, the reply reads back from the wire as its status, exactly two headers and its content.
\<close>

theorem handle_request_on_the_wire:
  "read_reply (reply_bytes (handle_request files doc_root req rep)) =
     (status_text (rep_status (handle_request files doc_root req rep)),
      rep_headers (handle_request files doc_root req rep),
      rep_content (handle_request files doc_root req rep))
   \<and> length (rep_headers (handle_request files doc_root req rep)) = 2"
  by (simp add: http_service.respond_readable handle_request_headers)

end
