(* ===== verification/Http_Connection.thy ===== *)
theory Http_Connection
  imports Http_Request_Grammar Http_Request_Handler Asio
begin

text \<open>
  \<open>class connection\<close> (http_server/connection.cpp) and \<open>class connection_manager\<close>
  (http_server/connection_manager.cpp), which call each other. The state of the whole server
  process is one record: the objects by address, the manager's set, the acceptor, and the
  operations that are outstanding in the \<open>io_service\<close>. A connection carries the history of
  its socket: the bytes read from it and the bytes written to it. Each handler is a function on
  the state, from the moment asio calls it until it returns; \<open>None\<close> is undefined behaviour.
\<close>

record connection =
  sock_open :: bool
  sock_shut :: bool
  sock_received :: string
  sock_sent :: string
  conn_request :: request
  conn_parser :: parser_state
  conn_reply :: reply

datatype http_op =
    Accept_op
  | Signal_op
  | Read_op address
  | Write_op address string

record http_state =
  http_ops :: "http_op list"
  http_objects :: "address \<Rightarrow> connection option"
  http_connections :: "address list"
  http_acceptor_open :: bool

text \<open>
  The constructor: an open socket, a new parser and empty request and reply. The status of the
  reply is not initialised, so it may be anything.
\<close>

definition new_connection :: "status_type \<Rightarrow> connection" where
  "new_connection status =
     \<lparr>sock_open = True, sock_shut = False, sock_received = [], sock_sent = [],
      conn_request = empty_request, conn_parser = new_parser,
      conn_reply = \<lparr>rep_status = status, rep_headers = [], rep_content = []\<rparr>\<rparr>"

definition set_object :: "address \<Rightarrow> connection \<Rightarrow> http_state \<Rightarrow> http_state" where
  "set_object a c s = s\<lparr>http_objects := (http_objects s)(a \<mapsto> c)\<rparr>"

definition start_op :: "http_op \<Rightarrow> http_state \<Rightarrow> http_state" where
  "start_op p s = s\<lparr>http_ops := http_ops s @ [p]\<rparr>"

definition finish_op :: "http_op \<Rightarrow> http_state \<Rightarrow> http_state" where
  "finish_op p s = s\<lparr>http_ops := remove1 p (http_ops s)\<rparr>"

section \<open>Connection and manager\<close>

definition do_read :: "address \<Rightarrow> http_state \<Rightarrow> http_state" where
  "do_read a s = start_op (Read_op a) s"

text \<open>
  \<open>do_write\<close> first logs every buffer as if it were a C string: \<open>std::string(const char*)\<close> reads
  from the buffer's pointer to the next NUL. The two separators are arrays without a NUL, so for
  them it reads on behind the array, which is undefined. What such a read finds there is the
  parameter \<open>beyond\<close> of the model: the characters up to the NUL that ends them, or \<open>None\<close>. As C++
  has it, it is \<open>None\<close> everywhere; a platform on which something readable happens to follow the
  arrays is one of its other values.
\<close>

type_synonym memory_behind = "const_buffer \<Rightarrow> string option"

definition log_text :: "memory_behind \<Rightarrow> const_buffer \<Rightarrow> string option" where
  "log_text beyond b =
     (case buffer_c_string b of
        Some s \<Rightarrow> Some s
      | None \<Rightarrow> map_option (\<lambda>more. buf_object b @ more) (beyond b))"

fun log_buffers :: "memory_behind \<Rightarrow> const_buffer list \<Rightarrow> string list option" where
  "log_buffers beyond [] = Some []"
| "log_buffers beyond (b # bs) =
     (case log_text beyond b of
        None \<Rightarrow> None
      | Some line \<Rightarrow> map_option ((#) line) (log_buffers beyond bs))"

definition do_write ::
    "memory_behind \<Rightarrow> address \<Rightarrow> connection \<Rightarrow> http_state \<Rightarrow> http_state option" where
  "do_write beyond a c s =
     (case log_buffers beyond (to_buffers (conn_reply c)) of
        None \<Rightarrow> None
      | Some lines \<Rightarrow> Some (start_op (Write_op a (buffers_bytes (to_buffers (conn_reply c)))) s))"

definition connection_start :: "address \<Rightarrow> http_state \<Rightarrow> http_state" where
  "connection_start a s = do_read a s"

text \<open>\<open>socket_.close()\<close>; the object is there because the caller holds a shared pointer.\<close>

definition connection_stop :: "address \<Rightarrow> http_state \<Rightarrow> http_state" where
  "connection_stop a s =
     (case http_objects s a of
        None \<Rightarrow> s
      | Some c \<Rightarrow> set_object a (c\<lparr>sock_open := False\<rparr>) s)"

definition manager_start :: "address \<Rightarrow> http_state \<Rightarrow> http_state" where
  "manager_start a s =
     connection_start a (s\<lparr>http_connections := std_set_insert a (http_connections s)\<rparr>)"

definition manager_stop :: "address \<Rightarrow> http_state \<Rightarrow> http_state" where
  "manager_stop a s =
     connection_stop a (s\<lparr>http_connections := std_set_erase a (http_connections s)\<rparr>)"

fun stop_each :: "address list \<Rightarrow> http_state \<Rightarrow> http_state" where
  "stop_each [] s = s"
| "stop_each (a # as) s = stop_each as (connection_stop a s)"

definition manager_stop_all :: "http_state \<Rightarrow> http_state" where
  "manager_stop_all s = (stop_each (http_connections s) s)\<lparr>http_connections := []\<rparr>"

text \<open>
  The completion handler of \<open>do_read\<close>: \<open>respond\<close> is the \<open>handle_request\<close> of the
  request handler the connection refers to, \<open>bytes\<close> the bytes transferred into the buffer.
\<close>

definition on_read ::
    "memory_behind \<Rightarrow> (request \<Rightarrow> reply \<Rightarrow> reply) \<Rightarrow> address \<Rightarrow> error_code \<Rightarrow> string
     \<Rightarrow> http_state \<Rightarrow> http_state option" where
  "on_read beyond respond a ec bytes s =
     (case http_objects s a of
        None \<Rightarrow> None
      | Some c \<Rightarrow>
          if ec = No_error then
            (case parse (conn_parser c) (conn_request c) bytes of
               None \<Rightarrow> None
             | Some (result, _, st, r) \<Rightarrow>
                 let c1 = c\<lparr>sock_received := sock_received c @ bytes, conn_parser := st,
                           conn_request := r\<rparr>
                 in if result = Good then
                      let c2 = c1\<lparr>conn_reply := respond r (conn_reply c1)\<rparr>
                      in do_write beyond a c2 (set_object a c2 s)
                    else if result = Bad then
                      let c2 = c1\<lparr>conn_reply := stock_reply Bad_request\<rparr>
                      in do_write beyond a c2 (set_object a c2 s)
                    else Some (do_read a (set_object a c1 s)))
          else if ec \<noteq> Operation_aborted then Some (manager_stop a s)
          else Some s)"

text \<open>The completion handler of \<open>do_write\<close>, after \<open>n\<close> bytes have been sent.\<close>

definition on_write ::
    "address \<Rightarrow> string \<Rightarrow> error_code \<Rightarrow> nat \<Rightarrow> http_state \<Rightarrow> http_state option" where
  "on_write a bytes ec n s =
     (case http_objects s a of
        None \<Rightarrow> None
      | Some c \<Rightarrow>
          let c1 = c\<lparr>sock_sent := sock_sent c @ take n bytes\<rparr>;
              c2 = (if ec = No_error then c1\<lparr>sock_shut := True\<rparr> else c1);
              s2 = set_object a c2 s
          in Some (if ec \<noteq> Operation_aborted then manager_stop a s2 else s2))"

text \<open>
  The log gets through exactly when what follows the separators the reply uses is readable: the
  line end always, the colon between a header's name and value if there is a header.
\<close>

definition separators_readable :: "memory_behind \<Rightarrow> reply \<Rightarrow> bool" where
  "separators_readable beyond rep \<longleftrightarrow>
     beyond (buffer_of_array crlf) \<noteq> None
     \<and> (rep_headers rep \<noteq> [] \<longrightarrow> beyond (buffer_of_array name_value_separator) \<noteq> None)"

definition readable_behind :: "memory_behind \<Rightarrow> bool" where
  "readable_behind beyond \<longleftrightarrow>
     beyond (buffer_of_array crlf) \<noteq> None \<and> beyond (buffer_of_array name_value_separator) \<noteq> None"

lemma separators_readable_headers:
  "rep_headers rep \<noteq> [] \<Longrightarrow> separators_readable beyond rep \<longleftrightarrow> readable_behind beyond"
  by (simp add: separators_readable_def readable_behind_def)

lemma log_text_simps [simp]:
  "log_text beyond (buffer_of_string s) = Some (c_str (s @ [NUL]))"
  "log_text beyond (status_buffer st) = Some (c_str (status_line st @ [NUL]))"
  "log_text beyond (buffer_of_array crlf) =
     map_option ((@) crlf) (beyond (buffer_of_array crlf))"
  "log_text beyond (buffer_of_array name_value_separator) =
     map_option ((@) name_value_separator) (beyond (buffer_of_array name_value_separator))"
  by (simp_all add: log_text_def status_buffer_def buffer_c_string_def buffer_of_string_def
      buffer_of_array_def crlf_def name_value_separator_def char_to_int_def)

lemma log_buffers_None: "log_buffers beyond bs = None \<longleftrightarrow> (\<exists>b \<in> set bs. log_text beyond b = None)"
  by (induction bs) (auto split: option.split)

lemma header_buffers_log:
  "(\<exists>b \<in> set (header_buffers hs). log_text beyond b = None) \<longleftrightarrow>
     hs \<noteq> [] \<and> (beyond (buffer_of_array crlf) = None
       \<or> beyond (buffer_of_array name_value_separator) = None)"
  by (induction hs) auto

lemma log_buffers_reply:
  "log_buffers beyond (to_buffers rep) = None \<longleftrightarrow> \<not> separators_readable beyond rep"
  unfolding log_buffers_None separators_readable_def
  using header_buffers_log [of "rep_headers rep" beyond]
  by (auto simp: to_buffers_def)

lemma do_write_eq:
  "do_write beyond a c s =
     (if separators_readable beyond (conn_reply c)
      then Some (start_op (Write_op a (reply_bytes (conn_reply c))) s) else None)"
  using log_buffers_reply [of beyond "conn_reply c"]
  by (auto simp: do_write_def reply_bytes_def split: option.split)

text \<open>The manager is a registry of connections.\<close>

interpretation http_registry: registry http_connections manager_start manager_stop
  by unfold_locales
     (simp_all add: manager_start_def manager_stop_def connection_start_def connection_stop_def
       do_read_def start_op_def set_object_def split: option.split)

section \<open>What the handlers change\<close>

named_theorems http_frame "what each operation changes of the server state"

lemma set_object_simps [simp, http_frame]:
  "http_ops (set_object a c s) = http_ops s"
  "http_connections (set_object a c s) = http_connections s"
  "http_acceptor_open (set_object a c s) = http_acceptor_open s"
  "http_objects (set_object a c s) = (http_objects s)(a \<mapsto> c)"
  by (simp_all add: set_object_def)

lemma start_op_simps [simp, http_frame]:
  "http_ops (start_op p s) = http_ops s @ [p]"
  "http_connections (start_op p s) = http_connections s"
  "http_acceptor_open (start_op p s) = http_acceptor_open s"
  "http_objects (start_op p s) = http_objects s"
  by (simp_all add: start_op_def)

lemma finish_op_simps [simp, http_frame]:
  "http_ops (finish_op p s) = remove1 p (http_ops s)"
  "http_connections (finish_op p s) = http_connections s"
  "http_acceptor_open (finish_op p s) = http_acceptor_open s"
  "http_objects (finish_op p s) = http_objects s"
  by (simp_all add: finish_op_def)

lemma connection_stop_simps [simp, http_frame]:
  "http_ops (connection_stop a s) = http_ops s"
  "http_connections (connection_stop a s) = http_connections s"
  "http_acceptor_open (connection_stop a s) = http_acceptor_open s"
  "http_objects (connection_stop a s) =
     (http_objects s)(a := map_option (\<lambda>c. c\<lparr>sock_open := False\<rparr>) (http_objects s a))"
  by (auto simp: connection_stop_def split: option.split)

lemma manager_stop_simps [simp, http_frame]:
  "http_ops (manager_stop a s) = http_ops s"
  "http_connections (manager_stop a s) = std_set_erase a (http_connections s)"
  "http_acceptor_open (manager_stop a s) = http_acceptor_open s"
  "http_objects (manager_stop a s) =
     (http_objects s)(a := map_option (\<lambda>c. c\<lparr>sock_open := False\<rparr>) (http_objects s a))"
  by (simp_all add: manager_stop_def)

lemma stop_each_simps [simp, http_frame]:
  "http_ops (stop_each as s) = http_ops s"
  "http_connections (stop_each as s) = http_connections s"
  "http_acceptor_open (stop_each as s) = http_acceptor_open s"
  "http_objects (stop_each as s) =
     (\<lambda>b. if b \<in> set as then map_option (\<lambda>c. c\<lparr>sock_open := False\<rparr>) (http_objects s b)
          else http_objects s b)"
  by (induction as s rule: stop_each.induct) (auto simp: fun_eq_iff option.map_comp comp_def)

lemma manager_stop_all_simps [simp, http_frame]:
  "http_ops (manager_stop_all s) = http_ops s"
  "http_connections (manager_stop_all s) = []"
  "http_acceptor_open (manager_stop_all s) = http_acceptor_open s"
  "http_objects (manager_stop_all s) =
     (\<lambda>b. if b \<in> set (http_connections s)
          then map_option (\<lambda>c. c\<lparr>sock_open := False\<rparr>) (http_objects s b) else http_objects s b)"
  by (simp_all add: manager_stop_all_def)

end
