(* ===== verification/Http_Server.thy ===== *)
theory Http_Server
  imports Http_Connection
begin

text \<open>
  \<open>class server\<close> of http_server/server.cpp and the whole process: the accept and signal
  handlers, the step relation (asio completes one outstanding operation), the invariant of the
  reachable states, and what follows for the bytes each client gets.
\<close>

section \<open>The server's handlers\<close>

definition do_accept :: "http_state \<Rightarrow> http_state" where
  "do_accept s = start_op Accept_op s"

definition do_await_stop :: "http_state \<Rightarrow> http_state" where
  "do_await_stop s = start_op Signal_op s"

text \<open>
  The constructor, once resolving, binding and listening have succeeded (each throws
  otherwise, and no server exists).
\<close>

definition new_server :: http_state where
  "new_server =
     do_accept (do_await_stop
       \<lparr>http_ops = [], http_objects = (\<lambda>_. None), http_connections = [],
        http_acceptor_open = True\<rparr>)"

text \<open>
  The accept handler: \<open>a\<close> is the address \<open>std::make_shared\<close> returns, \<open>status\<close> the
  indeterminate status of the new object's reply.
\<close>

definition on_accept :: "error_code \<Rightarrow> address \<Rightarrow> status_type \<Rightarrow> http_state \<Rightarrow> http_state" where
  "on_accept ec a status s =
     (if \<not> http_acceptor_open s then s
      else do_accept
        (if ec = No_error then manager_start a (set_object a (new_connection status) s) else s))"

definition on_signal :: "http_state \<Rightarrow> http_state" where
  "on_signal s = manager_stop_all (s\<lparr>http_acceptor_open := False\<rparr>)"

section \<open>Steps\<close>

text \<open>
  A shared pointer to a connection is held by the manager and by the handler of each of its
  outstanding operations.
\<close>

fun op_on :: "address \<Rightarrow> http_op \<Rightarrow> bool" where
  "op_on a (Read_op b) \<longleftrightarrow> a = b"
| "op_on a (Write_op b bytes) \<longleftrightarrow> a = b"
| "op_on a Accept_op \<longleftrightarrow> False"
| "op_on a Signal_op \<longleftrightarrow> False"

definition referenced :: "address \<Rightarrow> http_state \<Rightarrow> bool" where
  "referenced a s \<longleftrightarrow> a \<in> set (http_connections s) \<or> (\<exists>p \<in> set (http_ops s). op_on a p)"

text \<open>
  One step of the process: asio completes an outstanding operation with some result, or the
  last shared pointer to a connection goes and the object is destroyed. Asio's contract is in
  the premises: a read delivers at most the 8192 bytes of the buffer, a write without error
  has sent everything, and an operation is aborted only when its socket has been closed.
\<close>

definition socket_closed :: "address \<Rightarrow> http_state \<Rightarrow> bool" where
  "socket_closed a s \<longleftrightarrow>
     (case http_objects s a of None \<Rightarrow> True | Some c \<Rightarrow> \<not> sock_open c)"

inductive http_step :: "memory_behind \<Rightarrow> (request \<Rightarrow> reply \<Rightarrow> reply) \<Rightarrow> http_state \<Rightarrow> http_state \<Rightarrow> bool"
  for beyond respond where
  accept_done: "Accept_op \<in> set (http_ops s) \<Longrightarrow> \<not> referenced a s \<Longrightarrow> http_objects s a = None \<Longrightarrow>
     http_step beyond respond s (on_accept ec a status (finish_op Accept_op s))"
| signal_done: "Signal_op \<in> set (http_ops s) \<Longrightarrow>
     http_step beyond respond s (on_signal (finish_op Signal_op s))"
| read_done: "Read_op a \<in> set (http_ops s) \<Longrightarrow> length bytes \<le> 8192 \<Longrightarrow>
     (ec = Operation_aborted \<Longrightarrow> socket_closed a s) \<Longrightarrow>
     on_read beyond respond a ec bytes (finish_op (Read_op a) s) = Some t \<Longrightarrow> http_step beyond respond s t"
| write_done: "Write_op a bytes \<in> set (http_ops s) \<Longrightarrow> n \<le> length bytes \<Longrightarrow>
     (ec = No_error \<Longrightarrow> n = length bytes) \<Longrightarrow>
     (ec = Operation_aborted \<Longrightarrow> socket_closed a s) \<Longrightarrow>
     on_write a bytes ec n (finish_op (Write_op a bytes) s) = Some t \<Longrightarrow> http_step beyond respond s t"
| last_reference: "http_objects s a = Some c \<Longrightarrow> \<not> referenced a s \<Longrightarrow>
     http_step beyond respond s (s\<lparr>http_objects := (http_objects s)(a := None)\<rparr>)"

inductive http_reachable :: "memory_behind \<Rightarrow> (request \<Rightarrow> reply \<Rightarrow> reply) \<Rightarrow> http_state \<Rightarrow> bool"
  for beyond respond where
  start: "http_reachable beyond respond new_server"
| step: "http_reachable beyond respond s \<Longrightarrow> http_step beyond respond s t \<Longrightarrow> http_reachable beyond respond t"

section \<open>The invariant\<close>

text \<open>
  What a connection answers to the bytes it has received, as long as it has not answered:
  nothing yet, or the reply of the request handler, or the stock reply for a bad request.
\<close>

definition verdict :: "string \<Rightarrow> (result_type \<times> parser_state \<times> request) option" where
  "verdict received =
     map_option (\<lambda>(out, rest, st, r). (out, st, r)) (parse new_parser empty_request received)"

text \<open>
  The received bytes end in the middle of a message, and the parser and the request are those
  of one call on all of them.
\<close>

definition reading_ok :: "connection \<Rightarrow> bool" where
  "reading_ok c \<longleftrightarrow>
     parse new_parser empty_request (sock_received c) =
       Some (Indeterminate, [], conn_parser c, conn_request c)
     \<and> rep_headers (conn_reply c) = [] \<and> rep_content (conn_reply c) = [] \<and> sock_sent c = []"

text \<open>
  The received bytes have a verdict, and the bytes are those of the reply it calls for, which
  is made from a reply that was still empty.
\<close>

definition answer :: "(request \<Rightarrow> reply \<Rightarrow> reply) \<Rightarrow> string \<Rightarrow> string \<Rightarrow> bool" where
  "answer respond received bytes \<longleftrightarrow>
     (\<exists>r st status. verdict received = Some (Good, st, r)
        \<and> bytes = reply_bytes
            (respond r \<lparr>rep_status = status, rep_headers = [], rep_content = []\<rparr>))
     \<or> (\<exists>r st. verdict received = Some (Bad, st, r)
        \<and> bytes = reply_bytes (stock_reply Bad_request))"

definition op_ok :: "(request \<Rightarrow> reply \<Rightarrow> reply) \<Rightarrow> http_state \<Rightarrow> http_op \<Rightarrow> bool" where
  "op_ok respond s p \<longleftrightarrow>
     (case p of
        Accept_op \<Rightarrow> True
      | Signal_op \<Rightarrow> True
      | Read_op a \<Rightarrow> (\<exists>c. http_objects s a = Some c \<and> reading_ok c)
      | Write_op a bytes \<Rightarrow> (\<exists>c. http_objects s a = Some c \<and> sock_sent c = []
          \<and> answer respond (sock_received c) bytes))"

definition sent_ok :: "(request \<Rightarrow> reply \<Rightarrow> reply) \<Rightarrow> connection \<Rightarrow> bool" where
  "sent_ok respond c \<longleftrightarrow>
     sock_sent c = [] \<or> (\<exists>bytes. answer respond (sock_received c) bytes \<and> prefix (sock_sent c) bytes)"

definition ops_such :: "(http_op \<Rightarrow> bool) \<Rightarrow> http_state \<Rightarrow> nat" where
  "ops_such P s = length (filter P (http_ops s))"

definition http_ok :: "(request \<Rightarrow> reply \<Rightarrow> reply) \<Rightarrow> http_state \<Rightarrow> bool" where
  "http_ok respond s \<longleftrightarrow>
     std_set_ok (http_connections s)
     \<and> (\<forall>p \<in> set (http_ops s). op_ok respond s p)
     \<and> (\<forall>a. ops_such (op_on a) s \<le> 1)
     \<and> (\<forall>a \<in> set (http_connections s). ops_such (op_on a) s = 1)
     \<and> (\<forall>a c. http_objects s a = Some c \<longrightarrow>
          sent_ok respond c \<and> (sock_open c \<longleftrightarrow> a \<in> set (http_connections s)))
     \<and> ops_such ((=) Accept_op) s \<le> 1
     \<and> ops_such ((=) Signal_op) s = (if http_acceptor_open s then 1 else 0)
     \<and> (http_acceptor_open s \<longrightarrow> Accept_op \<in> set (http_ops s))
     \<and> (\<not> http_acceptor_open s \<longrightarrow> http_connections s = [])"

section \<open>Preservation\<close>

lemma ops_such_finish [simp]:
  "p \<in> set (http_ops s) \<Longrightarrow> ops_such P (finish_op p s) = ops_such P s - (if P p then 1 else 0)"
  by (simp add: ops_such_def filter_remove1 length_remove1)

lemma ops_such_start [simp]:
  "ops_such P (start_op p s) = ops_such P s + (if P p then 1 else 0)"
  by (simp add: ops_such_def)

lemma ops_such_cong [simp]:
  "ops_such P (set_object a c s) = ops_such P s"
  "ops_such P (manager_stop a s) = ops_such P s"
  "ops_such P (manager_stop_all s) = ops_such P s"
  "ops_such P (s\<lparr>http_objects := f\<rparr>) = ops_such P s"
  "ops_such P (s\<lparr>http_connections := as\<rparr>) = ops_such P s"
  "ops_such P (s\<lparr>http_acceptor_open := b\<rparr>) = ops_such P s"
  by (simp_all add: ops_such_def)

lemma ops_such_zero_iff: "ops_such P s = 0 \<longleftrightarrow> (\<forall>p \<in> set (http_ops s). \<not> P p)"
  by (auto simp: ops_such_def filter_empty_conv)

lemma ops_such_pos: "p \<in> set (http_ops s) \<Longrightarrow> P p \<Longrightarrow> 0 < ops_such P s"
  using ops_such_zero_iff [of P s] by auto

lemma sock_open_irrelevant [simp]:
  "reading_ok (c\<lparr>sock_open := b\<rparr>) = reading_ok c"
  "sent_ok respond (c\<lparr>sock_open := b\<rparr>) = sent_ok respond c"
  by (simp_all add: reading_ok_def sent_ok_def)

text \<open>An operation stays valid while the object it is on changes its open flag only.\<close>

lemma op_ok_cong:
  assumes "op_ok respond s p"
    and "\<And>a. op_on a p \<Longrightarrow> http_objects t a = http_objects s a
      \<or> http_objects t a = map_option (\<lambda>c. c\<lparr>sock_open := False\<rparr>) (http_objects s a)"
  shows "op_ok respond t p"
proof (cases p)
  case (Read_op a)
  with assms(1) assms(2) [of a] show ?thesis by (auto simp: op_ok_def)
next
  case (Write_op a bytes)
  with assms(1) assms(2) [of a] show ?thesis by (auto simp: op_ok_def)
qed (simp_all add: op_ok_def)

lemma op_ok_object: "op_ok respond s p \<Longrightarrow> op_on a p \<Longrightarrow> \<exists>c. http_objects s a = Some c"
  by (cases p) (auto simp: op_ok_def)

lemma new_server_ok: "http_ok respond new_server"
  by (simp add: http_ok_def new_server_def do_accept_def do_await_stop_def start_op_def
      ops_such_def op_ok_def)

lemma finish_subset: "q \<in> set (http_ops (finish_op p s)) \<Longrightarrow> q \<in> set (http_ops s)"
  by (auto dest: in_remove1D)

lemma op_on_simps [simp]:
  "op_on a Accept_op = False" "op_on a Signal_op = False"
  by simp_all

lemma not_referenced_iff:
  "\<not> referenced a s \<longleftrightarrow> a \<notin> set (http_connections s) \<and> ops_such (op_on a) s = 0"
  by (auto simp: referenced_def ops_such_zero_iff)

lemma http_ok_opsD:
  assumes "http_ok respond s"
  shows "std_set_ok (http_connections s)" "p \<in> set (http_ops s) \<Longrightarrow> op_ok respond s p"
    "ops_such (op_on a) s \<le> 1" "a \<in> set (http_connections s) \<Longrightarrow> ops_such (op_on a) s = 1"
  using assms unfolding http_ok_def by simp_all

lemma http_ok_objectsD:
  assumes "http_ok respond s"
  shows "http_objects s a = Some c \<Longrightarrow> sent_ok respond c"
    "http_objects s a = Some c \<Longrightarrow> sock_open c \<longleftrightarrow> a \<in> set (http_connections s)"
  using assms unfolding http_ok_def by simp_all

lemma http_ok_serverD:
  assumes "http_ok respond s"
  shows "ops_such ((=) Accept_op) s \<le> 1"
    "ops_such ((=) Signal_op) s = (if http_acceptor_open s then 1 else 0)"
    "http_acceptor_open s \<Longrightarrow> Accept_op \<in> set (http_ops s)"
    "\<not> http_acceptor_open s \<Longrightarrow> http_connections s = []"
  using assms unfolding http_ok_def by simp_all

lemmas http_okD = http_ok_opsD http_ok_objectsD http_ok_serverD

lemma http_okI:
  assumes "std_set_ok (http_connections s)" "\<And>p. p \<in> set (http_ops s) \<Longrightarrow> op_ok respond s p"
    "\<And>a. ops_such (op_on a) s \<le> 1"
    "\<And>a. a \<in> set (http_connections s) \<Longrightarrow> ops_such (op_on a) s = 1"
    "\<And>a c. http_objects s a = Some c \<Longrightarrow> sent_ok respond c"
    "\<And>a c. http_objects s a = Some c \<Longrightarrow> sock_open c \<longleftrightarrow> a \<in> set (http_connections s)"
    "ops_such ((=) Accept_op) s \<le> 1"
    "ops_such ((=) Signal_op) s = (if http_acceptor_open s then 1 else 0)"
    "http_acceptor_open s \<Longrightarrow> Accept_op \<in> set (http_ops s)"
    "\<not> http_acceptor_open s \<Longrightarrow> http_connections s = []"
  shows "http_ok respond s"
  unfolding http_ok_def by (intro conjI ballI allI impI) (rule assms; assumption?)+

text \<open>
  An object operation that has just completed leaves no operation on its object, and those on
  other objects do not see what its handler does to this one.
\<close>

lemma finish_alone:
  assumes "http_ok respond s" "p \<in> set (http_ops s)" "op_on a p"
  shows "ops_such (op_on a) (finish_op p s) = 0"
  using http_okD(3) [OF assms(1), of a] assms(2,3) by simp

lemma other_op_ok:
  assumes "http_ok respond s" "p \<in> set (http_ops s)" "op_on a p"
    and "q \<in> set (http_ops (finish_op p s))"
    and "\<And>b. b \<noteq> a \<Longrightarrow> http_objects t b = http_objects s b"
  shows "op_ok respond t q"
proof -
  have "\<not> op_on a q"
    using finish_alone [OF assms(1-3)] assms(4) by (auto simp: ops_such_zero_iff)
  then show ?thesis
    using assms(5)
    by - (rule op_ok_cong [OF http_okD(2) [OF assms(1) finish_subset [OF assms(4)]]], metis)
qed

lemma on_accept_ok:
  assumes ok: "http_ok respond s" and p: "Accept_op \<in> set (http_ops s)"
    and a: "\<not> referenced a s" "http_objects s a = None"
  shows "http_ok respond (on_accept ec a status (finish_op Accept_op s))"
proof (cases "http_acceptor_open s")
  case False
  let ?t = "finish_op Accept_op s"
  have "http_ok respond ?t"
  proof (rule http_okI)
    show "op_ok respond ?t q" if "q \<in> set (http_ops ?t)" for q
      using http_okD(2) [OF ok finish_subset [OF that]] by (rule op_ok_cong) simp
    show "ops_such (op_on b) ?t \<le> 1" for b using http_okD(3) [OF ok, of b] p by simp
    show "ops_such (op_on b) ?t = 1" if "b \<in> set (http_connections ?t)" for b
      using http_okD(4) [OF ok, of b] that p by simp
    show "sent_ok respond c" if "http_objects ?t b = Some c" for b c
      using http_okD(5) [OF ok, of b c] that by simp
    show "sock_open c \<longleftrightarrow> b \<in> set (http_connections ?t)" if "http_objects ?t b = Some c" for b c
      using http_okD(6) [OF ok, of b c] that by simp
  qed (use http_okD(1, 7, 8, 10) [OF ok] p False in simp_all)
  with False show ?thesis by (simp add: on_accept_def)
next
  case True
  show ?thesis
  proof (cases "ec = No_error")
    case False
    let ?t = "do_accept (finish_op Accept_op s)"
    have "http_ok respond ?t"
    proof (rule http_okI)
      show "op_ok respond ?t q" if "q \<in> set (http_ops ?t)" for q
        using that p
        by - (rule op_ok_cong [OF http_okD(2) [OF ok, of q]],
            auto simp: do_accept_def dest: in_remove1D)
      show "ops_such (op_on b) ?t \<le> 1" for b
        using http_okD(3) [OF ok, of b] p by (simp add: do_accept_def)
      show "ops_such (op_on b) ?t = 1" if "b \<in> set (http_connections ?t)" for b
        using http_okD(4) [OF ok, of b] that p by (simp add: do_accept_def)
      show "sent_ok respond c" if "http_objects ?t b = Some c" for b c
        using http_okD(5) [OF ok, of b c] that by (simp add: do_accept_def)
      show "sock_open c \<longleftrightarrow> b \<in> set (http_connections ?t)" if "http_objects ?t b = Some c" for b c
        using http_okD(6) [OF ok, of b c] that by (simp add: do_accept_def)
    qed (use http_okD(1, 7, 8, 10) [OF ok] p in \<open>simp_all add: do_accept_def\<close>)
    with False True show ?thesis by (simp add: on_accept_def)
  next
    case ec: True
    let ?s1 = "set_object a (new_connection status) (finish_op Accept_op s)"
    let ?t = "do_accept (manager_start a ?s1)"
    note t = do_accept_def manager_start_def connection_start_def do_read_def
    have free: "a \<notin> set (http_connections s)" "ops_such (op_on a) s = 0"
      using a(1) by (simp_all add: not_referenced_iff)
    have "http_ok respond ?t"
    proof (rule http_okI)
      show "op_ok respond ?t q" if q: "q \<in> set (http_ops ?t)" for q
      proof (cases "q = Read_op a")
        case True
        then show ?thesis
          by (simp add: t op_ok_def reading_ok_def new_connection_def)
      next
        case False
        with q p have "q \<in> set (http_ops s)" by (auto simp: t dest: in_remove1D)
        with free(2) have "\<not> op_on a q" by (auto simp: ops_such_zero_iff)
        with \<open>q \<in> set (http_ops s)\<close> show ?thesis
          by - (rule op_ok_cong [OF http_okD(2) [OF ok]], auto simp: t)
      qed
      show "sent_ok respond c" if "http_objects ?t b = Some c" for b c
        using that http_okD(5) [OF ok, of b c]
        by (auto simp: t new_connection_def sent_ok_def split: if_splits)
      show "sock_open c \<longleftrightarrow> b \<in> set (http_connections ?t)" if "http_objects ?t b = Some c" for b c
        using that http_okD(6) [OF ok, of b c]
        by (auto simp: t new_connection_def split: if_splits)
      show "ops_such (op_on b) ?t \<le> 1" for b
        using http_okD(3) [OF ok, of b] p free(2) by (auto simp: t)
      show "ops_such (op_on b) ?t = 1" if "b \<in> set (http_connections ?t)" for b
        using http_okD(4) [OF ok, of b] that p free by (auto simp: t)
    qed (use http_okD(1, 7, 8) [OF ok] p True in \<open>simp_all add: t\<close>)
    with ec True show ?thesis by (simp add: on_accept_def)
  qed
qed

lemma on_signal_ok:
  assumes ok: "http_ok respond s" and p: "Signal_op \<in> set (http_ops s)"
  shows "http_ok respond (on_signal (finish_op Signal_op s))"
proof (rule http_okI)
  let ?t = "on_signal (finish_op Signal_op s)"
  note t = on_signal_def
  have "http_acceptor_open s"
    using ops_such_pos [OF p, of "(=) Signal_op"] http_okD(8) [OF ok] by (auto split: if_splits)
  then show "ops_such ((=) Signal_op) ?t = (if http_acceptor_open ?t then 1 else 0)"
    using http_okD(8) [OF ok] p by (simp add: t)
  show "op_ok respond ?t q" if q: "q \<in> set (http_ops ?t)" for q
    using q
    by - (rule op_ok_cong [OF http_okD(2) [OF ok, of q]], auto simp: t dest: in_remove1D)
  show "sent_ok respond c" if "http_objects ?t b = Some c" for b c
    using that http_okD(5) [OF ok, of b] by (auto simp: t split: if_splits)
  show "sock_open c \<longleftrightarrow> b \<in> set (http_connections ?t)" if "http_objects ?t b = Some c" for b c
    using that http_okD(6) [OF ok, of b] by (auto simp: t split: if_splits)
  show "ops_such (op_on b) ?t \<le> 1" for b
    using http_okD(3) [OF ok, of b] p by (simp add: t)
qed (use http_okD(7) [OF ok] p in \<open>simp_all add: on_signal_def\<close>)

lemma reading_more:
  assumes "reading_ok c" "parse (conn_parser c) (conn_request c) bytes = Some (out, rest, st, r)"
  shows "parse new_parser empty_request (sock_received c @ bytes) = Some (out, rest, st, r)"
    "verdict (sock_received c @ bytes) = Some (out, st, r)"
    "out = Indeterminate \<Longrightarrow> rest = []"
  using assms http_parse.run_more_rest [of "(conn_parser c, conn_request c)" bytes rest "(st, r)"]
  by (auto simp: reading_ok_def verdict_def parse_append)

lemma finish_object_op_ok:
  assumes ok: "http_ok respond s" and p: "p \<in> set (http_ops s)" "op_on a p"
    and t: "http_ops t = http_ops (finish_op p s) @ qs" "length qs \<le> 1"
      "\<And>q. q \<in> set qs \<Longrightarrow> op_on a q \<and> op_ok respond t q"
      "qs = [] \<Longrightarrow> a \<notin> set (http_connections t)"
      "http_connections t = http_connections s
        \<or> http_connections t = std_set_erase a (http_connections s)"
      "http_acceptor_open t = http_acceptor_open s"
      "\<And>b. b \<noteq> a \<Longrightarrow> http_objects t b = http_objects s b"
      "\<And>c. http_objects t a = Some c \<Longrightarrow>
        sent_ok respond c \<and> (sock_open c \<longleftrightarrow> a \<in> set (http_connections t))"
  shows "http_ok respond t"
proof (rule http_okI)
  have others: "P p = False \<Longrightarrow> \<forall>q \<in> set qs. \<not> P q \<Longrightarrow> ops_such P t = ops_such P s" for P
    using t(1) p(1) by (simp add: ops_such_def filter_remove1 filter_empty_conv)
  have on_a: "ops_such (op_on a) t = length qs"
  proof -
    have "filter (op_on a) qs = qs" using t(3) by (auto simp: filter_id_conv)
    moreover have "filter (op_on a) (http_ops (finish_op p s)) = []"
      using finish_alone [OF ok p] by (simp add: ops_such_def)
    ultimately show ?thesis by (simp add: ops_such_def t(1))
  qed
  have alone: "op_on b q \<Longrightarrow> op_on a q \<Longrightarrow> b = a" for b q
    by (cases q) auto
  have other: "ops_such (op_on b) t = ops_such (op_on b) s" if "b \<noteq> a" for b
    using that p(2) t(3) alone by (intro others) blast+
  show "std_set_ok (http_connections t)"
    using http_okD(1) [OF ok] t(5) by auto
  show "op_ok respond t q" if "q \<in> set (http_ops t)" for q
  proof (cases "q \<in> set qs")
    case False
    with that t(1) have "q \<in> set (http_ops (finish_op p s))" by simp
    then show ?thesis using t(7) by (rule other_op_ok [OF ok p])
  qed (use t(3) in blast)
  show "ops_such (op_on b) t \<le> 1" for b
    using on_a other [of b] t(2) http_okD(3) [OF ok, of b] by (cases "b = a") simp_all
  show "ops_such (op_on b) t = 1" if b: "b \<in> set (http_connections t)" for b
  proof (cases "b = a")
    case True
    with b t(4) have "qs \<noteq> []" by blast
    with t(2) on_a True show ?thesis by (cases qs) auto
  next
    case False
    with b t(5) have "b \<in> set (http_connections s)" by auto
    with False other http_okD(4) [OF ok] show ?thesis by simp
  qed
  show "sent_ok respond c" if "http_objects t b = Some c" for b c
    using that t(7) [of b] t(8) [of c] http_okD(5) [OF ok, of b c] by (cases "b = a") auto
  show "sock_open c \<longleftrightarrow> b \<in> set (http_connections t)" if "http_objects t b = Some c" for b c
    using that t(5) t(7) [of b] t(8) [of c] http_okD(6) [OF ok, of b c] by (cases "b = a") auto
  have server_op: "(Accept_op = q) = False" "(Signal_op = q) = False" if "op_on a q" for q
    using that by auto
  have "ops_such ((=) Accept_op) t = ops_such ((=) Accept_op) s"
    "ops_such ((=) Signal_op) t = ops_such ((=) Signal_op) s"
    using p(2) t(3) server_op by (intro others; blast)+
  with t(6) http_okD(7, 8) [OF ok] show "ops_such ((=) Accept_op) t \<le> 1"
    "ops_such ((=) Signal_op) t = (if http_acceptor_open t then 1 else 0)" by simp_all
  show "Accept_op \<in> set (http_ops t)" if "http_acceptor_open t"
  proof -
    from p(2) have "p \<noteq> Accept_op" by auto
    with http_okD(9) [OF ok] that t(1, 6) show ?thesis by (simp add: in_set_remove1)
  qed
  show "http_connections t = []" if "\<not> http_acceptor_open t"
    using http_okD(10) [OF ok] that t(5, 6) by (auto simp: std_set_erase_def)
qed

lemma on_read_ok:
  assumes ok: "http_ok respond s" and p: "Read_op a \<in> set (http_ops s)"
    and ab: "ec = Operation_aborted \<Longrightarrow> socket_closed a s"
    and t: "on_read beyond respond a ec bytes (finish_op (Read_op a) s) = Some t"
  shows "http_ok respond t"
proof -
  let ?s1 = "finish_op (Read_op a) s"
  obtain c where c: "http_objects s a = Some c" "reading_ok c"
    using http_okD(2) [OF ok p] by (auto simp: op_ok_def)
  have open_iff: "sock_open c \<longleftrightarrow> a \<in> set (http_connections s)"
    using http_okD(6) [OF ok c(1)] .
  have sent: "sock_sent c = []" using c(2) by (simp add: reading_ok_def)
  have on_a: "op_on a (Read_op a)" by simp
  show ?thesis
  proof (cases "ec = No_error")
    case False
    show ?thesis
    proof (cases "ec = Operation_aborted")
      case True
      then have t': "t = ?s1" using t c by (simp add: on_read_def)
      have "a \<notin> set (http_connections s)"
        using ab [OF True] c(1) open_iff by (simp add: socket_closed_def)
      then show ?thesis
        using c open_iff http_okD(5) [OF ok c(1)]
        by (intro finish_object_op_ok [OF ok p on_a, of _ "[]"]) (auto simp: t')
    next
      case other: False
      then have t': "t = manager_stop a ?s1" using t c False by (simp add: on_read_def)
      show ?thesis
        using c http_okD(5) [OF ok c(1)]
        by (intro finish_object_op_ok [OF ok p on_a, of _ "[]"]) (auto simp: t')
    qed
  next
    case True
    then obtain out rest st r where
      parsed: "parse (conn_parser c) (conn_request c) bytes = Some (out, rest, st, r)"
      using t c by (auto simp: on_read_def split: option.splits)
    note more = reading_more [OF c(2) parsed]
    let ?c1 = "c\<lparr>sock_received := sock_received c @ bytes, conn_parser := st, conn_request := r\<rparr>"
    consider (good) "out = Good" | (bad) "out = Bad" | (more) "out = Indeterminate"
      by (cases out) auto
    then show ?thesis
    proof cases
      case good
      let ?c2 = "?c1\<lparr>conn_reply := respond r (conn_reply c)\<rparr>"
      have t': "t = start_op (Write_op a (reply_bytes (conn_reply ?c2))) (set_object a ?c2 ?s1)"
        using t c True parsed good by (simp add: on_read_def Let_def do_write_eq split: if_splits)
      obtain status where "conn_reply c = \<lparr>rep_status = status, rep_headers = [], rep_content = []\<rparr>"
        using c(2) by (cases "conn_reply c") (auto simp: reading_ok_def)
      then have "answer respond (sock_received ?c2) (reply_bytes (conn_reply ?c2))"
        using more(2) good by (auto simp: answer_def)
      then show ?thesis
        using c sent open_iff
        by (intro finish_object_op_ok [OF ok p on_a, of _ "[Write_op a (reply_bytes (conn_reply ?c2))]"])
           (auto simp: t' op_ok_def sent_ok_def)
    next
      case bad
      let ?c2 = "?c1\<lparr>conn_reply := stock_reply Bad_request\<rparr>"
      have t': "t = start_op (Write_op a (reply_bytes (conn_reply ?c2))) (set_object a ?c2 ?s1)"
        using t c True parsed bad by (simp add: on_read_def Let_def do_write_eq split: if_splits)
      have "answer respond (sock_received ?c2) (reply_bytes (conn_reply ?c2))"
        using more(2) bad by (auto simp: answer_def)
      then show ?thesis
        using c sent open_iff
        by (intro finish_object_op_ok [OF ok p on_a, of _ "[Write_op a (reply_bytes (conn_reply ?c2))]"])
           (auto simp: t' op_ok_def sent_ok_def)
    next
      case more
      have t': "t = do_read a (set_object a ?c1 ?s1)"
        using t c True parsed more by (simp add: on_read_def Let_def)
      have "reading_ok ?c1"
        using c(2) reading_more(1, 3) [OF c(2) parsed] more by (simp add: reading_ok_def)
      then show ?thesis
        using c sent open_iff
        by (intro finish_object_op_ok [OF ok p on_a, of _ "[Read_op a]"])
           (auto simp: t' do_read_def op_ok_def sent_ok_def)
    qed
  qed
qed

lemma on_write_ok:
  assumes ok: "http_ok respond s" and p: "Write_op a bytes \<in> set (http_ops s)"
    and ab: "ec = Operation_aborted \<Longrightarrow> socket_closed a s"
    and t: "on_write a bytes ec n (finish_op (Write_op a bytes) s) = Some t"
  shows "http_ok respond t"
proof -
  obtain c where c: "http_objects s a = Some c" "sock_sent c = []"
    "answer respond (sock_received c) bytes"
    using http_okD(2) [OF ok p] by (auto simp: op_ok_def)
  note open_iff = http_okD(6) [OF ok c(1)]
  have on_a: "op_on a (Write_op a bytes)" by simp
  let ?c1 = "c\<lparr>sock_sent := take n bytes\<rparr>"
  let ?c2 = "if ec = No_error then ?c1\<lparr>sock_shut := True\<rparr> else ?c1"
  let ?s2 = "set_object a ?c2 (finish_op (Write_op a bytes) s)"
  have t': "t = (if ec \<noteq> Operation_aborted then manager_stop a ?s2 else ?s2)"
    using t c by (simp add: on_write_def Let_def)
  have sent: "sent_ok respond ?c2"
    using c(3) take_is_prefix by (auto simp: sent_ok_def)
  show ?thesis
  proof (cases "ec = Operation_aborted")
    case True
    then have "a \<notin> set (http_connections s)"
      using ab c(1) open_iff by (simp add: socket_closed_def)
    with True sent open_iff show ?thesis
      by (intro finish_object_op_ok [OF ok p on_a, of _ "[]"]) (auto simp: t')
  next
    case False
    with sent show ?thesis
      by (intro finish_object_op_ok [OF ok p on_a, of _ "[]"]) (auto simp: t')
  qed
qed

lemma last_reference_ok:
  assumes ok: "http_ok respond s" and "\<not> referenced a s"
  shows "http_ok respond (s\<lparr>http_objects := (http_objects s)(a := None)\<rparr>)"
proof (rule http_okI)
  let ?t = "s\<lparr>http_objects := (http_objects s)(a := None)\<rparr>"
  show "op_ok respond ?t q" if "q \<in> set (http_ops ?t)" for q
  proof -
    have "\<not> op_on a q" using assms(2) that by (auto simp: referenced_def)
    then show ?thesis
      using http_okD(2) [OF ok, of q] that by (cases q) (auto simp: op_ok_def)
  qed
  show "sent_ok respond c" if "http_objects ?t b = Some c" for b c
    using http_okD(5) [OF ok, of b c] that by (simp split: if_splits)
  show "sock_open c \<longleftrightarrow> b \<in> set (http_connections ?t)" if "http_objects ?t b = Some c" for b c
    using http_okD(6) [OF ok, of b c] that by (simp split: if_splits)
  show "ops_such (op_on b) ?t \<le> 1" for b using http_okD(3) [OF ok] by simp
  show "ops_such (op_on b) ?t = 1" if "b \<in> set (http_connections ?t)" for b
    using http_okD(4) [OF ok, of b] that by simp
qed (use http_okD(1, 7-10) [OF ok] in simp_all)

lemma http_step_ok: "http_step beyond respond s t \<Longrightarrow> http_ok respond s \<Longrightarrow> http_ok respond t"
proof (induction rule: http_step.induct)
  case (accept_done s a ec status)
  then show ?case by (intro on_accept_ok)
next
  case (signal_done s)
  then show ?case by (intro on_signal_ok)
next
  case (read_done a s bytes ec t)
  from read_done.prems read_done.hyps(1, 3, 4) show ?case by (rule on_read_ok)
next
  case (write_done a bytes s n ec t)
  from write_done.prems write_done.hyps(1, 4, 5) show ?case by (rule on_write_ok)
next
  case (last_reference s a c)
  then show ?case by (intro last_reference_ok)
qed

lemma http_reachable_ok: "http_reachable beyond respond s \<Longrightarrow> http_ok respond s"
  by (induction rule: http_reachable.induct) (auto intro: new_server_ok http_step_ok)

section \<open>What a client gets\<close>

context request_service
begin

lemma answer_readable:
  "answer respond received bytes \<Longrightarrow>
     \<exists>rep. bytes = reply_bytes rep
       \<and> read_reply bytes = (status_text (rep_status rep), rep_headers rep, rep_content rep)"
  by (auto simp: answer_def respond_readable read_reply_bytes [OF stock_headers_ok])

end

text \<open>The inversion of one step of the process, and steps in sequence.\<close>

inductive_cases http_stepE: "http_step beyond respond s t"

inductive http_steps :: "memory_behind \<Rightarrow> (request \<Rightarrow> reply \<Rightarrow> reply) \<Rightarrow> http_state \<Rightarrow> http_state \<Rightarrow> bool"
  for beyond respond where
  no_step: "http_steps beyond respond s s"
| one_more: "http_steps beyond respond s t \<Longrightarrow> http_step beyond respond t u \<Longrightarrow> http_steps beyond respond s u"

lemma http_steps_reachable:
  "http_steps beyond respond s t \<Longrightarrow> http_reachable beyond respond s \<Longrightarrow> http_reachable beyond respond t"
  by (induction rule: http_steps.induct) (auto intro: http_reachable.step)

text \<open>When a read handler is undefined.\<close>

lemma on_read_None:
  assumes "http_objects s a = Some c"
  shows "on_read beyond respond a ec inp s = None \<longleftrightarrow>
     ec = No_error
     \<and> (case parse (conn_parser c) (conn_request c) inp of
          None \<Rightarrow> True
        | Some (Good, rest, st, r) \<Rightarrow> \<not> separators_readable beyond (respond r (conn_reply c))
        | Some (Bad, rest, st, r) \<Rightarrow> \<not> separators_readable beyond (stock_reply Bad_request)
        | Some (Indeterminate, rest, st, r) \<Rightarrow> False)"
proof (cases "parse (conn_parser c) (conn_request c) inp")
  case (Some p)
  then obtain out rest st r where "parse (conn_parser c) (conn_request c) inp = Some (out, rest, st, r)"
    by (cases p) auto
  with assms show ?thesis by (cases out) (simp_all add: on_read_def do_write_eq Let_def)
qed (simp add: assms on_read_def)

lemma stays_closed_step: "http_step beyond respond s t \<Longrightarrow> \<not> http_acceptor_open s \<Longrightarrow> \<not> http_acceptor_open t"
  by (erule http_stepE)
     (auto simp: on_accept_def on_signal_def on_read_def on_write_def do_accept_def do_read_def
       do_write_eq Let_def split: option.splits if_splits)

lemma stays_closed:
  "http_steps beyond respond s t \<Longrightarrow> \<not> http_acceptor_open s \<Longrightarrow> \<not> http_acceptor_open t"
  by (induction rule: http_steps.induct) (auto dest: stays_closed_step)

text \<open>An example run, for the witnesses: one client connects and its request is answered.\<close>

definition example_memory :: memory_behind where
  "example_memory = (\<lambda>_. Some [])"

definition example_respond :: "request \<Rightarrow> reply \<Rightarrow> reply" where
  "example_respond = handle_request (\<lambda>_. None) []"

definition accepted_server :: http_state where
  "accepted_server = on_accept No_error 7 Created (finish_op Accept_op new_server)"

lemma accepted_server_reachable: "http_reachable beyond respond accepted_server"
  unfolding accepted_server_def
  by (rule http_reachable.step [OF http_reachable.start], rule http_step.accept_done)
     (simp_all add: new_server_def do_accept_def do_await_stop_def start_op_def referenced_def)

lemma accepted_server_simps:
  "http_ops accepted_server = [Signal_op, Read_op 7, Accept_op]"
  "http_connections accepted_server = [7]"
  "http_acceptor_open accepted_server"
  "http_objects accepted_server = [7 \<mapsto> new_connection Created]"
  by (simp_all add: accepted_server_def new_server_def do_accept_def do_await_stop_def start_op_def
      finish_op_def on_accept_def manager_start_def connection_start_def do_read_def set_object_def
      std_set_insert_def insort_insert_key_def)

definition stopped_server :: http_state where
  "stopped_server = on_signal (finish_op Signal_op accepted_server)"

lemma stopped_server_reachable: "http_reachable beyond respond stopped_server"
  unfolding stopped_server_def
  by (rule http_reachable.step [OF accepted_server_reachable], rule http_step.signal_done)
     (simp add: accepted_server_simps)

lemma stopped_server_closed: "\<not> http_acceptor_open stopped_server"
  by (simp add: stopped_server_def on_signal_def)

section \<open>Properties\<close>

text \<open>
  Property C8. Every reachable state satisfies the invariant: no connection has two
  outstanding operations, the parser of a connection that reads is where one call on all the
  bytes received would have left it, a connection that writes writes the answer to exactly
  these bytes, the open sockets are those of the registered connections, and a closed acceptor
  has no connections.
\<close>

theorem http_invariant: "http_reachable beyond respond s \<Longrightarrow> http_ok respond s"
  by (rule http_reachable_ok)

theorem http_invariant_witness: "http_ok example_respond accepted_server"
  by (rule http_invariant [OF accepted_server_reachable])

text \<open>
  Property C14. No registered connection is ever stuck: its object is alive, its socket open,
  and exactly one operation on it is outstanding, whose completion handler will run.
\<close>

theorem registered_connection_served:
  assumes "http_reachable beyond respond s" and "a \<in> set (http_connections s)"
  shows "(\<exists>c. http_objects s a = Some c \<and> sock_open c) \<and> length (filter (op_on a) (http_ops s)) = 1"
proof -
  from assms(1) have ok: "http_ok respond s" by (rule http_reachable_ok)
  have one: "ops_such (op_on a) s = 1" using http_okD(4) [OF ok assms(2)] .
  then obtain p where p: "p \<in> set (http_ops s)" "op_on a p"
    using ops_such_zero_iff [of "op_on a" s] by auto
  then obtain c where "http_objects s a = Some c"
    using op_ok_object [OF http_okD(2) [OF ok p(1)]] by blast
  with one http_okD(6) [OF ok] assms(2) show ?thesis by (auto simp: ops_such_def)
qed

theorem registered_connection_served_witness:
  "length (filter (op_on 7) (http_ops accepted_server)) = 1"
  using registered_connection_served [OF accepted_server_reachable [of example_memory example_respond], of 7]
  by (simp add: accepted_server_simps)

text \<open>
  Property C16. A completion handler never finds its connection destroyed: a write handler is
  always defined, and a read handler is undefined in exactly two cases: the bytes make the parser
  overflow a version number, or they give a verdict and the log of the reply's buffers reads
  what cannot be read behind a separator.
\<close>

theorem handlers_find_their_connection:
  assumes "http_reachable beyond respond s"
  shows "(Write_op a bytes \<in> set (http_ops s) \<longrightarrow>
      (\<exists>t. on_write a bytes ec n (finish_op (Write_op a bytes) s) = Some t))
    \<and> (Read_op a \<in> set (http_ops s) \<longrightarrow>
      (\<exists>c. http_objects s a = Some c
        \<and> (on_read beyond respond a ec inp (finish_op (Read_op a) s) = None \<longleftrightarrow>
             ec = No_error
             \<and> (case parse (conn_parser c) (conn_request c) inp of
                  None \<Rightarrow> True
                | Some (Good, rest, st, r) \<Rightarrow>
                    \<not> separators_readable beyond (respond r (conn_reply c))
                | Some (Bad, rest, st, r) \<Rightarrow>
                    \<not> separators_readable beyond (stock_reply Bad_request)
                | Some (Indeterminate, rest, st, r) \<Rightarrow> False))))"
proof -
  from assms have ok: "http_ok respond s" by (rule http_reachable_ok)
  have "\<exists>t. on_write a bytes ec n (finish_op (Write_op a bytes) s) = Some t"
    if "Write_op a bytes \<in> set (http_ops s)"
    using http_okD(2) [OF ok that] by (auto simp: op_ok_def on_write_def Let_def)
  moreover have "\<exists>c. http_objects s a = Some c
        \<and> (on_read beyond respond a ec inp (finish_op (Read_op a) s) = None \<longleftrightarrow>
             ec = No_error
             \<and> (case parse (conn_parser c) (conn_request c) inp of
                  None \<Rightarrow> True
                | Some (Good, rest, st, r) \<Rightarrow>
                    \<not> separators_readable beyond (respond r (conn_reply c))
                | Some (Bad, rest, st, r) \<Rightarrow>
                    \<not> separators_readable beyond (stock_reply Bad_request)
                | Some (Indeterminate, rest, st, r) \<Rightarrow> False))"
    if "Read_op a \<in> set (http_ops s)"
    using http_okD(2) [OF ok that]
    by (auto simp: op_ok_def on_read_None)
  ultimately show ?thesis by blast
qed

text \<open>A read of a bad request, on a platform as C++ has it, where nothing behind an array is readable.\<close>

theorem handlers_find_their_connection_witness:
  "on_read (\<lambda>_. None) example_respond 7 No_error ''('' (finish_op (Read_op 7) accepted_server) = None"
proof -
  have "parse new_parser empty_request ''('' = Some (Bad, [], new_parser, empty_request)"
    by (simp add: new_parser_def is_char_def is_ctl_def is_tspecial_def char_to_int_def)
  then show ?thesis
    using handlers_find_their_connection [OF accepted_server_reachable [of "\<lambda>_. None" example_respond],
        where a = 7 and ec = No_error and inp = "''(''"]
    by (simp add: accepted_server_simps new_connection_def separators_readable_def)
qed

text \<open>
  Once a stop signal has been handled the server stays down: in every later state
  the acceptor is closed, no connection is registered, and no socket is open.
\<close>

theorem stop_is_final:
  assumes "http_reachable beyond respond s" and "Signal_op \<in> set (http_ops s)"
    and "http_steps beyond respond (on_signal (finish_op Signal_op s)) t"
  shows "\<not> http_acceptor_open t \<and> http_connections t = []
    \<and> (\<forall>a c. http_objects t a = Some c \<longrightarrow> \<not> sock_open c)"
proof -
  have "http_reachable beyond respond (on_signal (finish_op Signal_op s))"
    using assms(1, 2) by (blast intro: http_reachable.step http_step.signal_done)
  with assms(3) have "http_reachable beyond respond t" by (rule http_steps_reachable)
  then have ok: "http_ok respond t" by (rule http_reachable_ok)
  have "\<not> http_acceptor_open (on_signal (finish_op Signal_op s))"
    by (simp add: on_signal_def)
  with assms(3) have "\<not> http_acceptor_open t" by (rule stays_closed)
  with http_okD(6, 10) [OF ok] show ?thesis by auto
qed

theorem stop_is_final_witness:
  "http_connections accepted_server = [7] \<and> http_connections stopped_server = []"
  using stop_is_final [OF accepted_server_reachable [of example_memory example_respond] _ http_steps.no_step]
  by (simp add: accepted_server_simps stopped_server_def)




end
