(* ===== verification/Action_Request.thy ===== *)
theory Action_Request
  imports Complex_Main Cxx_Prelude
begin

text \<open>
  \<open>struct request\<close> and \<open>class request_parser\<close> of action/server: the parser copies the bytes of
  a message over the request object. The object starts with two 32 bit integers, the method and
  the length, and goes on with the representation of a \<open>std::string\<close>; bytes copied over that are
  undefined behaviour (\<open>None\<close>). Neither integer and neither coordinate is initialised by the
  constructor.
\<close>

section \<open>The request object\<close>

datatype method_type =
    Log_in
  | Log_out
  | Sign_in
  | Get_user_gps
  | Get_item_gps
  | Send_user_gps
  | No_method

text \<open>The first eight bytes, with \<open>None\<close> for one that nobody has written, and the rest.\<close>

record action_request =
  act_head :: "char option list"
  act_id :: string
  act_pwd :: string
  act_secret :: string
  act_gps_long :: "rat option"
  act_gps_lat :: "rat option"

definition new_action_request :: action_request where
  "new_action_request =
     \<lparr>act_head = replicate 8 None, act_id = [], act_pwd = [], act_secret = [],
      act_gps_long = None, act_gps_lat = None\<rparr>"

text \<open>A little endian \<open>int\<close> in four bytes, if all of them are there.\<close>

fun bytes_value :: "char option list \<Rightarrow> int option" where
  "bytes_value [] = Some 0"
| "bytes_value (None # ds) = None"
| "bytes_value (Some c # ds) = map_option (\<lambda>v. of_char c + 256 * v) (bytes_value ds)"

definition int_at :: "nat \<Rightarrow> char option list \<Rightarrow> int option" where
  "int_at off ds =
     map_option (\<lambda>v. if v < 2 ^ 31 then v else v - 2 ^ 32) (bytes_value (take 4 (drop off ds)))"

definition method_of :: "int \<Rightarrow> method_type" where
  "method_of v =
     (if v = 0 then Log_in else if v = 1 then Log_out else if v = 2 then Sign_in
      else if v = 3 then Get_user_gps else if v = 4 then Get_item_gps
      else if v = 5 then Send_user_gps else No_method)"

definition act_method :: "action_request \<Rightarrow> method_type option" where
  "act_method r = map_option method_of (int_at 0 (act_head r))"

definition act_body_length :: "action_request \<Rightarrow> int option" where
  "act_body_length r = int_at 4 (act_head r)"

section \<open>The parser\<close>

datatype action_result = Action_good | Action_bad | Action_indeterminate

definition copy_over :: "string \<Rightarrow> action_request \<Rightarrow> action_request option" where
  "copy_over bytes r =
     (if length bytes \<le> 8
      then Some (r\<lparr>act_head := map Some bytes @ drop (length bytes) (act_head r)\<rparr>) else None)"

definition coordinates_checked :: "action_request \<Rightarrow> action_result option" where
  "coordinates_checked r =
     (case act_gps_long r of
        None \<Rightarrow> None
      | Some long \<Rightarrow>
          if long \<le> -90 \<or> long \<ge> 90 then Some Action_bad
          else (case act_gps_lat r of
                  None \<Rightarrow> None
                | Some lat \<Rightarrow>
                    if lat \<le> -180 \<or> lat \<ge> 180 then Some Action_bad else Some Action_good))"

definition parse_action ::
    "string \<Rightarrow> action_request \<Rightarrow> (action_result \<times> action_request) option" where
  "parse_action bytes r0 =
     (case copy_over bytes r0 of
        None \<Rightarrow> None
      | Some r \<Rightarrow>
          (case act_body_length r of
             None \<Rightarrow> None
           | Some len \<Rightarrow>
               if to_size len \<noteq> length bytes + 4 then Some (Action_bad, r)
               else (case act_method r of
                       None \<Rightarrow> None
                     | Some mt \<Rightarrow>
                         if mt = Sign_in \<or> mt = Log_in then
                           if act_id r = [] \<or> act_pwd r = [] then Some (Action_bad, r)
                           else Some (Action_good, r)
                         else if mt = Send_user_gps then
                           map_option (\<lambda>res. (res, r)) (coordinates_checked r)
                         else Some (Action_good, r))))"

section \<open>What the parser can do\<close>

lemma bytes_value_map: "bytes_value (map Some cs) = Some (foldr (\<lambda>c v. of_char c + 256 * v) cs 0)"
  by (induction cs) simp_all

lemma foldr_bytes_bound:
  "0 \<le> foldr (\<lambda>c v. of_char c + 256 * v) cs (0 :: int)
   \<and> foldr (\<lambda>c v. of_char c + 256 * v) cs (0 :: int) < 256 ^ length cs"
proof (induction cs)
  case (Cons c cs)
  with of_char_range [of c] show ?case by simp
qed simp

lemma int_at_written:
  assumes "off + 4 \<le> length bytes"
  shows "\<exists>v. int_at off (map Some bytes) = Some v \<and> - (2 ^ 31) \<le> v \<and> v < 2 ^ 31"
proof -
  have "length (take 4 (drop off bytes)) = 4" using assms by simp
  then have "0 \<le> foldr (\<lambda>c v. of_char c + 256 * v) (take 4 (drop off bytes)) (0 :: int)"
    "foldr (\<lambda>c v. of_char c + 256 * v) (take 4 (drop off bytes)) (0 :: int) < 2 ^ 32"
    using foldr_bytes_bound [of "take 4 (drop off bytes)"] by (simp_all del: foldr.simps)
  then show ?thesis
    by (simp add: int_at_def drop_map take_map bytes_value_map del: foldr.simps)
qed

lemma bytes_value_None: "None \<in> set ds \<Longrightarrow> bytes_value ds = None"
  by (induction ds rule: bytes_value.induct) auto

text \<open>A fresh request whose head is copied from the wire.\<close>

lemma parse_action_fresh:
  "parse_action bytes new_action_request =
     (if length bytes \<noteq> 8 then None
      else let r = new_action_request\<lparr>act_head := map Some bytes\<rparr>
      in if int_at 4 (map Some bytes) \<noteq> Some 12 then Some (Action_bad, r)
         else (case method_of (the (int_at 0 (map Some bytes))) of
                 Log_in \<Rightarrow> Some (Action_bad, r)
               | Sign_in \<Rightarrow> Some (Action_bad, r)
               | Send_user_gps \<Rightarrow> None
               | _ \<Rightarrow> Some (Action_good, r)))"
proof (cases "length bytes = 8")
  case True
  obtain v where v: "int_at 4 (map Some bytes) = Some v" "- (2 ^ 31) \<le> v" "v < 2 ^ 31"
    using int_at_written [of 4 bytes] True by auto
  obtain w where w: "int_at 0 (map Some bytes) = Some w"
    using int_at_written [of 0 bytes] True by auto
  have "to_size v = 12 \<longleftrightarrow> v = 12"
    using to_size_small [of v] v(2,3) by (auto split: if_splits)
  then show ?thesis
    using True v w
    by (simp add: parse_action_def copy_over_def new_action_request_def act_body_length_def
        act_method_def coordinates_checked_def Let_def split: method_type.split)
next
  case False
  have "act_body_length (new_action_request\<lparr>act_head := map Some bytes @ replicate (8 - length bytes) None\<rparr>)
      = None" if "length bytes < 8"
  proof -
    have "None \<in> set (take 4 (drop 4 (map Some bytes @ replicate (8 - length bytes) None)))"
      using that by (cases "length bytes \<le> 4") (auto simp: set_conv_nth nth_append intro!: exI [of _ 3])
    then show ?thesis by (simp add: act_body_length_def int_at_def bytes_value_None)
  qed
  with False show ?thesis
    by (simp add: parse_action_def copy_over_def) (simp add: new_action_request_def)
qed

section \<open>Properties\<close>

text \<open>
  Property C35. What the parser makes of the first message on a connection: it is defined only
  for messages of exactly eight bytes, and of these it refuses every login and every
  registration, because their strings cannot be set, runs into uninitialised coordinates for
  those that send a position, and accepts the others when the length field says twelve.
\<close>

theorem parse_action_outcomes:
  "(parse_action bytes new_action_request \<noteq> None \<longleftrightarrow>
      length bytes = 8 \<and> \<not> (int_at 4 (map Some bytes) = Some 12
        \<and> method_of (the (int_at 0 (map Some bytes))) = Send_user_gps))
   \<and> ((\<exists>r. parse_action bytes new_action_request = Some (Action_good, r)) \<longleftrightarrow>
      length bytes = 8 \<and> int_at 4 (map Some bytes) = Some 12
        \<and> method_of (the (int_at 0 (map Some bytes))) \<notin> {Log_in, Sign_in, Send_user_gps})"
  by (auto simp: parse_action_fresh Let_def split: method_type.split)

end
