(* ===== verification/Action_Handler.thy ===== *)
theory Action_Handler
  imports Action_Request
begin

text \<open>
  \<open>class request_handler\<close> of action/server: the queries it builds and the answer to each
  method. The database is not part of the repository; it is the parameter \<open>execute\<close>, which
  takes a schema, a query and the state of the database to a result set or an exception, and the
  next state. A result set answers \<open>getString\<close> and \<open>getInt\<close> for a column, or throws. An exception
  ends the handler: it is \<open>Inl\<close>.
\<close>

section \<open>Replies and the database\<close>

datatype action_status = Act_ok | Act_created | Act_bad_request | Act_not_found | Act_unavailable

record action_reply =
  act_status :: "action_status option"
  act_rep_secret :: string
  act_rep_long :: "rat list"
  act_rep_lat :: "rat list"

definition new_action_reply :: action_reply where
  "new_action_reply =
     \<lparr>act_status = None, act_rep_secret = [], act_rep_long = [], act_rep_lat = []\<rparr>"

definition stock_action_reply :: "action_status \<Rightarrow> action_reply" where
  "stock_action_reply status = new_action_reply\<lparr>act_status := Some status\<rparr>"

text \<open>The text made of a reply, with its terminating NUL; what the reply holds is not in it.\<close>

definition action_to_buffer :: "action_reply \<Rightarrow> string" where
  "action_to_buffer rep = ''hi'' @ [NUL]"

datatype db_error = Sql_exception string

record result_set =
  get_string :: "string \<Rightarrow> db_error + string"
  get_int :: "string \<Rightarrow> db_error + int"

type_synonym 'd database = "string \<Rightarrow> string \<Rightarrow> 'd \<Rightarrow> (db_error + result_set) \<times> 'd"

text \<open>The constructor of \<open>db_conn\<close>, on the \<open>connect\<close> of the driver, which may throw.\<close>

definition new_db_conn ::
    "(string \<Rightarrow> string \<Rightarrow> string \<Rightarrow> db_error + 'c) \<Rightarrow> string \<Rightarrow> string \<Rightarrow> string \<Rightarrow> string \<Rightarrow> db_error + 'c" where
  "new_db_conn connect ip port user pwd = connect (''tcp://'' @ ip @ '':'' @ port) user pwd"

definition new_request_handler ::
    "(string \<Rightarrow> string \<Rightarrow> string \<Rightarrow> db_error + 'c) \<Rightarrow> db_error + 'c" where
  "new_request_handler connect =
     new_db_conn connect ''127.0.0.1'' ''3306'' ''root'' ''jackthe7582@''"

definition set_query :: "'d database \<Rightarrow> string \<Rightarrow> string \<Rightarrow> 'd \<Rightarrow> (db_error + result_set) \<times> 'd" where
  "set_query execute schema query d = execute schema query d"

section \<open>The handler\<close>

definition secret_query :: "string \<Rightarrow> string \<Rightarrow> string" where
  "secret_query uid pwd =
     ''select secret from Users where id='' @ [CHR 0x27] @ uid @ [CHR 0x27] @ '' && pwd='' @ [CHR 0x27]
       @ pwd @ [CHR 0x27] @ '';''"

definition id_query :: "string \<Rightarrow> string" where
  "id_query secret = ''select uid from Users where scr='' @ [CHR 0x27] @ secret @ [CHR 0x27] @ '';''"

definition insert_query :: "string \<Rightarrow> string \<Rightarrow> string \<Rightarrow> string" where
  "insert_query uid pwd scr =
     ''insert into (id,pwd,scr)values('' @ [CHR 0x27] @ uid @ [CHR 0x27] @ '', '' @ [CHR 0x27] @ pwd
       @ [CHR 0x27] @ '', '' @ [CHR 0x27] @ scr @ '');''"

definition get_secret ::
    "'d database \<Rightarrow> string \<Rightarrow> string \<Rightarrow> 'd \<Rightarrow> (db_error + string) \<times> 'd" where
  "get_secret execute uid pwd d =
     (case set_query execute ''action'' (secret_query uid pwd) d of
        (Inl e, d1) \<Rightarrow> (Inl e, d1)
      | (Inr rs, d1) \<Rightarrow> (get_string rs ''scr'', d1))"

definition get_id :: "'d database \<Rightarrow> string \<Rightarrow> 'd \<Rightarrow> (db_error + string) \<times> 'd" where
  "get_id execute secret d =
     (case set_query execute ''action'' (id_query secret) d of
        (Inl e, d1) \<Rightarrow> (Inl e, d1)
      | (Inr rs, d1) \<Rightarrow>
          (case get_int rs ''uid'' of Inl e \<Rightarrow> Inl e | Inr v \<Rightarrow> Inr (int_to_string v), d1))"

definition insert_new_user ::
    "'d database \<Rightarrow> int \<Rightarrow> string \<Rightarrow> string \<Rightarrow> 'd \<Rightarrow> (db_error + unit) \<times> 'd" where
  "insert_new_user execute now uid pwd d =
     (case set_query execute ''action'' (insert_query uid pwd (int_to_string now)) d of
        (Inl e, d1) \<Rightarrow> (Inl e, d1)
      | (Inr rs, d1) \<Rightarrow> (Inr (), d1))"

text \<open>Sequencing with exceptions and the state of the database.\<close>

definition db_bind ::
    "(db_error + 'a) \<times> 'd \<Rightarrow> ('a \<Rightarrow> 'd \<Rightarrow> (db_error + 'b) \<times> 'd) \<Rightarrow> (db_error + 'b) \<times> 'd" where
  "db_bind x f = (case x of (Inl e, d) \<Rightarrow> (Inl e, d) | (Inr v, d) \<Rightarrow> f v d)"

definition answer_with ::
    "action_status \<Rightarrow> action_status \<Rightarrow> bool \<Rightarrow> action_reply \<Rightarrow> action_reply" where
  "answer_with no yes found rep = rep\<lparr>act_status := Some (if found then yes else no)\<rparr>"

definition action_handle ::
    "'d database \<Rightarrow> int \<Rightarrow> method_type \<Rightarrow> action_request \<Rightarrow> action_reply \<Rightarrow> 'd
     \<Rightarrow> (db_error + action_reply) \<times> 'd" where
  "action_handle execute now mt req rep d =
     (case mt of
        Log_in \<Rightarrow> db_bind (get_secret execute (act_id req) (act_pwd req) d) (\<lambda>secret d1.
          (Inr (answer_with Act_bad_request Act_ok (act_secret req \<noteq> [])
             (rep\<lparr>act_rep_secret := secret\<rparr>)), d1))
      | Log_out \<Rightarrow> db_bind (get_id execute (act_secret req) d) (\<lambda>uid d1.
          (Inr (answer_with Act_bad_request Act_ok (uid \<noteq> []) rep), d1))
      | Sign_in \<Rightarrow> db_bind (get_secret execute (act_id req) (act_pwd req) d) (\<lambda>secret d1.
          db_bind (if act_secret req = [] then insert_new_user execute now (act_id req) (act_pwd req) d1
                   else (Inr (), d1)) (\<lambda>_ d2.
          (Inr (answer_with Act_bad_request Act_created (act_secret req = [])
             (rep\<lparr>act_rep_secret := secret\<rparr>)), d2)))
      | Get_user_gps \<Rightarrow> db_bind (get_secret execute (act_id req) (act_pwd req) d) (\<lambda>secret d1.
          (Inr (answer_with Act_bad_request Act_ok (act_secret req \<noteq> [])
             (rep\<lparr>act_rep_secret := secret\<rparr>)), d1))
      | Get_item_gps \<Rightarrow> db_bind (get_secret execute (act_id req) (act_pwd req) d) (\<lambda>secret d1.
          (Inr (answer_with Act_bad_request Act_ok (act_secret req \<noteq> [])
             (rep\<lparr>act_rep_secret := secret\<rparr>)), d1))
      | Send_user_gps \<Rightarrow> db_bind (get_id execute (act_secret req) d) (\<lambda>uid d1.
          (Inr (answer_with Act_bad_request Act_ok (uid \<noteq> []) rep), d1))
      | No_method \<Rightarrow> (Inr rep, d))"

section \<open>What the answers depend on\<close>

lemma int_to_string_nonempty [simp]: "int_to_string v \<noteq> []"
  by (simp add: int_to_string_def nat_to_string_nonempty)

text \<open>The status of a reply, when there is one.\<close>

fun action_status_of :: "method_type \<Rightarrow> action_request \<Rightarrow> action_status option \<Rightarrow> action_status option" where
  "action_status_of Log_out req st = Some Act_ok"
| "action_status_of Send_user_gps req st = Some Act_ok"
| "action_status_of Sign_in req st =
     Some (if act_secret req = [] then Act_created else Act_bad_request)"
| "action_status_of No_method req st = st"
| "action_status_of mt req st = Some (if act_secret req = [] then Act_bad_request else Act_ok)"

lemma db_bind_Inr:
  "db_bind x f = (Inr v, d) \<longleftrightarrow> (\<exists>u d1. x = (Inr u, d1) \<and> f u d1 = (Inr v, d))"
  by (auto simp: db_bind_def split: prod.split sum.split)

lemma get_id_nonempty: "get_id execute secret d = (Inr uid, d1) \<Longrightarrow> uid \<noteq> []"
  by (auto simp: get_id_def split: prod.splits sum.splits)

section \<open>Properties\<close>

text \<open>
  The answer does not depend on what the database says: whenever the queries do
  not throw, the status is a function of the method and of the secret the client sent. A login
  succeeds for any password if the client sends some secret, and a logout always succeeds.
\<close>

theorem action_status_ignores_database:
  assumes "action_handle execute now mt req rep d = (Inr rep', d')"
  shows "act_status rep' = action_status_of mt req (act_status rep)"
  using assms
  by (cases mt) (auto simp: action_handle_def db_bind_Inr answer_with_def dest: get_id_nonempty)

definition empty_database :: "unit database" where
  "empty_database schema query d =
     (Inr \<lparr>get_string = (\<lambda>c. Inr []), get_int = (\<lambda>c. Inr 0)\<rparr>, d)"

theorem action_status_ignores_database_witness:
  "\<exists>rep'. action_handle empty_database 0 Log_in
       (new_action_request\<lparr>act_id := ''me'', act_pwd := ''guess'', act_secret := ''x''\<rparr>)
       new_action_reply () = (Inr rep', ())
     \<and> act_status rep' = Some Act_ok"
proof -
  let ?r = "new_action_request\<lparr>act_id := ''me'', act_pwd := ''guess'', act_secret := ''x''\<rparr>"
  obtain rep' where r: "action_handle empty_database 0 Log_in ?r new_action_reply () = (Inr rep', ())"
    by (simp add: action_handle_def get_secret_def set_query_def empty_database_def db_bind_def)
  from action_status_ignores_database [OF r] r show ?thesis by auto
qed

text \<open>
  The queries do not keep the name and the password apart: moving the text
  between them from one to the other, with the quotes of the query, gives the same query, so a
  name can carry conditions of its own.
\<close>

theorem secret_query_ambiguous:
  "secret_query (uid @ [CHR 0x27] @ '' && pwd='' @ [CHR 0x27] @ x) pwd =
     secret_query uid (x @ [CHR 0x27] @ '' && pwd='' @ [CHR 0x27] @ pwd)"
  by (simp add: secret_query_def)

end
