(* ===== verification/Action_Server.thy ===== *)
theory Action_Server
  imports Action_Handler Asio
begin

text \<open>
  The connections of action/server: connection.cpp, connection_manager.cpp and server.cpp. The
  body of \<open>do_write\<close> is commented out, so a connection that has read once has no operation left.
  The state is that of the HTTP server with the database added; an exception of the handler
  leaves the \<open>io_service\<close> and ends the process (\<open>Inl\<close>), undefined behaviour is \<open>None\<close>.
\<close>

section \<open>State\<close>

record action_connection =
  act_open :: bool
  act_received :: string
  act_request :: action_request
  act_reply :: action_reply

datatype action_op = Act_accept | Act_signal | Act_read address

record 'd action_state =
  act_ops :: "action_op list"
  act_objects :: "address \<Rightarrow> action_connection option"
  act_connections :: "address list"
  act_acceptor_open :: bool
  act_db :: 'd

definition new_action_connection :: action_connection where
  "new_action_connection =
     \<lparr>act_open = True, act_received = [], act_request = new_action_request,
      act_reply = new_action_reply\<rparr>"

definition act_set :: "address \<Rightarrow> action_connection \<Rightarrow> 'd action_state \<Rightarrow> 'd action_state" where
  "act_set a c s = s\<lparr>act_objects := (act_objects s)(a \<mapsto> c)\<rparr>"

definition act_begin :: "action_op \<Rightarrow> 'd action_state \<Rightarrow> 'd action_state" where
  "act_begin p s = s\<lparr>act_ops := act_ops s @ [p]\<rparr>"

definition act_finish :: "action_op \<Rightarrow> 'd action_state \<Rightarrow> 'd action_state" where
  "act_finish p s = s\<lparr>act_ops := remove1 p (act_ops s)\<rparr>"

section \<open>Connection and manager\<close>

definition act_do_read :: "address \<Rightarrow> 'd action_state \<Rightarrow> 'd action_state" where
  "act_do_read a s = act_begin (Act_read a) s"

definition act_do_write :: "address \<Rightarrow> 'd action_state \<Rightarrow> 'd action_state" where
  "act_do_write a s = s"

definition act_connection_start :: "address \<Rightarrow> 'd action_state \<Rightarrow> 'd action_state" where
  "act_connection_start a s = act_do_read a s"

definition act_connection_stop :: "address \<Rightarrow> 'd action_state \<Rightarrow> 'd action_state" where
  "act_connection_stop a s =
     (case act_objects s a of None \<Rightarrow> s | Some c \<Rightarrow> act_set a (c\<lparr>act_open := False\<rparr>) s)"

definition act_manager_start :: "address \<Rightarrow> 'd action_state \<Rightarrow> 'd action_state" where
  "act_manager_start a s =
     act_connection_start a (s\<lparr>act_connections := std_set_insert a (act_connections s)\<rparr>)"

definition act_manager_stop :: "address \<Rightarrow> 'd action_state \<Rightarrow> 'd action_state" where
  "act_manager_stop a s =
     act_connection_stop a (s\<lparr>act_connections := std_set_erase a (act_connections s)\<rparr>)"

fun act_stop_each :: "address list \<Rightarrow> 'd action_state \<Rightarrow> 'd action_state" where
  "act_stop_each [] s = s"
| "act_stop_each (a # as) s = act_stop_each as (act_connection_stop a s)"

definition act_stop_all :: "'d action_state \<Rightarrow> 'd action_state" where
  "act_stop_all s = (act_stop_each (act_connections s) s)\<lparr>act_connections := []\<rparr>"

text \<open>
  The completion handler of the read. The stock reply of the bad branch is made and dropped.
\<close>

definition on_act_read ::
    "'d database \<Rightarrow> int \<Rightarrow> address \<Rightarrow> error_code \<Rightarrow> string \<Rightarrow> 'd action_state
     \<Rightarrow> (db_error + 'd action_state) option" where
  "on_act_read execute now a ec bytes s =
     (case act_objects s a of
        None \<Rightarrow> None
      | Some c \<Rightarrow>
          if ec = No_error then
            (case parse_action bytes (act_request c) of
               None \<Rightarrow> None
             | Some (result, r) \<Rightarrow>
                 let c1 = c\<lparr>act_received := act_received c @ bytes, act_request := r\<rparr>
                 in if result = Action_good then
                      (case act_method r of
                         None \<Rightarrow> None
                       | Some mt \<Rightarrow>
                           (case action_handle execute now mt r (act_reply c) (act_db s) of
                              (Inl e, d) \<Rightarrow> Some (Inl e)
                            | (Inr rep, d) \<Rightarrow>
                                Some (Inr (act_do_write a
                                  (act_set a (c1\<lparr>act_reply := rep\<rparr>) (s\<lparr>act_db := d\<rparr>))))))
                    else if result = Action_bad then Some (Inr (act_do_write a (act_set a c1 s)))
                    else Some (Inr (act_do_read a (act_set a c1 s))))
          else if ec \<noteq> Operation_aborted then Some (Inr (act_manager_stop a s))
          else Some (Inr s))"

section \<open>The server\<close>

definition act_do_accept :: "'d action_state \<Rightarrow> 'd action_state" where
  "act_do_accept s = act_begin Act_accept s"

definition act_await_stop :: "'d action_state \<Rightarrow> 'd action_state" where
  "act_await_stop s = act_begin Act_signal s"

definition new_action_server :: "'d \<Rightarrow> 'd action_state" where
  "new_action_server d =
     act_do_accept (act_await_stop
       \<lparr>act_ops = [], act_objects = (\<lambda>_. None), act_connections = [], act_acceptor_open = True,
        act_db = d\<rparr>)"

definition on_act_accept :: "error_code \<Rightarrow> address \<Rightarrow> 'd action_state \<Rightarrow> 'd action_state" where
  "on_act_accept ec a s =
     (if \<not> act_acceptor_open s then s
      else act_do_accept
        (if ec = No_error then act_manager_start a (act_set a new_action_connection s) else s))"

definition on_act_signal :: "'d action_state \<Rightarrow> 'd action_state" where
  "on_act_signal s = act_stop_all (s\<lparr>act_acceptor_open := False\<rparr>)"

text \<open>The manager is a registry here, too.\<close>

interpretation act_registry: registry act_connections act_manager_start act_manager_stop
  by unfold_locales
     (simp_all add: act_manager_start_def act_manager_stop_def act_connection_start_def
       act_connection_stop_def act_do_read_def act_begin_def act_set_def split: option.split)

section \<open>Steps\<close>

definition act_referenced :: "address \<Rightarrow> 'd action_state \<Rightarrow> bool" where
  "act_referenced a s \<longleftrightarrow> a \<in> set (act_connections s) \<or> Act_read a \<in> set (act_ops s)"

inductive act_step :: "'d database \<Rightarrow> 'd action_state \<Rightarrow> 'd action_state \<Rightarrow> bool" for execute where
  act_accepted: "Act_accept \<in> set (act_ops s) \<Longrightarrow> \<not> act_referenced a s \<Longrightarrow> act_objects s a = None \<Longrightarrow>
     act_step execute s (on_act_accept ec a (act_finish Act_accept s))"
| act_signalled: "Act_signal \<in> set (act_ops s) \<Longrightarrow>
     act_step execute s (on_act_signal (act_finish Act_signal s))"
| act_read_done: "Act_read a \<in> set (act_ops s) \<Longrightarrow> length bytes \<le> 8192 \<Longrightarrow>
     on_act_read execute now a ec bytes (act_finish (Act_read a) s) = Some (Inr t) \<Longrightarrow>
     act_step execute s t"
| act_released: "act_objects s a = Some c \<Longrightarrow> \<not> act_referenced a s \<Longrightarrow>
     act_step execute s (s\<lparr>act_objects := (act_objects s)(a := None)\<rparr>)"

inductive act_steps :: "'d database \<Rightarrow> 'd action_state \<Rightarrow> 'd action_state \<Rightarrow> bool" for execute where
  act_no_step: "act_steps execute s s"
| act_more: "act_steps execute s t \<Longrightarrow> act_step execute t u \<Longrightarrow> act_steps execute s u"

inductive_cases act_stepE: "act_step execute s t"

lemma act_set_simps [simp]:
  "act_ops (act_set a c s) = act_ops s"
  "act_objects (act_set a c s) = (act_objects s)(a \<mapsto> c)"
  "act_connections (act_set a c s) = act_connections s"
  "act_acceptor_open (act_set a c s) = act_acceptor_open s"
  by (simp_all add: act_set_def)

lemma act_begin_simps [simp]:
  "act_ops (act_begin p s) = act_ops s @ [p]"
  "act_objects (act_begin p s) = act_objects s"
  "act_connections (act_begin p s) = act_connections s"
  "act_acceptor_open (act_begin p s) = act_acceptor_open s"
  by (simp_all add: act_begin_def)

lemma act_finish_simps [simp]:
  "act_ops (act_finish p s) = remove1 p (act_ops s)"
  "act_objects (act_finish p s) = act_objects s"
  "act_connections (act_finish p s) = act_connections s"
  "act_acceptor_open (act_finish p s) = act_acceptor_open s"
  by (simp_all add: act_finish_def)

lemma act_connection_stop_simps [simp]:
  "act_ops (act_connection_stop a s) = act_ops s"
  "act_connections (act_connection_stop a s) = act_connections s"
  "act_acceptor_open (act_connection_stop a s) = act_acceptor_open s"
  "b \<noteq> a \<Longrightarrow> act_objects (act_connection_stop a s) b = act_objects s b"
  by (simp_all add: act_connection_stop_def split: option.split)

lemma act_stop_each_simps [simp]:
  "act_acceptor_open (act_stop_each as s) = act_acceptor_open s"
  by (induction as s rule: act_stop_each.induct) simp_all

section \<open>Stuck connections\<close>

text \<open>
  A connection that is registered and open and has nothing outstanding: nothing will ever call
  it again.
\<close>

definition stuck :: "address \<Rightarrow> 'd action_state \<Rightarrow> bool" where
  "stuck a s \<longleftrightarrow> a \<in> set (act_connections s) \<and> Act_read a \<notin> set (act_ops s)
     \<and> (\<exists>c. act_objects s a = Some c \<and> act_open c)"

lemma on_act_read_other:
  assumes "on_act_read execute now b ec bytes s = Some (Inr t)" "b \<noteq> a"
  shows "act_objects t a = act_objects s a"
    "a \<in> set (act_connections t) \<longleftrightarrow> a \<in> set (act_connections s)"
    "Act_read a \<in> set (act_ops t) \<longleftrightarrow> Act_read a \<in> set (act_ops s)"
    "act_acceptor_open t = act_acceptor_open s"
  using assms
  by (auto simp: on_act_read_def Let_def act_do_write_def act_do_read_def act_manager_stop_def
      split: option.splits prod.splits sum.splits if_splits)

lemma stuck_step:
  assumes "act_step execute s t" "stuck a s" "act_acceptor_open t"
  shows "stuck a t"
  using assms(1)
proof (cases rule: act_step.cases)
  case (act_accepted b ec)
  with assms(2) have "b \<noteq> a" by (auto simp: stuck_def act_referenced_def)
  with act_accepted assms(2) show ?thesis
    by (auto simp: stuck_def on_act_accept_def act_do_accept_def act_manager_start_def
        act_connection_start_def act_do_read_def dest: in_remove1D)
next
  case act_signalled
  then show ?thesis using assms(3) by (simp add: on_act_signal_def act_stop_all_def)
next
  case (act_read_done b bytes now ec)
  with assms(2) have "b \<noteq> a" by (auto simp: stuck_def)
  with on_act_read_other [OF act_read_done(3) this] assms(2) show ?thesis
    by (auto simp: stuck_def dest: in_remove1D)
next
  case (act_released b c)
  with assms(2) show ?thesis by (auto simp: stuck_def act_referenced_def)
qed

lemma closed_step: "act_step execute s t \<Longrightarrow> act_acceptor_open t \<Longrightarrow> act_acceptor_open s"
proof (induction rule: act_step.induct)
  case (act_read_done a s bytes now ec t)
  then show ?case
    by (auto simp: on_act_read_def Let_def act_do_write_def act_do_read_def act_manager_stop_def
        split: option.splits prod.splits sum.splits if_splits)
qed (auto simp: on_act_accept_def on_act_signal_def act_stop_all_def split: if_splits)

lemma stuck_steps:
  "act_steps execute s t \<Longrightarrow> stuck a s \<Longrightarrow> act_acceptor_open t \<Longrightarrow> stuck a t"
proof (induction rule: act_steps.induct)
  case (act_more s t u)
  then show ?case using stuck_step closed_step by blast
qed

section \<open>The invariant\<close>

inductive act_reachable :: "'d database \<Rightarrow> 'd \<Rightarrow> 'd action_state \<Rightarrow> bool" for execute d where
  act_start: "act_reachable execute d (new_action_server d)"
| act_next: "act_reachable execute d s \<Longrightarrow> act_step execute s t \<Longrightarrow> act_reachable execute d t"

text \<open>
  A connection that reads has not read before: it is as the constructor made it, it has one
  read outstanding, and it is registered as long as its socket is open.
\<close>

definition reading_fresh :: "address \<Rightarrow> 'd action_state \<Rightarrow> bool" where
  "reading_fresh a s \<longleftrightarrow> (\<exists>c. act_objects s a = Some c \<and> act_request c = new_action_request
     \<and> act_reply c = new_action_reply \<and> (act_open c \<longleftrightarrow> a \<in> set (act_connections s)))"

definition act_ok :: "'d action_state \<Rightarrow> bool" where
  "act_ok s \<longleftrightarrow> (\<forall>a. count_list (act_ops s) (Act_read a) \<le> 1)
     \<and> (\<forall>a. Act_read a \<in> set (act_ops s) \<longrightarrow> reading_fresh a s)"

lemma act_ok_objects:
  assumes "act_ok s" "act_ops t = act_ops s"
    and "\<And>b. Act_read b \<in> set (act_ops s) \<Longrightarrow> reading_fresh b s \<Longrightarrow> reading_fresh b t"
  shows "act_ok t"
  using assms by (simp add: act_ok_def)

lemma act_ok_finish: "act_ok s \<Longrightarrow> act_ok (act_finish p s)"
  by (auto simp: act_ok_def reading_fresh_def le_diff_conv intro: le_SucI dest: in_remove1D)

lemma act_ok_begin: "act_ok s \<Longrightarrow> p = Act_accept \<or> p = Act_signal \<Longrightarrow> act_ok (act_begin p s)"
  by (auto simp: act_ok_def reading_fresh_def)

lemma act_objects_stop:
  "act_objects (act_connection_stop a s) =
     (act_objects s)(a := map_option (\<lambda>c. c\<lparr>act_open := False\<rparr>) (act_objects s a))"
  by (auto simp: act_connection_stop_def split: option.split)

lemma act_stop_each_objects:
  "act_objects (act_stop_each as s) =
     (\<lambda>b. if b \<in> set as then map_option (\<lambda>c. c\<lparr>act_open := False\<rparr>) (act_objects s b)
          else act_objects s b)"
  by (induction as s rule: act_stop_each.induct)
     (auto simp: act_objects_stop fun_eq_iff option.map_comp comp_def)

lemma act_stop_each_ops [simp]: "act_ops (act_stop_each as s) = act_ops s"
  by (induction as s rule: act_stop_each.induct) simp_all

text \<open>Once its operation is taken, a connection can be changed freely.\<close>

lemma act_ok_change:
  assumes "act_ok s" "Act_read a \<in> set (act_ops s)" "act_ops t = remove1 (Act_read a) (act_ops s)"
    and "\<And>b. b \<noteq> a \<Longrightarrow> act_objects t b = act_objects s b"
    and "\<And>b. b \<noteq> a \<Longrightarrow> b \<in> set (act_connections t) \<longleftrightarrow> b \<in> set (act_connections s)"
  shows "act_ok t"
proof -
  have "count_list (act_ops s) (Act_read a) \<le> 1" using assms(1) by (simp add: act_ok_def)
  then have none: "Act_read a \<notin> set (act_ops t)" by (simp add: assms(3) count_list_pos)
  have "reading_fresh b t" if "Act_read b \<in> set (act_ops t)" for b
  proof -
    have "b \<noteq> a" using that none by auto
    moreover have "Act_read b \<in> set (act_ops s)" using that assms(3) by (auto dest: in_remove1D)
    ultimately show ?thesis using assms(1,4,5) by (simp add: act_ok_def reading_fresh_def)
  qed
  moreover have "count_list (act_ops t) (Act_read b) \<le> 1" for b
    using assms(1,3) by (auto simp: act_ok_def intro: order.trans [OF diff_le_self])
  ultimately show ?thesis by (simp add: act_ok_def)
qed

lemma parse_action_decided: "parse_action bytes r \<noteq> Some (Action_indeterminate, r')"
  by (auto simp: parse_action_def coordinates_checked_def split: option.splits if_splits)

lemma parse_action_method: "parse_action bytes r = Some (Action_good, r') \<Longrightarrow> act_method r' \<noteq> None"
  by (auto simp: parse_action_def split: option.splits if_splits)

text \<open>After a read without error the connection has nothing outstanding.\<close>

lemma act_read_result:
  assumes "on_act_read execute now a No_error bytes s = Some (Inr t)"
  shows "act_ops t = act_ops s" "act_connections t = act_connections s"
    "act_acceptor_open t = act_acceptor_open s" "b \<noteq> a \<Longrightarrow> act_objects t b = act_objects s b"
    "\<exists>c d. act_objects s a = Some c \<and> act_objects t a = Some d \<and> act_open d = act_open c"
  using assms parse_action_decided
  by (auto simp: on_act_read_def Let_def act_do_write_def
      split: option.splits prod.splits sum.splits if_splits) (metis action_result.exhaust)+

lemma on_act_read_ok:
  assumes ok: "act_ok s" "Act_read a \<in> set (act_ops s)"
    and t: "on_act_read execute now a ec bytes (act_finish (Act_read a) s) = Some (Inr t)"
  shows "act_ok t"
proof (cases "ec = No_error")
  case True
  with t have "on_act_read execute now a No_error bytes (act_finish (Act_read a) s) = Some (Inr t)"
    by simp
  from act_read_result [OF this] show ?thesis by (intro act_ok_change [OF ok]) auto
next
  case False
  with t have "t = act_manager_stop a (act_finish (Act_read a) s) \<or> t = act_finish (Act_read a) s"
    by (auto simp: on_act_read_def split: option.splits if_splits)
  then show ?thesis
    by (intro act_ok_change [OF ok]) (auto simp: act_manager_stop_def)
qed

lemma on_act_accept_ok:
  assumes ok: "act_ok s" and a: "\<not> act_referenced a s" "act_objects s a = None"
  shows "act_ok (on_act_accept ec a s)"
proof (cases "act_acceptor_open s \<and> ec = No_error")
  case False
  then show ?thesis
    using ok by (auto simp: on_act_accept_def act_do_accept_def act_ok_begin)
next
  case True
  let ?t = "act_manager_start a (act_set a new_action_connection s)"
  have ops: "act_ops ?t = act_ops s @ [Act_read a]"
    by (simp add: act_manager_start_def act_connection_start_def act_do_read_def)
  have none: "count_list (act_ops s) (Act_read a) = 0"
    using a by (simp add: act_referenced_def count_list_0_iff)
  have obj: "act_objects ?t = (act_objects s)(a \<mapsto> new_action_connection)"
    "act_connections ?t = std_set_insert a (act_connections s)"
    by (simp_all add: act_manager_start_def act_connection_start_def act_do_read_def)
  have fresh: "reading_fresh b ?t" if "Act_read b \<in> set (act_ops s) \<or> b = a" for b
  proof (cases "b = a")
    case True
    then show ?thesis unfolding reading_fresh_def obj by (simp add: new_action_connection_def)
  next
    case False
    with that ok have "reading_fresh b s" by (simp add: act_ok_def)
    with False show ?thesis unfolding reading_fresh_def obj by simp
  qed
  moreover have "count_list (act_ops ?t) (Act_read b) \<le> 1" for b
    using ok none by (cases "b = a") (simp_all add: act_ok_def ops)
  moreover have "Act_read b \<in> set (act_ops ?t) \<Longrightarrow> reading_fresh b ?t" for b
    by (rule fresh) (auto simp: ops)
  ultimately have "act_ok ?t" by (simp add: act_ok_def)
  with True show ?thesis by (simp add: on_act_accept_def act_do_accept_def act_ok_begin)
qed

lemma on_act_signal_ok: "act_ok s \<Longrightarrow> act_ok (on_act_signal s)"
  by (rule act_ok_objects [of s])
     (auto simp: on_act_signal_def act_stop_all_def act_stop_each_objects reading_fresh_def)

lemma act_step_ok: "act_step execute s t \<Longrightarrow> act_ok s \<Longrightarrow> act_ok t"
proof (induction rule: act_step.induct)
  case (act_accepted s a ec)
  then show ?case
    by (intro on_act_accept_ok act_ok_finish)
       (auto simp: act_referenced_def dest: in_remove1D)
next
  case (act_signalled s)
  then show ?case by (intro on_act_signal_ok act_ok_finish)
next
  case (act_read_done a s bytes now ec t)
  then show ?case by (blast intro: on_act_read_ok)
next
  case (act_released s a c)
  then show ?case
    by - (rule act_ok_objects [of s], auto simp: act_referenced_def reading_fresh_def)
qed

lemma act_reachable_ok: "act_reachable execute d s \<Longrightarrow> act_ok s"
proof (induction rule: act_reachable.induct)
  case act_start
  show ?case
    by (simp add: act_ok_def new_action_server_def act_do_accept_def act_await_stop_def act_begin_def)
qed (blast intro: act_step_ok)

section \<open>An example run\<close>

definition one_action :: "unit action_state" where
  "one_action = on_act_accept No_error 7 (act_finish Act_accept (new_action_server ()))"

lemma one_action_simps:
  "act_ops one_action = [Act_signal, Act_read 7, Act_accept]"
  "act_connections one_action = [7]" "act_acceptor_open one_action"
  "act_objects one_action = [7 \<mapsto> new_action_connection]"
  by (simp_all add: one_action_def new_action_server_def act_do_accept_def act_await_stop_def
      act_begin_def act_finish_def on_act_accept_def act_manager_start_def act_connection_start_def
      act_do_read_def act_set_def std_set_insert_def insort_insert_key_def)

lemma one_action_reachable: "act_reachable execute () one_action"
  unfolding one_action_def
  by (rule act_next [OF act_start], rule act_accepted)
     (simp_all add: new_action_server_def act_do_accept_def act_await_stop_def act_begin_def
       act_referenced_def)

section \<open>The first read\<close>

text \<open>The method a message of eight bytes asks for, and whether it says the length the parser wants.\<close>

definition asked_method :: "string \<Rightarrow> method_type" where
  "asked_method bytes = method_of (the (int_at 0 (map Some bytes)))"

definition says_twelve :: "string \<Rightarrow> bool" where
  "says_twelve bytes \<longleftrightarrow> int_at 4 (map Some bytes) = Some 12"

lemma fresh_method:
  assumes "length bytes = 8"
  shows "act_method (new_action_request\<lparr>act_head := map Some bytes\<rparr>) = Some (asked_method bytes)"
  using int_at_written [of 0 bytes] assms by (auto simp: act_method_def asked_method_def)

text \<open>What a read without error does, on a connection that has not read before.\<close>

lemma first_read:
  assumes "act_objects s a = Some c" "act_request c = new_action_request"
  shows "on_act_read execute now a No_error bytes s =
    (let r = new_action_request\<lparr>act_head := map Some bytes\<rparr>;
         c1 = c\<lparr>act_received := act_received c @ bytes, act_request := r\<rparr>
     in if length bytes \<noteq> 8 \<or> (says_twelve bytes \<and> asked_method bytes = Send_user_gps) then None
        else if says_twelve bytes \<and> asked_method bytes \<notin> {Log_in, Sign_in} then
          (case action_handle execute now (asked_method bytes) r (act_reply c) (act_db s) of
             (Inl e, d) \<Rightarrow> Some (Inl e)
           | (Inr rep, d) \<Rightarrow>
               Some (Inr (act_do_write a (act_set a (c1\<lparr>act_reply := rep\<rparr>) (s\<lparr>act_db := d\<rparr>)))))
        else Some (Inr (act_do_write a (act_set a c1 s))))"
proof (cases "length bytes = 8")
  case True
  show ?thesis
    using assms
    by (cases "asked_method bytes")
       (simp_all add: on_act_read_def parse_action_fresh Let_def True fresh_method says_twelve_def
          flip: asked_method_def)
next
  case False
  with assms show ?thesis by (simp add: on_act_read_def parse_action_fresh)
qed

section \<open>Properties\<close>

text \<open>
  Property C26. Nobody is ever answered. What a client sends first is read once, and that read has
  one of three outcomes: it is undefined, exactly when there are not eight bytes or they send a
  position; a query of the database throws, which ends the process, and only for a logout or a
  question for positions; or, whatever else was sent and whatever the database says, the connection
  stays registered and open with nothing outstanding until the server is stopped.
\<close>

theorem action_client_left_waiting:
  assumes "act_reachable execute d s" and "Act_read a \<in> set (act_ops s)"
    and "a \<in> set (act_connections s)"
  shows "case on_act_read execute now a No_error bytes (act_finish (Act_read a) s) of
      None \<Rightarrow> length bytes \<noteq> 8 \<or> (says_twelve bytes \<and> asked_method bytes = Send_user_gps)
    | Some (Inl e) \<Rightarrow> length bytes = 8 \<and> says_twelve bytes
        \<and> asked_method bytes \<in> {Log_out, Get_user_gps, Get_item_gps}
        \<and> (\<exists>d'. action_handle execute now (asked_method bytes)
              (new_action_request\<lparr>act_head := map Some bytes\<rparr>) new_action_reply (act_db s) = (Inl e, d'))
    | Some (Inr t) \<Rightarrow> length bytes = 8 \<and> \<not> (says_twelve bytes \<and> asked_method bytes = Send_user_gps)
        \<and> (\<forall>u. act_steps execute t u \<and> act_acceptor_open u \<longrightarrow>
             a \<in> set (act_connections u) \<and> Act_read a \<notin> set (act_ops u)
             \<and> (\<exists>c. act_objects u a = Some c \<and> act_open c))"
proof -
  let ?s = "act_finish (Act_read a) s"
  have ok: "act_ok s" by (rule act_reachable_ok [OF assms(1)])
  then obtain c where c: "act_objects s a = Some c" "act_open c" "act_request c = new_action_request"
    "act_reply c = new_action_reply"
    using assms(2,3) by (auto simp: act_ok_def reading_fresh_def)
  have db: "act_db ?s = act_db s" by (simp add: act_finish_def)
  have objects: "act_objects ?s a = Some c" using c(1) by simp
  note read = first_read [OF objects c(3), of execute now bytes]
  show ?thesis
  proof (cases "on_act_read execute now a No_error bytes ?s")
    case None
    then show ?thesis using read by (auto simp: Let_def split: if_splits prod.splits sum.splits)
  next
    case (Some r)
    show ?thesis
    proof (cases r)
      case (Inl e)
      have no_query: "action_handle execute now No_method req rep d0 = (Inr rep, d0)" for req rep d0
        by (simp add: action_handle_def)
      have known: "m \<in> {Log_out, Get_user_gps, Get_item_gps}"
        if "m \<notin> {Log_in, Sign_in, Send_user_gps, No_method}" for m
        using that by (cases m) auto
      from Some Inl read have thrown: "length bytes = 8" "says_twelve bytes"
        "asked_method bytes \<notin> {Log_in, Sign_in, Send_user_gps}"
        "\<exists>d'. action_handle execute now (asked_method bytes)
           (new_action_request\<lparr>act_head := map Some bytes\<rparr>) new_action_reply (act_db s) = (Inl e, d')"
        by (auto simp: Let_def c(4) db split: if_splits prod.splits sum.splits)
      then have "asked_method bytes \<noteq> No_method" using no_query by auto
      with thrown known [of "asked_method bytes"] Some Inl show ?thesis by simp
    next
      case (Inr t)
      have t: "on_act_read execute now a No_error bytes ?s = Some (Inr t)" using Some Inr by simp
      have "count_list (act_ops s) (Act_read a) \<le> 1" using ok by (simp add: act_ok_def)
      then have "Act_read a \<notin> set (remove1 (Act_read a) (act_ops s))" by (simp add: count_list_pos)
      then have "stuck a t"
        using act_read_result [OF t] assms(3) c(1,2) by (auto simp: stuck_def)
      then have later: "stuck a u" if "act_steps execute t u" "act_acceptor_open u" for u
        using stuck_steps that by blast
      have "length bytes = 8 \<and> \<not> (says_twelve bytes \<and> asked_method bytes = Send_user_gps)"
        using read t by (auto simp: Let_def split: if_splits)
      with later Some Inr show ?thesis by (simp add: stuck_def)
    qed
  qed
qed

text \<open>Eight bytes that ask for nothing, and a message of another length.\<close>

theorem action_client_left_waiting_witness:
  "(\<exists>t. on_act_read empty_database 0 7 No_error (replicate 8 NUL) (act_finish (Act_read 7) one_action)
        = Some (Inr t) \<and> 7 \<in> set (act_connections t) \<and> Act_read 7 \<notin> set (act_ops t))
   \<and> on_act_read empty_database 0 7 No_error ''hello'' (act_finish (Act_read 7) one_action) = None"
proof -
  have s: "Act_read 7 \<in> set (act_ops one_action)" "7 \<in> set (act_connections one_action)"
    "act_objects (act_finish (Act_read 7) one_action) 7 = Some new_action_connection"
    by (simp_all add: one_action_simps)
  have new: "act_request new_action_connection = new_action_request"
    by (simp add: new_action_connection_def)
  have "\<not> says_twelve (replicate 8 NUL)"
    by (simp add: says_twelve_def int_at_def eval_nat_numeral)
  then obtain t where t: "on_act_read empty_database 0 7 No_error (replicate 8 NUL)
      (act_finish (Act_read 7) one_action) = Some (Inr t)" "act_acceptor_open t"
    by (simp add: first_read [OF s(3) new] Let_def act_do_write_def one_action_simps)
  from action_client_left_waiting [where execute = empty_database and now = 0
      and bytes = "replicate 8 NUL", OF one_action_reachable s(1,2)]
  have "7 \<in> set (act_connections t) \<and> Act_read 7 \<notin> set (act_ops t)"
    using t act_no_step [of empty_database t] by auto
  moreover have "on_act_read empty_database 0 7 No_error ''hello'' (act_finish (Act_read 7) one_action) = None"
    by (simp add: first_read [OF s(3) new] Let_def)
  ultimately show ?thesis using t(1) by blast
qed

end
