(* ===== verification/Daytime_Tcp.thy ===== *)
theory Daytime_Tcp
  imports Daytime_String Asio
begin

text \<open>
  The daytime servers and the client on TCP: boost_tcp/async_ds.cpp, boost_tcp/sync_ds.cpp and
  boost_tcp/sync_dc.cpp. The asynchronous server is a state with its objects and outstanding
  operations and a step relation; the two synchronous programs are loops over what the calls
  that block return. A connection carries the history of its socket (\<open>tc_sent\<close>, and \<open>tc_result\<close>
  when its write is complete), and the server the connections that are gone.
\<close>

section \<open>The asynchronous server\<close>

record tcp_connection =
  tc_message :: string
  tc_sent :: string
  tc_result :: "error_code option"

datatype tcp_op = Tcp_accept address | Tcp_write address

record tcp_server =
  tcp_ops :: "tcp_op list"
  tcp_objects :: "address \<Rightarrow> tcp_connection option"
  tcp_gone :: "tcp_connection list"

definition new_tcp_connection :: tcp_connection where
  "new_tcp_connection = \<lparr>tc_message = [], tc_sent = [], tc_result = None\<rparr>"

definition tcp_set :: "address \<Rightarrow> tcp_connection \<Rightarrow> tcp_server \<Rightarrow> tcp_server" where
  "tcp_set a c s = s\<lparr>tcp_objects := (tcp_objects s)(a \<mapsto> c)\<rparr>"

definition tcp_begin :: "tcp_op \<Rightarrow> tcp_server \<Rightarrow> tcp_server" where
  "tcp_begin p s = s\<lparr>tcp_ops := tcp_ops s @ [p]\<rparr>"

definition tcp_finish :: "tcp_op \<Rightarrow> tcp_server \<Rightarrow> tcp_server" where
  "tcp_finish p s = s\<lparr>tcp_ops := remove1 p (tcp_ops s)\<rparr>"

text \<open>\<open>tcp_connection::start\<close>: the text stays in the object while it is written.\<close>

definition tcp_start :: "nat \<Rightarrow> address \<Rightarrow> tcp_server \<Rightarrow> tcp_server option" where
  "tcp_start now a s =
     (case tcp_objects s a of
        None \<Rightarrow> None
      | Some c \<Rightarrow> Some (tcp_begin (Tcp_write a)
          (tcp_set a (c\<lparr>tc_message := make_daytime_string now\<rparr>) s)))"

text \<open>The handler of the write has an empty body.\<close>

definition handle_write :: "tcp_server \<Rightarrow> tcp_server" where
  "handle_write s = s"

definition start_accept :: "address \<Rightarrow> tcp_server \<Rightarrow> tcp_server" where
  "start_accept a s = tcp_begin (Tcp_accept a) (tcp_set a new_tcp_connection s)"

text \<open>The handler of the accept; \<open>b\<close> is the address of the connection it makes for the next.\<close>

definition handle_accept ::
    "nat \<Rightarrow> address \<Rightarrow> error_code \<Rightarrow> address \<Rightarrow> tcp_server \<Rightarrow> tcp_server option" where
  "handle_accept now a ec b s =
     map_option (start_accept b) (if ec = No_error then tcp_start now a s else Some s)"

definition new_tcp_server :: "address \<Rightarrow> tcp_server" where
  "new_tcp_server a = start_accept a \<lparr>tcp_ops = [], tcp_objects = (\<lambda>_. None), tcp_gone = []\<rparr>"

text \<open>
  The steps. Asio writes the whole text unless it reports an error. The shared pointer that is
  bound into a handler keeps the connection alive until the handler has returned; then the
  connection, and its socket with it, is destroyed.
\<close>

definition tcp_referenced :: "address \<Rightarrow> tcp_server \<Rightarrow> bool" where
  "tcp_referenced a s \<longleftrightarrow> Tcp_accept a \<in> set (tcp_ops s) \<or> Tcp_write a \<in> set (tcp_ops s)"

definition tcp_written_state :: "address \<Rightarrow> error_code \<Rightarrow> nat \<Rightarrow> tcp_connection \<Rightarrow> tcp_server \<Rightarrow> tcp_server" where
  "tcp_written_state a ec k c s =
     tcp_set a (c\<lparr>tc_sent := take k (tc_message c), tc_result := Some ec\<rparr>)
       (tcp_finish (Tcp_write a) s)"

inductive tcp_step :: "nat set \<Rightarrow> tcp_server \<Rightarrow> tcp_server \<Rightarrow> bool" for clock where
  tcp_accepted: "Tcp_accept a \<in> set (tcp_ops s) \<Longrightarrow> now \<in> clock \<Longrightarrow> tcp_objects s b = None \<Longrightarrow>
     handle_accept now a ec b (tcp_finish (Tcp_accept a) s) = Some t \<Longrightarrow> tcp_step clock s t"
| tcp_written: "Tcp_write a \<in> set (tcp_ops s) \<Longrightarrow> tcp_objects s a = Some c \<Longrightarrow>
     k \<le> length (tc_message c) \<Longrightarrow> (ec = No_error \<longrightarrow> k = length (tc_message c)) \<Longrightarrow>
     tcp_step clock s (handle_write (tcp_written_state a ec k c s))"
| tcp_released: "tcp_objects s a = Some c \<Longrightarrow> \<not> tcp_referenced a s \<Longrightarrow>
     tcp_step clock s (s\<lparr>tcp_objects := (tcp_objects s)(a := None), tcp_gone := tcp_gone s @ [c]\<rparr>)"

inductive tcp_reachable :: "nat set \<Rightarrow> tcp_server \<Rightarrow> bool" for clock where
  tcp_init: "tcp_reachable clock (new_tcp_server a)"
| tcp_next: "tcp_reachable clock s \<Longrightarrow> tcp_step clock s t \<Longrightarrow> tcp_reachable clock t"

section \<open>The synchronous server and the client\<close>

text \<open>
  The loop of the synchronous server, on what its calls return: the error of \<open>accept\<close>, which is
  thrown and ends the program, the clock, and how much \<open>write\<close> has written when it returns. The
  result is what each client was sent, and whether the server still runs.
\<close>

fun tcp_sync_server :: "(error_code \<times> nat \<times> nat) list \<Rightarrow> string list \<times> bool" where
  "tcp_sync_server [] = ([], True)"
| "tcp_sync_server ((ec, now, k) # rs) =
     (if ec \<noteq> No_error then ([], False)
      else (case tcp_sync_server rs of (sent, runs) \<Rightarrow>
        (take k (make_daytime_string now) # sent, runs)))"

text \<open>
  The loop of the client, on the lines it reads from the terminal and what \<open>read_some\<close> returns;
  the error of \<open>write_some\<close> is overwritten by that of the read. The result is what it has
  printed of the data, and how it stands.
\<close>

datatype client_end = Client_waits | Client_left | Client_threw error_code

fun tcp_client_loop :: "(string \<times> error_code \<times> string) list \<Rightarrow> string list \<times> string \<times> client_end" where
  "tcp_client_loop [] = ([], [], Client_waits)"
| "tcp_client_loop ((str, err, bytes) # rs) =
     (if err = Eof then ([str], [], Client_left)
      else if err \<noteq> No_error then ([str], [], Client_threw err)
      else (case tcp_client_loop rs of (written, shown, e) \<Rightarrow> (str # written, bytes @ shown, e)))"

section \<open>The invariant of the asynchronous server\<close>

text \<open>What a connection may be, when its text is the time at some point of \<open>clock\<close>.\<close>

definition tcp_conn_ok :: "nat set \<Rightarrow> tcp_connection \<Rightarrow> bool" where
  "tcp_conn_ok clock c \<longleftrightarrow> prefix (tc_sent c) (tc_message c)
     \<and> (tc_message c = [] \<or> (\<exists>now \<in> clock. tc_message c = make_daytime_string now))
     \<and> (tc_result c = Some No_error \<longrightarrow> tc_sent c = tc_message c \<and> tc_message c \<noteq> [])"

definition tcp_op_ok :: "tcp_server \<Rightarrow> tcp_op \<Rightarrow> bool" where
  "tcp_op_ok s p = (case p of
       Tcp_accept a \<Rightarrow> tcp_objects s a = Some new_tcp_connection \<and> Tcp_write a \<notin> set (tcp_ops s)
     | Tcp_write a \<Rightarrow> \<exists>c. tcp_objects s a = Some c \<and> tc_message c \<noteq> [] \<and> tc_sent c = []
         \<and> tc_result c = None)"

definition is_accept :: "tcp_op \<Rightarrow> bool" where
  "is_accept p = (case p of Tcp_accept a \<Rightarrow> True | Tcp_write a \<Rightarrow> False)"

lemma tcp_set_simps [simp]:
  "tcp_ops (tcp_set a c s) = tcp_ops s"
  "tcp_objects (tcp_set a c s) = (tcp_objects s)(a \<mapsto> c)"
  "tcp_gone (tcp_set a c s) = tcp_gone s"
  by (simp_all add: tcp_set_def)

lemma tcp_begin_simps [simp]:
  "tcp_ops (tcp_begin p s) = tcp_ops s @ [p]"
  "tcp_objects (tcp_begin p s) = tcp_objects s"
  "tcp_gone (tcp_begin p s) = tcp_gone s"
  by (simp_all add: tcp_begin_def)

lemma tcp_finish_simps [simp]:
  "tcp_ops (tcp_finish p s) = remove1 p (tcp_ops s)"
  "tcp_objects (tcp_finish p s) = tcp_objects s"
  "tcp_gone (tcp_finish p s) = tcp_gone s"
  by (simp_all add: tcp_finish_def)

lemma is_accept_simps [simp]: "is_accept (Tcp_accept a)" "\<not> is_accept (Tcp_write a)"
  by (simp_all add: is_accept_def)

lemma tcp_conn_ok_new [simp]: "tcp_conn_ok clock new_tcp_connection"
  by (simp add: tcp_conn_ok_def new_tcp_connection_def)

text \<open>The invariant, with the number of accepts that are outstanding.\<close>

definition tcp_ok :: "nat set \<Rightarrow> nat \<Rightarrow> tcp_server \<Rightarrow> bool" where
  "tcp_ok clock n s \<longleftrightarrow> distinct (tcp_ops s) \<and> length (filter is_accept (tcp_ops s)) = n
     \<and> (\<forall>p \<in> set (tcp_ops s). tcp_op_ok s p)
     \<and> (\<forall>c \<in> ran (tcp_objects s) \<union> set (tcp_gone s). tcp_conn_ok clock c)"

lemma tcp_ok_finish:
  assumes "tcp_ok clock n s" "p \<in> set (tcp_ops s)"
  shows "tcp_ok clock (if is_accept p then n - 1 else n) (tcp_finish p s)"
  using assms
  by (fastforce simp: tcp_ok_def tcp_op_ok_def filter_remove1 length_remove1 dest: in_remove1D
      split: tcp_op.splits)

text \<open>An object that no operation names may change.\<close>

lemma tcp_ok_set:
  assumes "tcp_ok clock n s" "\<not> tcp_referenced a s" "tcp_conn_ok clock c"
  shows "tcp_ok clock n (tcp_set a c s)"
  using assms
  by (fastforce simp: tcp_ok_def tcp_op_ok_def tcp_referenced_def ran_def split: tcp_op.splits)

lemma tcp_ok_begin:
  assumes "tcp_ok clock n s" "\<not> tcp_referenced a s"
    "p = Tcp_accept a \<and> tcp_objects s a = Some new_tcp_connection
     \<or> p = Tcp_write a \<and> (\<exists>c. tcp_objects s a = Some c \<and> tc_message c \<noteq> [] \<and> tc_sent c = []
         \<and> tc_result c = None)"
  shows "tcp_ok clock (if is_accept p then Suc n else n) (tcp_begin p s)"
  using assms
  by (fastforce simp: tcp_ok_def tcp_op_ok_def tcp_referenced_def split: tcp_op.splits)

lemma tcp_unreferenced:
  "tcp_ok clock n s \<Longrightarrow> tcp_objects s a = None \<Longrightarrow> \<not> tcp_referenced a s"
  by (auto simp: tcp_ok_def tcp_op_ok_def tcp_referenced_def split: tcp_op.splits)

lemma tcp_ok_start_accept:
  assumes "tcp_ok clock n s" "\<not> tcp_referenced a s"
  shows "tcp_ok clock (Suc n) (start_accept a s)"
  unfolding start_accept_def
  using tcp_ok_begin [OF tcp_ok_set [OF assms tcp_conn_ok_new], of a "Tcp_accept a"] assms(2)
  by (simp add: tcp_referenced_def)


lemma tcp_finished_accept:
  assumes ok: "tcp_ok clock (Suc 0) s" and p: "Tcp_accept a \<in> set (tcp_ops s)"
  shows "tcp_ok clock 0 (tcp_finish (Tcp_accept a) s)"
    "\<not> tcp_referenced a (tcp_finish (Tcp_accept a) s)"
    "tcp_objects s a = Some new_tcp_connection"
proof -
  show "tcp_ok clock 0 (tcp_finish (Tcp_accept a) s)"
    using tcp_ok_finish [OF ok p] by simp
  have "tcp_op_ok s (Tcp_accept a)" using ok p by (auto simp: tcp_ok_def)
  then show "tcp_objects s a = Some new_tcp_connection"
    "\<not> tcp_referenced a (tcp_finish (Tcp_accept a) s)"
    using ok by (auto simp: tcp_op_ok_def tcp_referenced_def tcp_ok_def dest: in_remove1D)
qed

lemma handle_accept_ok:
  assumes ok: "tcp_ok clock (Suc 0) s" and p: "Tcp_accept a \<in> set (tcp_ops s)"
    and now: "now \<in> clock" and b: "tcp_objects s b = None"
  shows "\<exists>t. handle_accept now a ec b (tcp_finish (Tcp_accept a) s) = Some t \<and> tcp_ok clock (Suc 0) t"
proof -
  note f = tcp_finished_accept [OF ok p]
  let ?f = "tcp_finish (Tcp_accept a) s"
  have nb: "\<not> tcp_referenced b ?f" using tcp_unreferenced [OF f(1), of b] b by simp
  have ab: "a \<noteq> b" using f(3) b by auto
  show ?thesis
  proof (cases "ec = No_error")
    case True
    let ?c = "new_tcp_connection\<lparr>tc_message := make_daytime_string now\<rparr>"
    have "tcp_conn_ok clock ?c"
      using now by (auto simp: tcp_conn_ok_def new_tcp_connection_def)
    from tcp_ok_set [OF f(1,2) this]
    have "tcp_ok clock 0 (tcp_begin (Tcp_write a) (tcp_set a ?c ?f))"
      using tcp_ok_begin [of clock 0 "tcp_set a ?c ?f" a "Tcp_write a"] f(2)
      by (simp add: tcp_referenced_def new_tcp_connection_def daytime_nonempty)
    from tcp_ok_start_accept [OF this, of b] show ?thesis
      using True f(3) nb ab by (simp add: handle_accept_def tcp_start_def tcp_referenced_def)
  next
    case False
    with tcp_ok_start_accept [OF f(1) nb] show ?thesis by (simp add: handle_accept_def)
  qed
qed

lemma tcp_written_ok:
  assumes ok: "tcp_ok clock n s" and p: "Tcp_write a \<in> set (tcp_ops s)"
    and c: "tcp_objects s a = Some c" and k: "ec = No_error \<longrightarrow> k = length (tc_message c)"
  shows "tcp_ok clock n (tcp_written_state a ec k c s)"
proof -
  have ops: "tcp_op_ok s (Tcp_write a)" "distinct (tcp_ops s)" "tcp_conn_ok clock c"
    "\<And>b. Tcp_accept b \<in> set (tcp_ops s) \<Longrightarrow> tcp_op_ok s (Tcp_accept b)"
    using ok p c by (auto simp: tcp_ok_def ran_def)
  then have "\<not> tcp_referenced a (tcp_finish (Tcp_write a) s)"
    using p by (auto simp: tcp_referenced_def tcp_op_ok_def dest: in_remove1D)
  moreover have "tcp_conn_ok clock (c\<lparr>tc_sent := take k (tc_message c), tc_result := Some ec\<rparr>)"
    using ops(1,3) k c by (auto simp: tcp_conn_ok_def tcp_op_ok_def take_is_prefix)
  ultimately show ?thesis
    using tcp_ok_set tcp_ok_finish [OF ok p] by (simp add: tcp_written_state_def)
qed

lemma tcp_released_ok:
  assumes "tcp_ok clock n s" "tcp_objects s a = Some c" "\<not> tcp_referenced a s"
  shows "tcp_ok clock n (s\<lparr>tcp_objects := (tcp_objects s)(a := None), tcp_gone := tcp_gone s @ [c]\<rparr>)"
proof -
  have "ran ((tcp_objects s)(a := None)) \<union> set (tcp_gone s @ [c]) \<subseteq> ran (tcp_objects s) \<union> set (tcp_gone s)"
    using assms(2) by (auto simp: ran_def)
  with assms show ?thesis
    by (fastforce simp: tcp_ok_def tcp_op_ok_def tcp_referenced_def split: tcp_op.splits)
qed

lemma tcp_step_ok:
  assumes "tcp_step clock s t" "tcp_ok clock (Suc 0) s"
  shows "tcp_ok clock (Suc 0) t"
  using assms
proof (induction rule: tcp_step.induct)
  case (tcp_accepted a s now b ec t)
  then show ?case using handle_accept_ok [of clock s a now b ec] by auto
next
  case (tcp_written a s c k ec)
  then show ?case by (simp add: handle_write_def tcp_written_ok)
next
  case (tcp_released s a c)
  then show ?case by (intro tcp_released_ok)
qed

lemma tcp_reachable_ok: "tcp_reachable clock s \<Longrightarrow> tcp_ok clock (Suc 0) s"
proof (induction rule: tcp_reachable.induct)
  case (tcp_init a)
  show ?case unfolding new_tcp_server_def
    by (rule tcp_ok_start_accept) (simp_all add: tcp_ok_def tcp_referenced_def)
qed (rule tcp_step_ok)

lemma tcp_sent_cases:
  assumes "tcp_reachable clock s" "c \<in> ran (tcp_objects s) \<union> set (tcp_gone s)"
  shows "(tc_sent c = [] \<or> (\<exists>now \<in> clock. prefix (tc_sent c) (make_daytime_string now)))
    \<and> (tc_result c = Some No_error \<longrightarrow> (\<exists>now \<in> clock. tc_sent c = make_daytime_string now))"
proof -
  have "tcp_conn_ok clock c" using tcp_reachable_ok [OF assms(1)] assms(2) by (simp add: tcp_ok_def)
  then show ?thesis by (auto simp: tcp_conn_ok_def)
qed

definition tcp_sent_texts :: "tcp_server \<Rightarrow> string set" where
  "tcp_sent_texts s = tc_sent ` (ran (tcp_objects s) \<union> set (tcp_gone s))"

interpretation tcp_time: time_service clock "tcp_reachable clock" tcp_sent_texts for clock
  by unfold_locales (unfold tcp_sent_texts_def, use tcp_sent_cases in blast)

section \<open>Properties\<close>

text \<open>
  Property C38. Whoever connects to the daytime server is sent a prefix of the text of a time the
  clock showed, and all of it when the write succeeds; and a client that sees the line feed has
  the whole text and reads a time of the clock from it.
\<close>

theorem daytime_clients_get_the_time:
  assumes "tcp_reachable clock s" "c \<in> ran (tcp_objects s) \<union> set (tcp_gone s)"
    and "\<And>now. now \<in> clock \<Longrightarrow> tm_year (localtime now) < 10000"
  shows "(tc_sent c = [] \<or> (\<exists>now \<in> clock. prefix (tc_sent c) (make_daytime_string now)))
    \<and> (tc_result c = Some No_error \<longrightarrow> (\<exists>now \<in> clock. tc_sent c = make_daytime_string now))
    \<and> (LF \<in> set (tc_sent c) \<longrightarrow> read_daytime (tc_sent c) \<in> clock)"
proof -
  have "tc_sent c \<in> tcp_sent_texts s" using assms(2) by (simp add: tcp_sent_texts_def)
  then show ?thesis
    using tcp_sent_cases [OF assms(1,2)] tcp_time.line_feed_reads [OF assms(1) _ _ assms(3)] by blast
qed

text \<open>A run: a client is accepted, is sent the whole text, and is gone.\<close>

definition served_connection :: tcp_connection where
  "served_connection =
     \<lparr>tc_message = make_daytime_string 0, tc_sent = make_daytime_string 0, tc_result = Some No_error\<rparr>"

definition served_server :: tcp_server where
  "served_server = \<lparr>tcp_ops = [Tcp_accept 2],
     tcp_objects = (\<lambda>_. None)(1 \<mapsto> served_connection, 2 \<mapsto> new_tcp_connection), tcp_gone = []\<rparr>"

lemma served_reachable: "tcp_reachable {0} served_server"
proof -
  let ?s = "new_tcp_server 1"
  let ?t = "\<lparr>tcp_ops = [Tcp_write 1, Tcp_accept 2], tcp_objects = (\<lambda>_. None)
    (1 \<mapsto> new_tcp_connection\<lparr>tc_message := make_daytime_string 0\<rparr>, 2 \<mapsto> new_tcp_connection),
    tcp_gone = []\<rparr>"
  have "handle_accept 0 1 No_error 2 (tcp_finish (Tcp_accept 1) ?s) = Some ?t"
    by (simp add: handle_accept_def tcp_start_def new_tcp_server_def start_accept_def tcp_finish_def
        tcp_begin_def tcp_set_def)
  then have "tcp_step {0} ?s ?t"
    by (intro tcp_accepted [of 1 ?s 0 "{0}" 2])
       (simp_all add: new_tcp_server_def start_accept_def)
  then have t: "tcp_reachable {0} ?t" by (rule tcp_next [OF tcp_init])
  have "tcp_step {0} ?t (handle_write (tcp_written_state 1 No_error (length (make_daytime_string 0))
      (new_tcp_connection\<lparr>tc_message := make_daytime_string 0\<rparr>) ?t))"
    by (rule tcp_written) simp_all
  moreover have "handle_write (tcp_written_state 1 No_error (length (make_daytime_string 0))
      (new_tcp_connection\<lparr>tc_message := make_daytime_string 0\<rparr>) ?t) = served_server"
    by (simp add: handle_write_def tcp_written_state_def tcp_set_def tcp_finish_def
        served_server_def served_connection_def new_tcp_connection_def fun_upd_twist)
  ultimately show ?thesis using tcp_next [OF t] by simp
qed

theorem daytime_clients_get_the_time_witness:
  "served_connection \<in> ran (tcp_objects served_server)
   \<and> (\<exists>now \<in> {0}. tc_sent served_connection = make_daytime_string now)
   \<and> read_daytime (tc_sent served_connection) = 0"
proof -
  have c: "served_connection \<in> ran (tcp_objects served_server)"
    by (auto simp: served_server_def ran_def)
  have "LF \<in> set (tc_sent served_connection)"
    using daytime_line [of 0] by (auto simp: served_connection_def)
  moreover have "tm_year (localtime now) < 10000" if "now \<in> {0}" for now
    using that year_of_zero by simp
  ultimately show ?thesis
    using daytime_clients_get_the_time [OF served_reachable, of served_connection] c
    by (simp add: served_connection_def)
qed

text \<open>
  Property C39. The daytime server always listens: exactly one accept is outstanding, its handler
  finds its connection and starts the next accept whatever the result, and every outstanding
  write has its connection with the whole text.
\<close>

theorem daytime_server_listens:
  assumes "tcp_reachable clock s" "now \<in> clock" "tcp_objects s b = None"
  shows "\<exists>a. filter is_accept (tcp_ops s) = [Tcp_accept a]
    \<and> (\<exists>t. handle_accept now a ec b (tcp_finish (Tcp_accept a) s) = Some t
           \<and> filter is_accept (tcp_ops t) = [Tcp_accept b])
    \<and> (\<forall>d. Tcp_write d \<in> set (tcp_ops s) \<longrightarrow>
         (\<exists>c m. tcp_objects s d = Some c \<and> m \<in> clock \<and> tc_message c = make_daytime_string m))"
proof -
  have ok: "tcp_ok clock (Suc 0) s" by (rule tcp_reachable_ok [OF assms(1)])
  then obtain p where p: "filter is_accept (tcp_ops s) = [p]"
    by (auto simp: tcp_ok_def length_Suc_conv)
  then have "p \<in> set (filter is_accept (tcp_ops s))" by simp
  then have "p \<in> set (tcp_ops s)" "is_accept p" by simp_all
  then obtain a where a: "p = Tcp_accept a" "Tcp_accept a \<in> set (tcp_ops s)"
    by (cases p rule: tcp_op.exhaust) simp_all
  obtain t where t: "handle_accept now a ec b (tcp_finish (Tcp_accept a) s) = Some t"
    using handle_accept_ok [OF ok a(2) assms(2,3)] by auto
  then have "filter is_accept (tcp_ops t) = [Tcp_accept b]"
    using p a(1) tcp_finished_accept(3) [OF ok a(2)]
    by (auto simp: handle_accept_def tcp_start_def start_accept_def filter_remove1 split: if_splits)
  moreover have "\<exists>c m. tcp_objects s d = Some c \<and> m \<in> clock \<and> tc_message c = make_daytime_string m"
    if d: "Tcp_write d \<in> set (tcp_ops s)" for d
  proof -
    have "tcp_op_ok s (Tcp_write d)" using ok d by (auto simp: tcp_ok_def)
    then obtain c where c: "tcp_objects s d = Some c" "tc_message c \<noteq> []"
      by (auto simp: tcp_op_ok_def)
    moreover have "tcp_conn_ok clock c" using ok c(1) by (auto simp: tcp_ok_def ran_def)
    ultimately show ?thesis by (auto simp: tcp_conn_ok_def)
  qed
  ultimately show ?thesis using p a(1) t by auto
qed

theorem daytime_server_listens_witness:
  "\<exists>a. filter is_accept (tcp_ops served_server) = [Tcp_accept a]
    \<and> (\<exists>t. handle_accept 0 a Other_error 3 (tcp_finish (Tcp_accept a) served_server) = Some t
           \<and> filter is_accept (tcp_ops t) = [Tcp_accept 3])"
proof -
  have "tcp_objects served_server 3 = None" by (simp add: served_server_def)
  from daytime_server_listens [OF served_reachable _ this, of 0 Other_error]
  show ?thesis by auto
qed

lemma tcp_client_reads:
  "length ls = Suc (length ps) \<Longrightarrow>
     tcp_client_loop (zip ls (map (Pair No_error) ps @ [(Eof, [])])) = (ls, concat ps, Client_left)"
proof (induction ps arbitrary: ls)
  case Nil
  then show ?case by (cases ls) simp_all
next
  case (Cons p ps)
  then show ?case by (cases ls) simp_all
qed

lemma tcp_sync_sent:
  "bytes \<in> set (fst (tcp_sync_server rs)) \<Longrightarrow>
     \<exists>now k. (No_error, now, k) \<in> set rs \<and> bytes = take k (make_daytime_string now)"
  by (induction rs rule: tcp_sync_server.induct) (auto split: if_splits prod.splits)

interpretation sync_time: time_service clock "\<lambda>rs. \<forall>(ec, now, k) \<in> set rs. now \<in> clock"
    "\<lambda>rs. set (fst (tcp_sync_server rs))" for clock
  by unfold_locales (use tcp_sync_sent take_is_prefix in fastforce)

text \<open>
  The client shows what the synchronous server has sent it, in whatever pieces the
  stream delivers it, and leaves its loop at the end of the stream; what it shows is the
  beginning of the text of the time at which it was accepted.
\<close>

theorem tcp_client_shows_the_time:
  assumes "bytes \<in> set (fst (tcp_sync_server rs))" "concat pieces = bytes"
    and "length typed = Suc (length pieces)"
  shows "tcp_client_loop (zip typed (map (Pair No_error) pieces @ [(Eof, [])])) = (typed, bytes, Client_left)
    \<and> (\<exists>now k. (No_error, now, k) \<in> set rs \<and> bytes = take k (make_daytime_string now))"
  using tcp_client_reads [OF assms(3)] tcp_sync_sent [OF assms(1)] assms(2) by simp

theorem tcp_client_shows_the_time_witness:
  "tcp_client_loop [(''a'', No_error, make_daytime_string 0), (''b'', Eof, [])]
     = ([''a'', ''b''], make_daytime_string 0, Client_left)"
  using tcp_client_shows_the_time [of "make_daytime_string 0"
      "[(No_error, 0, length (make_daytime_string 0)), (Other_error, 0, 0)]"
      "[make_daytime_string 0]" "[''a'', ''b'']"] by simp

end
