(* ===== verification/Daytime_Udp.thy ===== *)
theory Daytime_Udp
  imports Daytime_String Asio
begin

text \<open>
  The daytime servers and clients on UDP: boost_udp/async_ds.cpp, boost_udp/sync_ds.cpp,
  boost_udp/sync_dc.cpp and boost_future/daytime_client.cpp. The asynchronous server is a state
  with its outstanding operations, run against a sequence of receive results; the synchronous
  one is a loop over the same results, with the lines it prints. An endpoint is a number.
\<close>

section \<open>The asynchronous server\<close>

type_synonym endpoint = nat

datatype udp_op = Udp_receive | Udp_send endpoint string

text \<open>\<open>udp_issued\<close> is the history of the sends that were started.\<close>

record udp_server =
  remote_endpoint :: endpoint
  recv_buffer :: string
  udp_ops :: "udp_op list"
  udp_issued :: "(endpoint \<times> string) list"

definition udp_begin :: "udp_op \<Rightarrow> udp_server \<Rightarrow> udp_server" where
  "udp_begin p s = s\<lparr>udp_ops := udp_ops s @ [p]\<rparr>"

definition udp_finish :: "udp_op \<Rightarrow> udp_server \<Rightarrow> udp_server" where
  "udp_finish p s = s\<lparr>udp_ops := remove1 p (udp_ops s)\<rparr>"

text \<open>\<open>async_send_to\<close> copies the endpoint; the handler holds the text.\<close>

definition udp_async_send :: "endpoint \<Rightarrow> string \<Rightarrow> udp_server \<Rightarrow> udp_server" where
  "udp_async_send ep msg s = udp_begin (Udp_send ep msg) (s\<lparr>udp_issued := udp_issued s @ [(ep, msg)]\<rparr>)"

definition start_receive :: "udp_server \<Rightarrow> udp_server" where
  "start_receive s = udp_begin Udp_receive s"

definition handle_receive :: "nat \<Rightarrow> error_code \<Rightarrow> udp_server \<Rightarrow> udp_server" where
  "handle_receive now ec s =
     (if ec = No_error \<or> ec = Message_size
      then start_receive (udp_async_send (remote_endpoint s) (make_daytime_string now) s)
      else s)"

definition handle_send :: "udp_server \<Rightarrow> udp_server" where
  "handle_send s = s"

text \<open>The members hold some endpoint and byte before the first datagram.\<close>

definition new_udp_server :: "endpoint \<Rightarrow> string \<Rightarrow> udp_server" where
  "new_udp_server ep buf =
     start_receive \<lparr>remote_endpoint = ep, recv_buffer = buf, udp_ops = [], udp_issued = []\<rparr>"

text \<open>
  What asio does before it calls the handler of a receive: a datagram sets the endpoint and as
  much of the buffer as there is, and the error of a datagram that does not fit is
  \<open>message_size\<close>.
\<close>

type_synonym datagram = "error_code \<times> endpoint \<times> string \<times> nat"

definition datagram_error :: "nat \<Rightarrow> string \<Rightarrow> error_code" where
  "datagram_error room bytes = (if length bytes \<le> room then No_error else Message_size)"

definition udp_filled :: "endpoint \<Rightarrow> string \<Rightarrow> udp_server \<Rightarrow> udp_server" where
  "udp_filled ep bytes s =
     s\<lparr>remote_endpoint := ep, recv_buffer := take 1 bytes @ drop (length (take 1 bytes)) (recv_buffer s)\<rparr>"

definition datagram_ok :: "nat set \<Rightarrow> datagram \<Rightarrow> bool" where
  "datagram_ok clock r = (case r of (ec, ep, bytes, now) \<Rightarrow>
     now \<in> clock \<and> (ec = No_error \<or> ec = Message_size \<longrightarrow> ec = datagram_error 1 bytes))"

inductive udp_run :: "nat set \<Rightarrow> datagram list \<Rightarrow> udp_server \<Rightarrow> bool" for clock where
  udp_init: "udp_run clock [] (new_udp_server ep buf)"
| udp_received: "udp_run clock rs s \<Longrightarrow> Udp_receive \<in> set (udp_ops s) \<Longrightarrow>
     datagram_ok clock (ec, ep, bytes, now) \<Longrightarrow>
     udp_run clock (rs @ [(ec, ep, bytes, now)])
       (handle_receive now ec (udp_filled ep bytes (udp_finish Udp_receive s)))"
| udp_sent: "udp_run clock rs s \<Longrightarrow> Udp_send ep msg \<in> set (udp_ops s) \<Longrightarrow>
     udp_run clock rs (handle_send (udp_finish (Udp_send ep msg) s))"

section \<open>The synchronous server\<close>

text \<open>
  The loop, on the results of its receives. The buffer of one byte is declared in the loop and not
  initialised, and its byte is read into a string before the error is looked at. A receive that
  fails or brings an empty datagram has left it as it was: \<open>junk\<close> says for each round what the
  byte then holds, and is \<open>None\<close> where reading it is undefined, as C++ has it in every round.
\<close>

definition received_byte :: "char option \<Rightarrow> error_code \<Rightarrow> string \<Rightarrow> char option" where
  "received_byte junk ec bytes =
     (if ec = No_error \<or> ec = Message_size
      then (case bytes of [] \<Rightarrow> junk | c # _ \<Rightarrow> Some c) else junk)"

text \<open>
  The datagram ``A'' only prints a line. An error other than \<open>message_size\<close> is thrown and ends the
  program; the error of the send is ignored. The result is what is sent, in order, the lines that
  are printed, and whether the server still runs, or \<open>None\<close> for undefined behaviour.
\<close>

fun udp_sync_server ::
    "(nat \<Rightarrow> char option) \<Rightarrow> nat \<Rightarrow> datagram list
     \<Rightarrow> ((endpoint \<times> string) list \<times> string list \<times> bool) option" where
  "udp_sync_server junk i [] = Some ([], [''Wait for receive_from''], True)"
| "udp_sync_server junk i ((ec, ep, bytes, now) # rs) =
     (case received_byte (junk i) ec bytes of
        None \<Rightarrow> None
      | Some c \<Rightarrow>
          let str = [c];
              lines = [''Wait for receive_from'', ''Receive from remote_endpoint '']
                @ (if str = ''A'' then [''Termination Code ''] else [])
          in if ec \<noteq> No_error \<and> ec \<noteq> Message_size then Some ([], lines, False)
             else (case udp_sync_server junk (Suc i) rs of
                 None \<Rightarrow> None
               | Some (sent, printed, runs) \<Rightarrow>
                   Some ((ep, make_daytime_string now) # sent,
                     lines @ [''Wait for send_to'', ''Send complete''] @ printed, runs)))"

section \<open>The clients\<close>

text \<open>
  The synchronous client sends the first character of its second argument, a C string; the one
  with futures sends a zero byte. Both receive into a buffer of 128 characters and print what
  came; a receive that fails throws (\<open>None\<close>).
\<close>

definition udp_client_request :: "string \<Rightarrow> string" where
  "udp_client_request arg = take 1 (arg @ [NUL])"

definition udp_client_shown :: "error_code \<Rightarrow> string \<Rightarrow> string option" where
  "udp_client_shown ec bytes = (if ec = No_error then Some (take 128 bytes) else None)"

definition future_client_request :: string where
  "future_client_request = [NUL]"

definition future_client_shown :: "error_code \<Rightarrow> string \<Rightarrow> string option" where
  "future_client_shown ec bytes = (if ec = No_error then Some (take 128 bytes) else None)"

section \<open>Lemmas\<close>

lemma udp_begin_simps [simp]:
  "udp_ops (udp_begin p s) = udp_ops s @ [p]"
  "udp_issued (udp_begin p s) = udp_issued s"
  "remote_endpoint (udp_begin p s) = remote_endpoint s"
  by (simp_all add: udp_begin_def)

lemma udp_finish_simps [simp]:
  "udp_ops (udp_finish p s) = remove1 p (udp_ops s)"
  "udp_issued (udp_finish p s) = udp_issued s"
  "remote_endpoint (udp_finish p s) = remote_endpoint s"
  by (simp_all add: udp_finish_def)

lemma udp_filled_simps [simp]:
  "udp_ops (udp_filled ep bytes s) = udp_ops s"
  "udp_issued (udp_filled ep bytes s) = udp_issued s"
  "remote_endpoint (udp_filled ep bytes s) = ep"
  by (simp_all add: udp_filled_def)

lemma udp_async_send_simps [simp]:
  "udp_ops (udp_async_send ep msg s) = udp_ops s @ [Udp_send ep msg]"
  "udp_issued (udp_async_send ep msg s) = udp_issued s @ [(ep, msg)]"
  by (simp_all add: udp_async_send_def)

lemma handle_receive_simps [simp]:
  "ec = No_error \<or> ec = Message_size \<Longrightarrow> udp_ops (handle_receive now ec s) =
     udp_ops s @ [Udp_send (remote_endpoint s) (make_daytime_string now), Udp_receive]"
  "ec = No_error \<or> ec = Message_size \<Longrightarrow> udp_issued (handle_receive now ec s) =
     udp_issued s @ [(remote_endpoint s, make_daytime_string now)]"
  "ec \<noteq> No_error \<Longrightarrow> ec \<noteq> Message_size \<Longrightarrow> handle_receive now ec s = s"
  by (auto simp: handle_receive_def start_receive_def)

text \<open>What both servers do of a list of receive results: they answer up to the first that fails.\<close>

definition usable :: "datagram \<Rightarrow> bool" where
  "usable r \<longleftrightarrow> fst r = No_error \<or> fst r = Message_size"

definition answers :: "datagram list \<Rightarrow> (endpoint \<times> string) list" where
  "answers rs = map (\<lambda>(ec, ep, bytes, now). (ep, make_daytime_string now)) (takeWhile usable rs)"

definition buffer_byte :: "(nat \<Rightarrow> char option) \<Rightarrow> datagram list \<Rightarrow> nat \<Rightarrow> char option" where
  "buffer_byte junk rs i = (case rs ! i of (ec, ep, bytes, now) \<Rightarrow> received_byte (junk i) ec bytes)"

lemma answers_simps [simp]:
  "answers [] = []"
  "answers ((ec, ep, bytes, now) # rs) =
     (if ec = No_error \<or> ec = Message_size then (ep, make_daytime_string now) # answers rs else [])"
  by (simp_all add: answers_def usable_def)

lemma answers_snoc:
  "list_all usable rs \<Longrightarrow> answers (rs @ [(ec, ep, bytes, now)]) =
     (if ec = No_error \<or> ec = Message_size
      then answers rs @ [(ep, make_daytime_string now)] else answers rs)"
  by (induction rs) (auto simp: answers_def usable_def)

lemma udp_sync_answers:
  "udp_sync_server junk i rs = Some (sent, printed, runs) \<Longrightarrow>
     sent = answers rs \<and> (runs \<longleftrightarrow> list_all usable rs)"
  by (induction junk i rs arbitrary: sent printed runs rule: udp_sync_server.induct)
     (auto simp: Let_def usable_def split: option.splits if_splits)

lemma buffer_byte_Cons:
  "buffer_byte junk (r # rs) (Suc i) = buffer_byte (\<lambda>j. junk (Suc j)) rs i"
  "buffer_byte junk ((ec, ep, bytes, now) # rs) 0 = received_byte (junk 0) ec bytes"
  by (simp_all add: buffer_byte_def)

lemma udp_sync_None:
  "list_all usable (butlast rs) \<Longrightarrow>
     udp_sync_server junk i rs = None \<longleftrightarrow> (\<exists>j<length rs. buffer_byte (\<lambda>j. junk (i + j)) rs j = None)"
proof (induction rs arbitrary: i)
  case (Cons r rs)
  obtain ec ep bytes now where r: "r = (ec, ep, bytes, now)" by (cases r) auto
  have more: "rs \<noteq> [] \<Longrightarrow> usable r \<and> list_all usable (butlast rs)"
    using Cons.prems by simp
  have "(\<exists>j<length (r # rs). buffer_byte (\<lambda>j. junk (i + j)) (r # rs) j = None) \<longleftrightarrow>
      received_byte (junk i) ec bytes = None
      \<or> (\<exists>j<length rs. buffer_byte (\<lambda>j. junk (Suc i + j)) rs j = None)"
    unfolding Ex_less_Suc2 length_Cons by (simp add: buffer_byte_Cons r)
  moreover have "udp_sync_server junk i (r # rs) = None \<longleftrightarrow>
      received_byte (junk i) ec bytes = None
      \<or> usable r \<and> udp_sync_server junk (Suc i) rs = None"
    by (auto simp: r usable_def Let_def split: option.split)
  moreover have "udp_sync_server junk (Suc i) rs = None \<longleftrightarrow>
      (\<exists>j<length rs. buffer_byte (\<lambda>j. junk (Suc i + j)) rs j = None)"
    using Cons.IH [of "Suc i"] more by (cases "rs = []") auto
  ultimately show ?case using more by (cases "rs = []") auto
qed simp

lemma udp_sync_printed:
  "list_all usable (butlast rs) \<Longrightarrow> udp_sync_server junk i rs = Some (sent, printed, runs) \<Longrightarrow>
     ''Termination Code '' \<in> set printed \<longleftrightarrow>
       (\<exists>j<length rs. buffer_byte (\<lambda>j. junk (i + j)) rs j = Some CHR ''A'')"
proof (induction rs arbitrary: i sent printed runs)
  case (Cons r rs)
  obtain ec ep bytes now where r: "r = (ec, ep, bytes, now)" by (cases r) auto
  obtain c where c: "received_byte (junk i) ec bytes = Some c"
    using Cons.prems(2) by (auto simp: r split: option.splits)
  have first: "(\<exists>j<length (r # rs). buffer_byte (\<lambda>j. junk (i + j)) (r # rs) j = Some CHR ''A'') \<longleftrightarrow>
      c = CHR ''A'' \<or> (\<exists>j<length rs. buffer_byte (\<lambda>j. junk (Suc i + j)) rs j = Some CHR ''A'')"
    unfolding Ex_less_Suc2 length_Cons by (simp add: buffer_byte_Cons r c)
  show ?case
  proof (cases "usable r")
    case False
    with Cons.prems(1) have "rs = []" by (simp split: if_splits)
    with False Cons.prems(2) c show ?thesis
      unfolding first by (auto simp: r usable_def Let_def split: if_splits)
  next
    case True
    then obtain sent' printed' where
      rest: "udp_sync_server junk (Suc i) rs = Some (sent', printed', runs)"
      and printed: "''Termination Code '' \<in> set printed \<longleftrightarrow>
        c = CHR ''A'' \<or> ''Termination Code '' \<in> set printed'"
      using Cons.prems(2) c by (auto simp: r usable_def Let_def split: option.splits if_splits)
    have "list_all usable (butlast rs)"
      using Cons.prems(1) by (cases "rs = []") auto
    from Cons.IH [OF this rest] printed show ?thesis unfolding first by simp
  qed
qed simp

definition udp_ok :: "datagram list \<Rightarrow> udp_server \<Rightarrow> bool" where
  "udp_ok rs s \<longleftrightarrow> udp_issued s = answers rs \<and> list_all usable (butlast rs)
     \<and> count_list (udp_ops s) Udp_receive = (if list_all usable rs then 1 else 0)
     \<and> (\<forall>ep msg. Udp_send ep msg \<in> set (udp_ops s) \<longrightarrow> (ep, msg) \<in> set (udp_issued s))"

lemma udp_run_ok: "udp_run clock rs s \<Longrightarrow> udp_ok rs s"
proof (induction rule: udp_run.induct)
  case (udp_init ep buf)
  then show ?case by (simp add: udp_ok_def new_udp_server_def start_receive_def)
next
  case (udp_received rs s ec ep bytes now)
  then have runs: "list_all usable rs"
    using count_list_pos [of Udp_receive "udp_ops s"] by (auto simp: udp_ok_def split: if_splits)
  then show ?case
    using udp_received.IH
    by (cases "ec = No_error \<or> ec = Message_size")
       (auto simp: udp_ok_def answers_snoc usable_def dest: in_remove1D)
next
  case (udp_sent rs s ep msg)
  then show ?case by (auto simp: udp_ok_def handle_send_def dest: in_remove1D)
qed

lemma udp_issued_times:
  "udp_run clock rs s \<Longrightarrow> (ep, msg) \<in> set (udp_issued s) \<Longrightarrow> \<exists>now \<in> clock. msg = make_daytime_string now"
proof (induction arbitrary: ep msg rule: udp_run.induct)
  case (udp_init ep' buf)
  then show ?case by (simp add: new_udp_server_def start_receive_def)
next
  case (udp_received rs s ec ep' bytes now)
  then show ?case
    by (cases "ec = No_error \<or> ec = Message_size") (auto simp: datagram_ok_def)
next
  case (udp_sent rs s ep' msg')
  then show ?case by (simp add: handle_send_def)
qed

interpretation udp_time: time_service clock "\<lambda>s. \<exists>rs. udp_run clock rs s"
    "\<lambda>s. snd ` set (udp_issued s)" for clock
  by unfold_locales (use udp_issued_times in fastforce)

section \<open>Properties\<close>

text \<open>
  Property C15. The asynchronous and the synchronous daytime server are equivalent, as far as the
  latter is defined: on the same receive results they send the same texts to the same endpoints in
  the same order, however the completions of the sends are interleaved, and one waits for a datagram
  exactly when the other does. The synchronous one is undefined exactly when some receive, the last
  one that fails included, has left its buffer as it was and what that held cannot be read. The
  datagram ``A'' that is to end it prints its line, and both servers go on.
\<close>

theorem udp_servers_agree:
  assumes "udp_run clock rs s"
  shows "(case udp_sync_server junk 0 rs of
      None \<Rightarrow> \<exists>i<length rs. buffer_byte junk rs i = None
    | Some (sent, printed, runs) \<Rightarrow> (\<forall>i<length rs. buffer_byte junk rs i \<noteq> None)
        \<and> udp_issued s = sent \<and> (Udp_receive \<in> set (udp_ops s) \<longleftrightarrow> runs)
        \<and> (''Termination Code '' \<in> set printed \<longleftrightarrow>
             (\<exists>i<length rs. buffer_byte junk rs i = Some CHR ''A'')))
    \<and> count_list (udp_ops s) Udp_receive \<le> 1"
proof -
  have ok: "udp_ok rs s" by (rule udp_run_ok [OF assms])
  then have earlier: "list_all usable (butlast rs)" by (simp add: udp_ok_def)
  have waits: "Udp_receive \<in> set (udp_ops s) \<longleftrightarrow> list_all usable rs"
    and one: "count_list (udp_ops s) Udp_receive \<le> 1"
    using ok count_list_pos [of Udp_receive "udp_ops s"] by (auto simp: udp_ok_def split: if_splits)
  show ?thesis
  proof (cases "udp_sync_server junk 0 rs")
    case None
    with udp_sync_None [OF earlier, of junk 0] one show ?thesis by simp
  next
    case (Some p)
    then obtain sent printed runs where sync: "udp_sync_server junk 0 rs = Some (sent, printed, runs)"
      by (cases p) auto
    have "\<forall>i<length rs. buffer_byte junk rs i \<noteq> None"
      using udp_sync_None [OF earlier, of junk 0] sync by (simp del: not_None_eq)
    with udp_sync_answers [OF sync] udp_sync_printed [OF earlier sync] ok waits one sync
    show ?thesis by (simp add: udp_ok_def)
  qed
qed

definition example_datagrams :: "datagram list" where
  "example_datagrams = [(No_error, 7, ''x'', 0), (Message_size, 8, ''long'', 60), (Other_error, 0, [], 90)]"

theorem udp_servers_agree_witness:
  "\<exists>s. udp_run {0, 60, 90} example_datagrams s
     \<and> udp_issued s = [(7, make_daytime_string 0), (8, make_daytime_string 60)]
     \<and> Udp_receive \<notin> set (udp_ops s)
     \<and> udp_sync_server (\<lambda>_. None) 0 example_datagrams = None"
proof -
  let ?clock = "{0, 60, 90} :: nat set"
  let ?f = "\<lambda>ep bytes s. udp_filled ep bytes (udp_finish Udp_receive s)"
  let ?s = "handle_receive 0 No_error (?f 7 ''x'' (new_udp_server 0 ''?''))"
  let ?t = "handle_receive 60 Message_size (?f 8 ''long'' ?s)"
  let ?u = "handle_receive 90 Other_error (?f 0 [] ?t)"
  have "udp_run ?clock ([] @ [(No_error, 7, ''x'', 0)]) ?s"
    by (rule udp_received [OF udp_init])
       (simp_all add: new_udp_server_def start_receive_def datagram_ok_def datagram_error_def)
  then have "udp_run ?clock (([] @ [(No_error, 7, ''x'', 0)]) @ [(Message_size, 8, ''long'', 60)]) ?t"
    by (rule udp_received) (simp_all add: datagram_ok_def datagram_error_def)
  then have "udp_run ?clock ((([] @ [(No_error, 7, ''x'', 0)]) @ [(Message_size, 8, ''long'', 60)])
      @ [(Other_error, 0, [], 90)]) ?u"
    by (rule udp_received) (simp_all add: datagram_ok_def datagram_error_def)
  then have u: "udp_run ?clock example_datagrams ?u" by (simp add: example_datagrams_def)
  have sync: "udp_sync_server (\<lambda>_. Some CHR ''A'') 0 example_datagrams =
      Some ([(7, make_daytime_string 0), (8, make_daytime_string 60)],
        [''Wait for receive_from'', ''Receive from remote_endpoint '', ''Wait for send_to'',
         ''Send complete'', ''Wait for receive_from'', ''Receive from remote_endpoint '',
         ''Wait for send_to'', ''Send complete'', ''Wait for receive_from'',
         ''Receive from remote_endpoint '', ''Termination Code ''], False)"
    by (simp add: example_datagrams_def received_byte_def)
  have strict: "udp_sync_server (\<lambda>_. None) 0 example_datagrams = None"
    by (simp add: example_datagrams_def received_byte_def)
  from udp_servers_agree [OF u, of "\<lambda>_. Some CHR ''A''"] u sync strict show ?thesis by auto
qed

text \<open>
  A client gets the time: the request of either client is a datagram the waiting
  server takes without an error, the server sends the text of its clock to the client's
  endpoint and waits again, and what the client then prints is the whole text, from which the
  time can be read.
\<close>

theorem udp_client_gets_the_time:
  assumes "udp_run clock rs s" "Udp_receive \<in> set (udp_ops s)" "now \<in> clock"
    and "tm_year (localtime now) < 10000"
    and "request \<in> {udp_client_request arg, future_client_request}"
  shows "\<exists>t reply. udp_run clock (rs @ [(No_error, ep, request, now)]) t
    \<and> Udp_send ep reply \<in> set (udp_ops t) \<and> Udp_receive \<in> set (udp_ops t)
    \<and> udp_client_shown (datagram_error 128 reply) reply = Some (make_daytime_string now)
    \<and> future_client_shown (datagram_error 128 reply) reply = Some (make_daytime_string now)
    \<and> read_daytime reply = now"
proof -
  have "length request \<le> 1"
    using assms(5) by (auto simp: udp_client_request_def future_client_request_def)
  then have "datagram_ok clock (No_error, ep, request, now)"
    using assms(3) by (simp add: datagram_ok_def datagram_error_def)
  from udp_received [OF assms(1,2) this]
  have "udp_run clock (rs @ [(No_error, ep, request, now)])
      (handle_receive now No_error (udp_filled ep request (udp_finish Udp_receive s)))" .
  then show ?thesis
    using assms(4)
    by (intro exI [of _ "make_daytime_string now"] exI conjI)
       (assumption, simp_all add: udp_client_shown_def future_client_shown_def datagram_error_def
          daytime_length read_daytime_inverse)
qed

theorem udp_client_gets_the_time_witness:
  "\<exists>t reply. udp_run {0} [(No_error, 9, ''T'', 0)] t
    \<and> Udp_send 9 reply \<in> set (udp_ops t) \<and> read_daytime reply = 0"
proof -
  have "tm_year (localtime 0) < 10000" by (rule year_of_zero)
  moreover have "Udp_receive \<in> set (udp_ops (new_udp_server 0 ''?''))"
    by (simp add: new_udp_server_def start_receive_def)
  ultimately obtain t reply where "udp_run {0} ([] @ [(No_error, 9, ''T'', 0)]) t"
    "Udp_send 9 reply \<in> set (udp_ops t)" "read_daytime reply = 0"
    using udp_client_gets_the_time [OF udp_init, of 0 "''?''" 0 "{0}" "''T''" "''Time''" 9]
    by (auto simp: udp_client_request_def)
  then show ?thesis by auto
qed

end
