(* ===== verification/Daytime_Comb.thy ===== *)
theory Daytime_Comb
  imports Daytime_Tcp Daytime_Udp
begin

text \<open>
  The program that serves the time on TCP and UDP from one \<open>io_service\<close>
  (boost_comb/async_ds.cpp). It has the classes of the two asynchronous programs, without what
  they print; every operation here works on its own part of the state. What is shown is that the
  two servers do not disturb each other.
\<close>

section \<open>The program\<close>

record comb_server =
  comb_tcp :: tcp_server
  comb_udp :: udp_server

definition on_tcp :: "(tcp_server \<Rightarrow> tcp_server option) \<Rightarrow> comb_server \<Rightarrow> comb_server option" where
  "on_tcp f s = map_option (\<lambda>t. s\<lparr>comb_tcp := t\<rparr>) (f (comb_tcp s))"

definition on_udp :: "(udp_server \<Rightarrow> udp_server) \<Rightarrow> comb_server \<Rightarrow> comb_server" where
  "on_udp f s = s\<lparr>comb_udp := f (comb_udp s)\<rparr>"

definition comb_start :: "nat \<Rightarrow> address \<Rightarrow> comb_server \<Rightarrow> comb_server option" where
  "comb_start now a s =
     on_tcp (\<lambda>t. case tcp_objects t a of
         None \<Rightarrow> None
       | Some c \<Rightarrow> Some (tcp_begin (Tcp_write a)
           (tcp_set a (c\<lparr>tc_message := make_daytime_string now\<rparr>) t))) s"

definition comb_new_connection :: tcp_connection where
  "comb_new_connection = \<lparr>tc_message = [], tc_sent = [], tc_result = None\<rparr>"

lemma comb_new_connection_eq [simp]: "comb_new_connection = new_tcp_connection"
  by (simp add: comb_new_connection_def new_tcp_connection_def)

definition comb_handle_write :: "comb_server \<Rightarrow> comb_server" where
  "comb_handle_write s = s"

definition comb_start_accept :: "address \<Rightarrow> comb_server \<Rightarrow> comb_server" where
  "comb_start_accept a s =
     s\<lparr>comb_tcp := tcp_begin (Tcp_accept a) (tcp_set a comb_new_connection (comb_tcp s))\<rparr>"

definition comb_handle_accept ::
    "nat \<Rightarrow> address \<Rightarrow> error_code \<Rightarrow> address \<Rightarrow> comb_server \<Rightarrow> comb_server option" where
  "comb_handle_accept now a ec b s =
     map_option (comb_start_accept b) (if ec = No_error then comb_start now a s else Some s)"

definition comb_start_receive :: "comb_server \<Rightarrow> comb_server" where
  "comb_start_receive s = on_udp (udp_begin Udp_receive) s"

definition comb_handle_receive :: "nat \<Rightarrow> error_code \<Rightarrow> comb_server \<Rightarrow> comb_server" where
  "comb_handle_receive now ec s =
     (if ec = No_error \<or> ec = Message_size
      then comb_start_receive
        (on_udp (\<lambda>u. udp_async_send (remote_endpoint u) (make_daytime_string now) u) s)
      else s)"

definition comb_handle_send :: "comb_server \<Rightarrow> comb_server" where
  "comb_handle_send s = s"

text \<open>The constructors start the first accept and the first receive.\<close>

definition comb_tcp_server :: "address \<Rightarrow> comb_server \<Rightarrow> comb_server" where
  "comb_tcp_server a s =
     comb_start_accept a (s\<lparr>comb_tcp := \<lparr>tcp_ops = [], tcp_objects = (\<lambda>_. None), tcp_gone = []\<rparr>\<rparr>)"

definition comb_udp_server :: "comb_server \<Rightarrow> comb_server" where
  "comb_udp_server s = comb_start_receive s"

text \<open>Before the constructors run, the memory of the second server holds some endpoint and buffer.\<close>

definition new_comb_server :: "address \<Rightarrow> endpoint \<Rightarrow> string \<Rightarrow> comb_server" where
  "new_comb_server a ep buf =
     comb_udp_server (comb_tcp_server a
       \<lparr>comb_tcp = \<lparr>tcp_ops = [], tcp_objects = (\<lambda>_. None), tcp_gone = []\<rparr>,
        comb_udp = \<lparr>remote_endpoint = ep, recv_buffer = buf, udp_ops = [], udp_issued = []\<rparr>\<rparr>)"

text \<open>The steps: asio completes an operation of either server. The receives are kept in order.\<close>

inductive comb_run :: "nat set \<Rightarrow> datagram list \<Rightarrow> comb_server \<Rightarrow> bool" for clock where
  comb_init: "comb_run clock [] (new_comb_server a ep buf)"
| comb_accepted: "comb_run clock rs s \<Longrightarrow> Tcp_accept a \<in> set (tcp_ops (comb_tcp s)) \<Longrightarrow> now \<in> clock \<Longrightarrow>
     tcp_objects (comb_tcp s) b = None \<Longrightarrow>
     comb_handle_accept now a ec b (s\<lparr>comb_tcp := tcp_finish (Tcp_accept a) (comb_tcp s)\<rparr>) = Some t \<Longrightarrow>
     comb_run clock rs t"
| comb_written: "comb_run clock rs s \<Longrightarrow> Tcp_write a \<in> set (tcp_ops (comb_tcp s)) \<Longrightarrow>
     tcp_objects (comb_tcp s) a = Some c \<Longrightarrow> k \<le> length (tc_message c) \<Longrightarrow>
     (ec = No_error \<longrightarrow> k = length (tc_message c)) \<Longrightarrow>
     comb_run clock rs
       (comb_handle_write (s\<lparr>comb_tcp := tcp_written_state a ec k c (comb_tcp s)\<rparr>))"
| comb_released: "comb_run clock rs s \<Longrightarrow> tcp_objects (comb_tcp s) a = Some c \<Longrightarrow>
     \<not> tcp_referenced a (comb_tcp s) \<Longrightarrow>
     comb_run clock rs (s\<lparr>comb_tcp := (comb_tcp s)
       \<lparr>tcp_objects := (tcp_objects (comb_tcp s))(a := None), tcp_gone := tcp_gone (comb_tcp s) @ [c]\<rparr>\<rparr>)"
| comb_received: "comb_run clock rs s \<Longrightarrow> Udp_receive \<in> set (udp_ops (comb_udp s)) \<Longrightarrow>
     datagram_ok clock (ec, ep, bytes, now) \<Longrightarrow>
     comb_run clock (rs @ [(ec, ep, bytes, now)])
       (comb_handle_receive now ec
          (s\<lparr>comb_udp := udp_filled ep bytes (udp_finish Udp_receive (comb_udp s))\<rparr>))"
| comb_sent: "comb_run clock rs s \<Longrightarrow> Udp_send ep msg \<in> set (udp_ops (comb_udp s)) \<Longrightarrow>
     comb_run clock rs
       (comb_handle_send (s\<lparr>comb_udp := udp_finish (Udp_send ep msg) (comb_udp s)\<rparr>))"

section \<open>The parts\<close>

lemma comb_handle_accept_parts:
  "comb_handle_accept now a ec b s =
     map_option (\<lambda>t. s\<lparr>comb_tcp := t\<rparr>) (handle_accept now a ec b (comb_tcp s))"
  by (auto simp: comb_handle_accept_def comb_start_def comb_start_accept_def on_tcp_def
      handle_accept_def tcp_start_def start_accept_def split: option.split)

lemma comb_handle_receive_parts:
  "comb_handle_receive now ec s = s\<lparr>comb_udp := handle_receive now ec (comb_udp s)\<rparr>"
  by (simp add: comb_handle_receive_def comb_start_receive_def on_udp_def handle_receive_def
      start_receive_def)

lemma new_comb_server_parts:
  "new_comb_server a ep buf = \<lparr>comb_tcp = new_tcp_server a, comb_udp = new_udp_server ep buf\<rparr>"
  by (simp add: new_comb_server_def comb_tcp_server_def comb_udp_server_def comb_start_receive_def comb_start_accept_def on_tcp_def
      on_udp_def new_tcp_server_def start_accept_def new_udp_server_def start_receive_def)

lemmas comb_parts = comb_handle_accept_parts comb_handle_receive_parts new_comb_server_parts
  comb_handle_write_def comb_handle_send_def handle_write_def handle_send_def

lemma comb_run_parts: "comb_run clock rs s \<Longrightarrow> tcp_reachable clock (comb_tcp s) \<and> udp_run clock rs (comb_udp s)"
proof (induction rule: comb_run.induct)
  case (comb_init a ep buf)
  then show ?case by (simp add: comb_parts tcp_init udp_init)
next
  case (comb_accepted rs s a now b ec t)
  then obtain u where "handle_accept now a ec b (tcp_finish (Tcp_accept a) (comb_tcp s)) = Some u"
    "t = s\<lparr>comb_tcp := u\<rparr>"
    by (auto simp: comb_parts)
  with comb_accepted show ?case
    using tcp_next [OF _ tcp_accepted [of a "comb_tcp s" now clock b ec u]] by simp
next
  case (comb_written rs s a c k ec)
  then show ?case
    using tcp_next [OF _ tcp_written [of a "comb_tcp s" c k ec clock]] by (simp add: comb_parts)
next
  case (comb_released rs s a c)
  then show ?case using tcp_next [OF _ tcp_released [of "comb_tcp s" a c clock]] by simp
next
  case (comb_received rs s ec ep bytes now)
  then show ?case using udp_received [of clock rs "comb_udp s" ec ep bytes now] by (simp add: comb_parts)
next
  case (comb_sent rs s ep msg)
  then show ?case using udp_sent [of clock rs "comb_udp s" ep msg] by (simp add: comb_parts)
qed

text \<open>Any run of the one server goes on beside whatever the other has done.\<close>

lemma comb_run_tcp_step:
  assumes "tcp_step clock (comb_tcp s) t" "comb_run clock rs s"
  shows "comb_run clock rs (s\<lparr>comb_tcp := t\<rparr>)"
  using assms
proof (cases rule: tcp_step.cases)
  case (tcp_accepted a now b ec)
  then show ?thesis
    using comb_accepted [OF assms(2), of a now b ec] by (simp add: comb_parts)
next
  case (tcp_written a c k ec)
  then show ?thesis
    using comb_written [OF assms(2), of a c k ec] by (simp add: comb_parts)
next
  case (tcp_released a c)
  then show ?thesis
    using comb_released [OF assms(2), of a c] by simp
qed

lemma comb_run_tcp:
  "tcp_reachable clock t \<Longrightarrow>
     \<exists>s. comb_run clock [] s \<and> comb_tcp s = t \<and> comb_udp s = new_udp_server ep buf"
proof (induction rule: tcp_reachable.induct)
  case (tcp_init a)
  have "comb_run clock [] (new_comb_server a ep buf)" by (rule comb_init)
  then show ?case by (intro exI conjI) (assumption, simp_all add: comb_parts)
next
  case (tcp_next t u)
  then obtain s where s: "comb_run clock [] s" "comb_tcp s = t" "comb_udp s = new_udp_server ep buf"
    by auto
  then have "comb_run clock [] (s\<lparr>comb_tcp := u\<rparr>)" using comb_run_tcp_step tcp_next.hyps(2) by simp
  then show ?case using s(3) by (intro exI conjI) (assumption, simp_all)
qed

lemma comb_run_both:
  assumes "udp_run clock rs u" "tcp_reachable clock t"
  shows "comb_run clock rs \<lparr>comb_tcp = t, comb_udp = u\<rparr>"
  using assms(1)
proof (induction rule: udp_run.induct)
  case (udp_init ep buf)
  obtain s where "comb_run clock [] s" "comb_tcp s = t" "comb_udp s = new_udp_server ep buf"
    using comb_run_tcp [OF assms(2), of ep buf] by auto
  moreover then have "s = \<lparr>comb_tcp = t, comb_udp = new_udp_server ep buf\<rparr>" by simp
  ultimately show ?case by simp
next
  case (udp_received rs u ec ep bytes now)
  then show ?case using comb_received [OF udp_received.IH] by (simp add: comb_parts)
next
  case (udp_sent rs u ep msg)
  then show ?case using comb_sent [OF udp_sent.IH] by (simp add: comb_parts)
qed

section \<open>Property\<close>

text \<open>
  Property C36. The combined server is the two servers side by side: its runs are exactly the
  pairs of a run of the TCP server and a run of the UDP server, so neither can hold up or change
  the other, and all that is shown of each holds here.
\<close>

theorem combined_servers_independent:
  "comb_run clock rs s \<longleftrightarrow> tcp_reachable clock (comb_tcp s) \<and> udp_run clock rs (comb_udp s)"
  using comb_run_parts [of clock rs s] comb_run_both [of clock rs "comb_udp s" "comb_tcp s"]
  by (cases s rule: comb_server.cases) auto

end
