(* ===== verification/Program_Starts.thy ===== *)
theory Program_Starts
  imports Chat_Main Echo_Server Shared_Buffer Http_Server Action_Server Daytime_Comb
begin

text \<open>
  The \<open>main\<close> functions of the servers: how they read their arguments, what they do when the
  server cannot be set up, and the status they leave. The network is the parameter \<open>bindable\<close>,
  which says what addresses can be bound; binding another throws. For the two HTTP servers the
  resolver is a parameter, too.
\<close>

section \<open>Addresses and numbers\<close>

datatype endpoint_address = Tcp_v4 nat | Udp_v4 nat

text \<open>\<open>std::stoi\<close> throws where \<open>std::atoi\<close> has no number or one that is no \<open>int\<close>.\<close>

datatype stoi_error = Invalid_argument | Out_of_range

definition numeral_digits :: "string \<Rightarrow> string" where
  "numeral_digits s =
     (case dropWhile is_space s of
        [] \<Rightarrow> []
      | c # t \<Rightarrow> takeWhile is_dec (if c = CHR ''-'' \<or> c = CHR ''+'' then t else c # t))"

definition stoi :: "string \<Rightarrow> stoi_error + int" where
  "stoi s =
     (if numeral_digits s = [] then Inl Invalid_argument
      else (case c_int (atoi s) of None \<Rightarrow> Inl Out_of_range | Some v \<Rightarrow> Inr v))"

section \<open>The programs\<close>

definition echo_main_03 ::
    "(endpoint_address \<Rightarrow> bool) \<Rightarrow> address \<Rightarrow> string list \<Rightarrow> (nat \<times> echo_server) main_run" where
  "echo_main_03 bindable a args =
     (if length args \<noteq> 1 then Main_usage
      else (case stoi (args ! 0) of
          Inl e \<Rightarrow> Main_caught
        | Inr v \<Rightarrow>
            let port = nat (v mod 65536)
            in if bindable (Tcp_v4 port) then Main_runs (port, new_echo_server a) else Main_caught))"

definition echo_main_11 ::
    "(endpoint_address \<Rightarrow> bool) \<Rightarrow> string list \<Rightarrow> (nat \<times> echo_server_11) main_run" where
  "echo_main_11 bindable args =
     (if length args \<noteq> 1 then Main_usage
      else (case port_of (args ! 0) of
          None \<Rightarrow> Main_undefined
        | Some port \<Rightarrow>
            if bindable (Tcp_v4 port) then Main_runs (port, new_server_11) else Main_caught))"

definition rc_main :: "(endpoint_address \<Rightarrow> bool) \<Rightarrow> string list \<Rightarrow> (nat \<times> rc_state) main_run" where
  "rc_main bindable args =
     (if length args \<noteq> 1 then Main_usage
      else (case port_of (args ! 0) of
          None \<Rightarrow> Main_undefined
        | Some port \<Rightarrow>
            if bindable (Tcp_v4 port) then Main_runs (port, new_rc_server) else Main_caught))"

text \<open>
  The HTTP server and the server of action take what the resolver makes of two arguments. The
  latter connects to its database before, when its handler is made.
\<close>

definition http_main ::
    "(string \<Rightarrow> string \<Rightarrow> 'e option) \<Rightarrow> ('e \<Rightarrow> bool) \<Rightarrow> string list \<Rightarrow> (string \<times> http_state) main_run" where
  "http_main resolve bindable args =
     (if length args \<noteq> 3 then Main_usage
      else (case resolve (args ! 0) (args ! 1) of
          None \<Rightarrow> Main_caught
        | Some enp \<Rightarrow> if bindable enp then Main_runs (args ! 2, new_server) else Main_caught))"

definition action_main ::
    "(string \<Rightarrow> string \<Rightarrow> string \<Rightarrow> db_error + 'd) \<Rightarrow> (string \<Rightarrow> string \<Rightarrow> 'e option) \<Rightarrow> ('e \<Rightarrow> bool)
     \<Rightarrow> string list \<Rightarrow> 'd action_state main_run" where
  "action_main connect resolve bindable args =
     (if length args \<noteq> 2 then Main_usage
      else (case new_request_handler connect of
          Inl e \<Rightarrow> Main_caught
        | Inr d \<Rightarrow>
            (case resolve (args ! 0) (args ! 1) of
               None \<Rightarrow> Main_caught
             | Some enp \<Rightarrow> if bindable enp then Main_runs (new_action_server d) else Main_caught)))"

text \<open>The daytime servers have no arguments; the one on TCP is made outside the \<open>try\<close>.\<close>

definition tcp_daytime_main :: "(endpoint_address \<Rightarrow> bool) \<Rightarrow> address \<Rightarrow> tcp_server main_run" where
  "tcp_daytime_main bindable a =
     (if bindable (Tcp_v4 13) then Main_runs (new_tcp_server a) else Main_terminated)"

definition udp_daytime_main ::
    "(endpoint_address \<Rightarrow> bool) \<Rightarrow> endpoint \<Rightarrow> string \<Rightarrow> udp_server main_run" where
  "udp_daytime_main bindable ep buf =
     (if bindable (Udp_v4 13) then Main_runs (new_udp_server ep buf) else Main_caught)"

definition comb_daytime_main ::
    "(endpoint_address \<Rightarrow> bool) \<Rightarrow> address \<Rightarrow> endpoint \<Rightarrow> string \<Rightarrow> comb_server main_run" where
  "comb_daytime_main bindable a ep buf =
     (if bindable (Tcp_v4 13)
      then if bindable (Udp_v4 13) then Main_runs (new_comb_server a ep buf) else Main_caught
      else Main_caught)"

text \<open>
  The synchronous servers, on the results of their blocking calls: what they have sent, and whether
  they still run. A call that throws is caught in \<open>main\<close>, like the binding. The one on UDP may be
  undefined.
\<close>

definition tcp_sync_main ::
    "(endpoint_address \<Rightarrow> bool) \<Rightarrow> (error_code \<times> nat \<times> nat) list \<Rightarrow> (string list \<times> bool) main_run" where
  "tcp_sync_main bindable calls =
     (if bindable (Tcp_v4 13) then Main_runs (tcp_sync_server calls) else Main_caught)"

definition udp_sync_main ::
    "(endpoint_address \<Rightarrow> bool) \<Rightarrow> (nat \<Rightarrow> char option) \<Rightarrow> datagram list
     \<Rightarrow> ((endpoint \<times> string) list \<times> string list \<times> bool) main_run" where
  "udp_sync_main bindable junk receives =
     (if bindable (Udp_v4 13)
      then (case udp_sync_server junk 0 receives of
          None \<Rightarrow> Main_undefined
        | Some run \<Rightarrow> Main_runs run)
      else Main_caught)"

lemmas main_defs = echo_main_03_def echo_main_11_def rc_main_def http_main_def action_main_def
  tcp_daytime_main_def udp_daytime_main_def comb_daytime_main_def

section \<open>Arguments\<close>

lemma no_digits_atoi:
  assumes "numeral_digits s = []"
  shows "atoi s = 0"
proof (cases "dropWhile is_space s")
  case (Cons c t)
  with assms show ?thesis by (auto simp: numeral_digits_def atoi_def simp del: takeWhile.simps split: if_splits)
qed (simp add: atoi_def del: dropWhile_eq_Nil_conv)

lemma stoi_port:
  "port_of s = (case stoi s of Inr v \<Rightarrow> Some (nat (v mod 65536))
     | Inl e \<Rightarrow> if e = Invalid_argument then Some 0 else None)"
proof (cases "numeral_digits s = []")
  case True
  then show ?thesis
    by (simp add: stoi_def port_of_def no_digits_atoi c_int_def int_min_def int_max_def)
next
  case False
  then show ?thesis by (simp add: stoi_def port_of_def split: option.split)
qed

text \<open>A number written out is read back by both.\<close>

lemma stoi_nat_to_string:
  assumes "int n \<le> int_max"
  shows "stoi (nat_to_string n) = Inr (int n)"
proof -
  have digits: "\<forall>c \<in> set (nat_to_string n). is_dec c" and ne: "nat_to_string n \<noteq> []"
    by (simp_all add: nat_to_string_digits nat_to_string_nonempty)
  then obtain c t where c: "nat_to_string n = c # t" "is_dec c" by (cases "nat_to_string n") auto
  have "numeral_digits (nat_to_string n) \<noteq> []"
    using c dropWhile_space_digits [OF digits] dec_not_special [OF c(2)]
    by (simp add: numeral_digits_def)
  moreover have "atoi (nat_to_string n) = int n"
    using atoi_digits [of "nat_to_string n" 0] digits ne by simp
  ultimately show ?thesis using assms by (simp add: stoi_def c_int_def int_min_def)
qed

section \<open>Properties\<close>

text \<open>
  How the servers start. The older echo server is set up exactly when its argument
  is a number, and then like the newer one; the newer one takes any other text for port 0, where
  the system chooses one, and is undefined for a number that is no \<open>int\<close>. Five programs end with
  status 1 on a wrong number of arguments and only then. If a server cannot be set up, every
  program ends with status 0 but the daytime server on TCP, which is terminated.
\<close>

theorem programs_start:
  "map_main_run fst (echo_main_03 bindable a [arg])
     = (case stoi arg of Inl e \<Rightarrow> Main_caught | Inr v \<Rightarrow> map_main_run fst (echo_main_11 bindable [arg]))
   \<and> map_main_run fst (echo_main_11 bindable [arg])
     = (case stoi arg of
          Inl e \<Rightarrow> if e = Out_of_range then Main_undefined
            else if bindable (Tcp_v4 0) then Main_runs 0 else Main_caught
        | Inr v \<Rightarrow> if bindable (Tcp_v4 (nat (v mod 65536))) then Main_runs (nat (v mod 65536)) else Main_caught)
   \<and> (exit_status (echo_main_03 bindable a args) = Some 1 \<longleftrightarrow> length args \<noteq> 1)
   \<and> (exit_status (echo_main_11 bindable args) = Some 1 \<longleftrightarrow> length args \<noteq> 1)
   \<and> (exit_status (rc_main bindable args) = Some 1 \<longleftrightarrow> length args \<noteq> 1)
   \<and> (exit_status (http_main resolve binds args) = Some 1 \<longleftrightarrow> length args \<noteq> 3)
   \<and> (exit_status (action_main connect resolve binds args) = Some 1 \<longleftrightarrow> length args \<noteq> 2)
   \<and> (tcp_daytime_main bindable a = Main_terminated \<longleftrightarrow> \<not> bindable (Tcp_v4 13))
   \<and> (exit_status (udp_daytime_main bindable ep buf) = Some 0 \<longleftrightarrow> \<not> bindable (Udp_v4 13))
   \<and> (exit_status (comb_daytime_main bindable a ep buf) = Some 0
        \<longleftrightarrow> \<not> (bindable (Tcp_v4 13) \<and> bindable (Udp_v4 13)))
   \<and> Main_terminated \<notin> {map_main_run (\<lambda>_. ()) (echo_main_03 bindable a args),
        map_main_run (\<lambda>_. ()) (echo_main_11 bindable args), map_main_run (\<lambda>_. ()) (rc_main bindable args),
        map_main_run (\<lambda>_. ()) (http_main resolve binds args),
        map_main_run (\<lambda>_. ()) (action_main connect resolve binds args)}"
proof -
  have "map_main_run fst (echo_main_03 bindable a [arg])
     = (case stoi arg of Inl e \<Rightarrow> Main_caught | Inr v \<Rightarrow> map_main_run fst (echo_main_11 bindable [arg]))"
    by (simp add: echo_main_03_def echo_main_11_def stoi_port Let_def split: sum.split)
  moreover have "map_main_run fst (echo_main_11 bindable [arg])
     = (case stoi arg of
          Inl e \<Rightarrow> if e = Out_of_range then Main_undefined
            else if bindable (Tcp_v4 0) then Main_runs 0 else Main_caught
        | Inr v \<Rightarrow> if bindable (Tcp_v4 (nat (v mod 65536))) then Main_runs (nat (v mod 65536)) else Main_caught)"
    by (simp add: echo_main_11_def stoi_port split: sum.split stoi_error.split)
       (metis stoi_error.exhaust stoi_error.distinct(1))
  ultimately show ?thesis
    by (simp add: main_defs exit_status_def Let_def split: option.split sum.split)
qed

text \<open>
  The two TCP servers differ where the port cannot be bound: the synchronous one ends with status
  0, the other is terminated. The chat server wants one port at least.
\<close>

lemma sync_programs_start:
  "exit_status (tcp_sync_main bindable calls) = (if bindable (Tcp_v4 13) then None else Some 0)"
  "(exit_status (tcp_sync_main bindable calls) = Some 0 \<longleftrightarrow> tcp_daytime_main bindable a = Main_terminated)"
  "udp_sync_main bindable junk receives \<noteq> Main_undefined \<Longrightarrow>
     exit_status (udp_sync_main bindable junk receives) = exit_status (udp_daytime_main bindable ep buf)"
  by (simp_all add: tcp_sync_main_def udp_sync_main_def tcp_daytime_main_def udp_daytime_main_def
      exit_status_def split: option.split)

lemma chat_server_usage: "server_main binds args = Main_usage \<longleftrightarrow> args = []"
proof -
  have "emplace_servers binds servers as \<noteq> Main_usage" for servers as
    by (induction as arbitrary: servers) (auto split: option.split)
  then show ?thesis by (simp add: server_main_def)
qed

end
