(* ===== verification/Program_Ends.thy ===== *)
theory Program_Ends
  imports Complex_Main
begin

text \<open>
  Programs that come to an end: the locale of a step relation whose every step from a good state
  goes down in a well-founded order, and that has a step wherever the program is not idle. That
  no run is infinite, that a run which cannot go on is idle, and that a run can always be
  carried on to an idle state are shown once for all of them.
\<close>

text \<open>An operation that completes is one less in the list of the outstanding ones.\<close>

lemma remove1_length: "p \<in> set ps \<Longrightarrow> Suc (length (remove1 p ps)) = length ps"
  by (auto simp: length_remove1 dest: length_pos_if_in_set)

locale draining =
  fixes ok :: "'s \<Rightarrow> bool" and step :: "'s \<Rightarrow> 's \<Rightarrow> bool" and idle :: "'s \<Rightarrow> bool"
    and order :: "('s \<times> 's) set"
  assumes wf_order: "wf order"
    and keeps: "ok s \<Longrightarrow> step s t \<Longrightarrow> ok t"
    and goes_down: "ok s \<Longrightarrow> step s t \<Longrightarrow> (t, s) \<in> order"
    and goes_on: "ok s \<Longrightarrow> \<not> idle s \<Longrightarrow> \<exists>t. step s t"
begin

lemma wf_steps: "wf {(t, s). ok s \<and> step s t}"
  by (rule wf_subset [OF wf_order]) (auto intro: goes_down)

lemma run_ok: "step\<^sup>*\<^sup>* s t \<Longrightarrow> ok s \<Longrightarrow> ok t"
  by (induction rule: rtranclp_induct) (auto intro: keeps)

lemma no_infinite_run:
  assumes "ok (f 0)"
  shows "\<exists>i. \<not> step (f i) (f (Suc i))"
proof (rule ccontr)
  assume "\<not> ?thesis"
  then have steps: "step (f i) (f (Suc i))" for i by blast
  have "ok (f i)" for i
    by (induction i) (use assms steps keeps in blast)+
  with steps have "\<forall>i. (f (Suc i), f i) \<in> {(t, s). ok s \<and> step s t}" by blast
  with wf_steps show False unfolding wf_iff_no_infinite_down_chain by blast
qed

lemma stuck_idle: "step\<^sup>*\<^sup>* s t \<Longrightarrow> ok s \<Longrightarrow> \<forall>u. \<not> step t u \<Longrightarrow> idle t"
  using run_ok goes_on by blast

lemma comes_to_idle:
  assumes "ok s"
  shows "\<exists>t. step\<^sup>*\<^sup>* s t \<and> idle t"
  using wf_steps assms
proof (induction s rule: wf_induct_rule)
  case (less s)
  show ?case
  proof (cases "idle s")
    case False
    with goes_on less.prems obtain t where t: "step s t" by blast
    with less keeps obtain u where "step\<^sup>*\<^sup>* t u" "idle u" by blast
    with t show ?thesis by (meson converse_rtranclp_into_rtranclp)
  qed blast
qed

end

end
