(* ===== verification/Http_Shutdown.thy ===== *)
theory Http_Shutdown
  imports Http_Server Program_Ends
begin

text \<open>
  What happens after the handler of a stop signal: the sockets are closed, so of the operations
  that are outstanding none goes on for long, and \<open>io_service::run\<close> returns. Asio completes a read
  on a closed socket with an error, but a read may have been completed before, with its handler
  waiting to be called; \<open>late\<close> is the set of connections with such a read.
\<close>

section \<open>The steps of a stopping server\<close>

inductive stopping_step ::
    "memory_behind \<Rightarrow> (request \<Rightarrow> reply \<Rightarrow> reply) \<Rightarrow> address set \<times> http_state \<Rightarrow> address set \<times> http_state \<Rightarrow> bool"
  for beyond respond where
  accept_ends: "Accept_op \<in> set (http_ops s) \<Longrightarrow> \<not> referenced a s \<Longrightarrow> http_objects s a = None \<Longrightarrow>
     stopping_step beyond respond (late, s) (late, on_accept ec a status (finish_op Accept_op s))"
| read_fails: "Read_op a \<in> set (http_ops s) \<Longrightarrow> ec \<noteq> No_error \<Longrightarrow>
     (ec = Operation_aborted \<Longrightarrow> socket_closed a s) \<Longrightarrow>
     on_read beyond respond a ec [] (finish_op (Read_op a) s) = Some t \<Longrightarrow>
     stopping_step beyond respond (late, s) (late, t)"
| read_was_done: "a \<in> late \<Longrightarrow> Read_op a \<in> set (http_ops s) \<Longrightarrow> length bytes \<le> 8192 \<Longrightarrow>
     on_read beyond respond a No_error bytes (finish_op (Read_op a) s) = Some t \<Longrightarrow>
     stopping_step beyond respond (late, s) (late - {a}, t)"
| write_ends: "Write_op a bytes \<in> set (http_ops s) \<Longrightarrow> n \<le> length bytes \<Longrightarrow>
     (ec = No_error \<Longrightarrow> n = length bytes) \<Longrightarrow>
     (ec = Operation_aborted \<Longrightarrow> socket_closed a s) \<Longrightarrow>
     on_write a bytes ec n (finish_op (Write_op a bytes) s) = Some t \<Longrightarrow>
     stopping_step beyond respond (late, s) (late, t)"
| object_goes: "http_objects s a = Some c \<Longrightarrow> \<not> referenced a s \<Longrightarrow>
     stopping_step beyond respond (late, s) (late, s\<lparr>http_objects := (http_objects s)(a := None)\<rparr>)"

text \<open>They are steps of the server.\<close>

lemma stopping_is_step: "stopping_step beyond respond p q \<Longrightarrow> http_step beyond respond (snd p) (snd q)"
proof (induction rule: stopping_step.induct)
  case (read_fails a s ec t late)
  then have "http_step beyond respond s t" by - (rule read_done [where bytes = "[]"], simp_all)
  then show ?case by simp
qed (auto intro: http_step.intros)

section \<open>Only finitely many objects\<close>

lemma dom_stop [simp]: "dom (m(a := map_option f (m a))) = dom m"
  by (auto split: if_splits)

lemma finite_objects_step:
  "http_step beyond respond s t \<Longrightarrow> finite (dom (http_objects s)) \<Longrightarrow> finite (dom (http_objects t))"
proof (induction rule: http_step.induct)
  case (accept_done s a ec status)
  then show ?case
    by (simp add: on_accept_def do_accept_def manager_start_def connection_start_def do_read_def)
next
  case (signal_done s)
  moreover have "dom (http_objects (on_signal (finish_op Signal_op s))) \<subseteq> dom (http_objects s)"
    by (auto simp: on_signal_def split: if_splits)
  ultimately show ?case by (blast intro: finite_subset)
next
  case (read_done a s bytes ec t)
  then show ?case
    by (auto simp: on_read_def do_write_eq do_read_def Let_def split: option.splits if_splits)
next
  case (write_done a bytes s n ec t)
  then show ?case by (auto simp: on_write_def Let_def split: option.splits if_splits)
next
  case (last_reference s a c)
  show ?case
    by (rule finite_subset [OF _ last_reference.prems]) (auto split: if_splits)
qed

lemma finite_objects: "http_reachable beyond respond s \<Longrightarrow> finite (dom (http_objects s))"
proof (induction rule: http_reachable.induct)
  case start
  show ?case by (simp add: new_server_def do_accept_def do_await_stop_def start_op_def)
qed (rule finite_objects_step)

section \<open>Every step brings the end nearer\<close>

definition stopping_ok :: "(request \<Rightarrow> reply \<Rightarrow> reply) \<Rightarrow> address set \<times> http_state \<Rightarrow> bool" where
  "stopping_ok respond p \<longleftrightarrow> http_ok respond (snd p) \<and> \<not> http_acceptor_open (snd p)
     \<and> finite (dom (http_objects (snd p))) \<and> finite (fst p)"

definition work_left :: "address set \<times> http_state \<Rightarrow> nat" where
  "work_left p =
     length (http_ops (snd p)) + card (fst p) + card (dom (http_objects (snd p)))"

definition all_done :: "address set \<times> http_state \<Rightarrow> bool" where
  "all_done p \<longleftrightarrow> http_ops (snd p) = [] \<and> http_objects (snd p) = Map.empty"

lemma stopping_keeps:
  assumes "stopping_ok respond p" "stopping_step beyond respond p q"
  shows "stopping_ok respond q"
proof -
  have step: "http_step beyond respond (snd p) (snd q)" by (rule stopping_is_step [OF assms(2)])
  have "fst q \<subseteq> fst p" using assms(2) by cases auto
  with assms(1) finite_subset have "finite (fst q)" by (auto simp: stopping_ok_def)
  with step assms(1) show ?thesis
    by (auto simp: stopping_ok_def dest: http_step_ok stays_closed_step finite_objects_step)
qed

lemma stopping_nearer:
  assumes "stopping_ok respond p" "stopping_step beyond respond p q"
  shows "work_left q < work_left p"
  using assms(2)
proof cases
  case (accept_ends s a late ec status)
  with assms(1) remove1_length [of Accept_op "http_ops s"] show ?thesis
    by (simp add: stopping_ok_def work_left_def on_accept_def)
next
  case (read_fails a s ec t late)
  then have "dom (http_objects t) = dom (http_objects s)" "http_ops t = remove1 (Read_op a) (http_ops s)"
    by (auto simp: on_read_def split: option.splits if_splits)
  with read_fails remove1_length [of "Read_op a" "http_ops s"] show ?thesis
    by (simp add: work_left_def)
next
  case (read_was_done a late s bytes t)
  then have "dom (http_objects t) = dom (http_objects s)"
    "length (http_ops t) = Suc (length (remove1 (Read_op a) (http_ops s)))"
    by (auto simp: on_read_def do_write_eq do_read_def Let_def split: option.splits if_splits)
  moreover have "card (late - {a}) < card late"
    using read_was_done(1,3) assms(1) by (intro card_Diff1_less) (auto simp: stopping_ok_def)
  ultimately show ?thesis
    using read_was_done remove1_length [of "Read_op a" "http_ops s"] by (simp add: work_left_def)
next
  case (write_ends a bytes s n ec t late)
  then have "dom (http_objects t) = dom (http_objects s)"
    "http_ops t = remove1 (Write_op a bytes) (http_ops s)"
    by (auto simp: on_write_def Let_def split: option.splits if_splits)
  with write_ends remove1_length [of "Write_op a bytes" "http_ops s"] show ?thesis
    by (simp add: work_left_def)
next
  case (object_goes s a c late)
  then have "dom ((http_objects s)(a := None)) = dom (http_objects s) - {a}" "a \<in> dom (http_objects s)"
    by auto
  moreover have "finite (dom (http_objects s))" using object_goes assms(1) by (simp add: stopping_ok_def)
  ultimately have "card (dom ((http_objects s)(a := None))) < card (dom (http_objects s))"
    by (simp only: card_Diff1_less)
  with object_goes show ?thesis by (simp add: work_left_def)
qed

lemma stopping_goes_on:
  assumes "stopping_ok respond p" "\<not> all_done p"
  shows "\<exists>q. stopping_step beyond respond p q"
proof -
  obtain late s where p: "p = (late, s)" by (cases p)
  have ok: "http_ok respond s" and closed: "\<not> http_acceptor_open s" and fin: "finite (dom (http_objects s))"
    using assms(1) p by (simp_all add: stopping_ok_def)
  show ?thesis
  proof (cases "http_ops s")
    case Nil
    with assms(2) p obtain a c where c: "http_objects s a = Some c"
      by (auto simp: all_done_def fun_eq_iff)
    moreover have "\<not> referenced a s"
      using Nil http_okD(10) [OF ok closed] by (simp add: referenced_def)
    ultimately show ?thesis using object_goes p by blast
  next
    case (Cons op ops)
    then have op: "op \<in> set (http_ops s)" by simp
    show ?thesis
    proof (cases op)
      case Accept_op
      obtain a where "a \<notin> dom (http_objects s)" using ex_new_if_finite [OF _ fin] by auto
      then have a: "http_objects s a = None" by auto
      then have "\<not> referenced a s"
        using http_okD(10) [OF ok closed] http_okD(2) [OF ok] op_ok_object by (fastforce simp: referenced_def)
      with a op Accept_op p accept_ends show ?thesis by blast
    next
      case Signal_op
      with op ops_such_pos [of op s "(=) Signal_op"] http_okD(8) [OF ok] closed show ?thesis by simp
    next
      case (Read_op a)
      with http_okD(2) [OF ok op] obtain c where "http_objects s a = Some c" by (auto simp: op_ok_def)
      then have "\<exists>t. on_read beyond respond a Eof [] (finish_op op s) = Some t" by (simp add: on_read_def)
      with op Read_op p read_fails [of a s Eof] show ?thesis by blast
    next
      case (Write_op a bytes)
      with http_okD(2) [OF ok op] obtain c where "http_objects s a = Some c" by (auto simp: op_ok_def)
      then have "\<exists>t. on_write a bytes Eof 0 (finish_op op s) = Some t" by (simp add: on_write_def Let_def)
      with op Write_op p write_ends [of a bytes s 0 Eof] show ?thesis by blast
    qed
  qed
qed

interpretation stopping: draining "stopping_ok respond" "stopping_step beyond respond" all_done
    "measure work_left" for respond
  by unfold_locales (blast intro: stopping_keeps stopping_goes_on wf_measure | simp add: stopping_nearer)+

lemma signalled_ok:
  assumes "http_reachable beyond respond s" "Signal_op \<in> set (http_ops s)" "finite late"
  shows "stopping_ok respond (late, on_signal (finish_op Signal_op s))"
proof -
  have "http_step beyond respond s (on_signal (finish_op Signal_op s))"
    by (rule signal_done [OF assms(2)])
  then have "http_reachable beyond respond (on_signal (finish_op Signal_op s))"
    using assms(1) http_reachable.step by blast
  with assms(3) show ?thesis
    by (simp add: stopping_ok_def http_reachable_ok finite_objects) (simp add: on_signal_def)
qed

section \<open>Properties\<close>

text \<open>
  Property C23. A stop signal ends the server. From the state in which its handler has run, with
  any reads completed before the sockets were closed: no run is infinite, a run can be carried on
  to the state with no operation and no connection object left, where \<open>run\<close> returns, and it stands
  still only there; and on the way the acceptor stays closed, no connection is registered, and no
  socket is open.
\<close>

theorem http_server_shuts_down:
  assumes "http_reachable beyond respond s" "Signal_op \<in> set (http_ops s)" "finite late"
    and "(stopping_step beyond respond)\<^sup>*\<^sup>* (late, on_signal (finish_op Signal_op s)) (later, t)"
  shows "(\<nexists>f. f 0 = (later, t) \<and> (\<forall>i. stopping_step beyond respond (f i) (f (Suc i))))
    \<and> (\<exists>left u. (stopping_step beyond respond)\<^sup>*\<^sup>* (later, t) (left, u) \<and> http_ops u = []
         \<and> http_objects u = Map.empty)
    \<and> ((\<forall>q. \<not> stopping_step beyond respond (later, t) q) \<longrightarrow> http_ops t = [] \<and> http_objects t = Map.empty)
    \<and> \<not> http_acceptor_open t \<and> http_connections t = []
    \<and> (\<forall>a c. http_objects t a = Some c \<longrightarrow> \<not> sock_open c)"
proof -
  have ok: "stopping_ok respond (later, t)"
    by (rule stopping.run_ok [OF assms(4) signalled_ok [OF assms(1-3)]])
  then have t: "http_ok respond t" "\<not> http_acceptor_open t" by (simp_all add: stopping_ok_def)
  have "\<nexists>f. f 0 = (later, t) \<and> (\<forall>i. stopping_step beyond respond (f i) (f (Suc i)))"
    using stopping.no_infinite_run ok by metis
  moreover have "\<exists>left u. (stopping_step beyond respond)\<^sup>*\<^sup>* (later, t) (left, u) \<and> http_ops u = []
      \<and> http_objects u = Map.empty"
    using stopping.comes_to_idle [OF ok] by (auto simp: all_done_def)
  moreover have "(\<forall>q. \<not> stopping_step beyond respond (later, t) q) \<longrightarrow>
      http_ops t = [] \<and> http_objects t = Map.empty"
    using stopping.goes_on [OF ok] by (auto simp: all_done_def)
  moreover have "http_connections t = []" using http_okD(10) [OF t] .
  moreover have "\<forall>a c. http_objects t a = Some c \<longrightarrow> \<not> sock_open c"
    using http_okD(6) [OF t(1)] \<open>http_connections t = []\<close> by simp
  ultimately show ?thesis using t(2) by blast
qed

theorem http_server_shuts_down_witness:
  "http_connections accepted_server = [7]
   \<and> (\<exists>left u. (stopping_step example_memory example_respond)\<^sup>*\<^sup>* ({7}, stopped_server) (left, u) \<and> http_ops u = []
        \<and> http_objects u = Map.empty)"
proof -
  have "Signal_op \<in> set (http_ops accepted_server)" by (simp add: accepted_server_simps)
  from http_server_shuts_down [OF accepted_server_reachable [of example_memory example_respond] this, of "{7}" "{7}" stopped_server]
  show ?thesis by (auto simp: accepted_server_simps stopped_server_def)
qed

end
