(* ===== verification/Action_Shutdown.thy ===== *)
theory Action_Shutdown
  imports Action_Server Program_Ends
begin

text \<open>
  The end of the action server. A connection that has read once has nothing outstanding and is kept
  only by the manager; it goes when a stop signal clears the manager, and with it the last
  operations: the steps of a server whose acceptor is closed come to an end.
\<close>

section \<open>One wait for a signal\<close>

lemma on_act_read_signals:
  assumes "on_act_read execute now a ec bytes s = Some (Inr t)"
  shows "count_list (act_ops t) Act_signal = count_list (act_ops s) Act_signal"
    and "dom (act_objects t) = dom (act_objects s)"
    and "act_connections s = [] \<Longrightarrow> act_connections t = []"
proof -
  show "act_connections s = [] \<Longrightarrow> act_connections t = []"
    using assms
    by (auto simp: on_act_read_def Let_def act_do_write_def act_do_read_def act_manager_stop_def
        std_set_erase_def split: option.splits prod.splits sum.splits if_splits)
qed (use assms in \<open>auto simp: on_act_read_def Let_def act_do_write_def act_do_read_def
    act_manager_stop_def act_objects_stop split: option.splits prod.splits sum.splits if_splits\<close>)

definition one_signal :: "'d action_state \<Rightarrow> bool" where
  "one_signal s \<longleftrightarrow> count_list (act_ops s) Act_signal \<le> 1 \<and> finite (dom (act_objects s))"

lemma one_signal_step: "act_step execute s t \<Longrightarrow> one_signal s \<Longrightarrow> one_signal t"
proof (induction rule: act_step.induct)
  case (act_accepted s a ec)
  then show ?case
    by (simp add: one_signal_def on_act_accept_def act_do_accept_def act_manager_start_def
        act_connection_start_def act_do_read_def)
next
  case (act_signalled s)
  moreover have "dom (act_objects (on_act_signal (act_finish Act_signal s))) = dom (act_objects s)"
    by (auto simp: on_act_signal_def act_stop_all_def act_stop_each_objects split: if_splits)
  ultimately show ?case by (simp add: one_signal_def on_act_signal_def act_stop_all_def)
next
  case (act_read_done a s bytes now ec t)
  then show ?case using on_act_read_signals [OF act_read_done.hyps(3)] by (simp add: one_signal_def)
next
  case (act_released s a c)
  then have "finite (dom (act_objects s))" by (simp add: one_signal_def)
  then have "finite (dom ((act_objects s)(a := None)))" by (rule finite_subset [rotated]) auto
  with act_released show ?case by (simp add: one_signal_def)
qed

lemma one_signal: "act_reachable execute d s \<Longrightarrow> one_signal s"
proof (induction rule: act_reachable.induct)
  case act_start
  show ?case
    by (simp add: one_signal_def new_action_server_def act_do_accept_def act_await_stop_def act_begin_def)
qed (rule one_signal_step)

section \<open>Every step of a stopped server brings the end nearer\<close>

definition act_stopped_ok :: "'d action_state \<Rightarrow> bool" where
  "act_stopped_ok s \<longleftrightarrow> act_ok s \<and> finite (dom (act_objects s)) \<and> \<not> act_acceptor_open s
     \<and> act_connections s = [] \<and> Act_signal \<notin> set (act_ops s)"

definition act_left :: "'d action_state \<Rightarrow> nat" where
  "act_left s = length (act_ops s) + card (dom (act_objects s))"

definition act_all_done :: "'d action_state \<Rightarrow> bool" where
  "act_all_done s \<longleftrightarrow> act_ops s = [] \<and> act_objects s = Map.empty"

lemma act_read_length:
  assumes "on_act_read execute now a ec bytes s = Some (Inr t)"
  shows "act_ops t = act_ops s"
  using assms act_read_result(1) [of execute now a bytes s t]
  by (cases "ec = No_error") (auto simp: on_act_read_def act_manager_stop_def split: option.splits if_splits)

lemma act_stopped_step:
  assumes "act_stopped_ok s" "act_step execute s t"
  shows "act_stopped_ok t \<and> act_left t < act_left s"
  using assms(2)
proof cases
  case (act_accepted a ec)
  with assms(1) remove1_length [of Act_accept "act_ops s"] show ?thesis
    by (auto simp: act_stopped_ok_def act_left_def on_act_accept_def act_ok_finish dest: in_remove1D)
next
  case act_signalled
  with assms(1) show ?thesis by (simp add: act_stopped_ok_def)
next
  case (act_read_done a bytes now ec)
  note read = on_act_read_signals [OF act_read_done(3)]
  have "act_ok t" using assms act_step_ok by (auto simp: act_stopped_ok_def)
  moreover have "\<not> act_acceptor_open t" using assms closed_step by (auto simp: act_stopped_ok_def)
  moreover have "act_ops t = remove1 (Act_read a) (act_ops s)"
    using act_read_length [OF act_read_done(3)] by simp
  ultimately show ?thesis
    using assms(1) read remove1_length [OF act_read_done(1)]
    by (auto simp: act_stopped_ok_def act_left_def dest: in_remove1D)
next
  case (act_released a c)
  have fin: "finite (dom (act_objects s))" using assms(1) by (simp add: act_stopped_ok_def)
  have "act_ok t" using assms act_step_ok by (auto simp: act_stopped_ok_def)
  moreover have gone: "dom ((act_objects s)(a := None)) = dom (act_objects s) - {a}" by auto
  moreover have "card (dom (act_objects s) - {a}) < card (dom (act_objects s))"
    using fin act_released(2) by (intro card_Diff1_less) auto
  ultimately show ?thesis
    using assms(1) fin act_released by (simp add: act_stopped_ok_def act_left_def)
qed

lemma act_stopped_goes_on:
  assumes "act_stopped_ok s" "\<not> act_all_done s"
  shows "\<exists>t. act_step execute s t"
proof (cases "act_ops s")
  case Nil
  with assms(2) obtain a c where "act_objects s a = Some c" by (auto simp: act_all_done_def fun_eq_iff)
  moreover have "\<not> act_referenced a s"
    using Nil assms(1) by (simp add: act_stopped_ok_def act_referenced_def)
  ultimately show ?thesis using act_released by blast
next
  case (Cons p ps)
  then have p: "p \<in> set (act_ops s)" by simp
  show ?thesis
  proof (cases p)
    case Act_accept
    obtain a where a: "a \<notin> dom (act_objects s)"
      using assms(1) ex_new_if_finite [OF infinite_UNIV_nat] by (auto simp: act_stopped_ok_def)
    then have "\<not> act_referenced a s"
      using assms(1) by (auto simp: act_stopped_ok_def act_ok_def reading_fresh_def act_referenced_def)
    with a p Act_accept act_accepted [of s a] show ?thesis by blast
  next
    case Act_signal
    with p assms(1) show ?thesis by (simp add: act_stopped_ok_def)
  next
    case (Act_read a)
    with p assms(1) obtain c where "act_objects s a = Some c"
      by (auto simp: act_stopped_ok_def act_ok_def reading_fresh_def)
    then have "on_act_read execute 0 a Eof [] (act_finish p s) = Some (Inr (act_manager_stop a (act_finish p s)))"
      by (simp add: on_act_read_def)
    with p Act_read act_read_done [of a s "[]" execute 0 Eof] show ?thesis by auto
  qed
qed

interpretation act_stopping: draining act_stopped_ok "act_step execute" act_all_done "measure act_left" for execute
proof unfold_locales
  show "wf (measure act_left)" by simp
qed (simp_all add: act_stopped_step act_stopped_goes_on)

lemma act_signalled_ok:
  assumes "act_reachable execute d s" "Act_signal \<in> set (act_ops s)"
  shows "act_stopped_ok (on_act_signal (act_finish Act_signal s))"
proof -
  let ?t = "on_act_signal (act_finish Act_signal s)"
  have reach: "act_reachable execute d ?t"
    by (rule act_next [OF assms(1) act_signalled [OF assms(2)]])
  have "act_ok ?t" "one_signal ?t" by (rule act_reachable_ok [OF reach], rule one_signal [OF reach])
  moreover have "count_list (act_ops ?t) Act_signal = 0"
    using one_signal [OF assms(1)]
    by (auto simp: one_signal_def on_act_signal_def act_stop_all_def)
  then have "Act_signal \<notin> set (act_ops ?t)" using count_list_0_iff by metis
  moreover have "\<not> act_acceptor_open ?t" "act_connections ?t = []"
    by (simp_all add: on_act_signal_def act_stop_all_def)
  ultimately show ?thesis by (simp add: act_stopped_ok_def one_signal_def)
qed

text \<open>
  Property C40. A stop signal ends the action server, too, whatever the reads that were still outstanding
  bring: the connections it has left waiting go with the rest. Only an exception of the request handler
  or undefined behaviour, which are no steps, would end it earlier.
\<close>

theorem action_server_shuts_down:
  assumes "act_reachable execute d s" "Act_signal \<in> set (act_ops s)"
    and "(act_step execute)\<^sup>*\<^sup>* (on_act_signal (act_finish Act_signal s)) t"
  shows "(\<nexists>f. f 0 = t \<and> (\<forall>i. act_step execute (f i) (f (Suc i))))
    \<and> (\<exists>u. (act_step execute)\<^sup>*\<^sup>* t u \<and> act_ops u = [] \<and> act_objects u = Map.empty)
    \<and> ((\<forall>u. \<not> act_step execute t u) \<longrightarrow> act_ops t = [] \<and> act_objects t = Map.empty)"
proof -
  have ok: "act_stopped_ok t"
    by (rule act_stopping.run_ok [OF assms(3) act_signalled_ok [OF assms(1, 2)]])
  have "\<nexists>f. f 0 = t \<and> (\<forall>i. act_step execute (f i) (f (Suc i)))"
    using act_stopping.no_infinite_run ok by metis
  moreover have "\<exists>u. (act_step execute)\<^sup>*\<^sup>* t u \<and> act_ops u = [] \<and> act_objects u = Map.empty"
    using act_stopping.comes_to_idle [OF ok] by (auto simp: act_all_done_def)
  moreover have "(\<forall>u. \<not> act_step execute t u) \<longrightarrow> act_ops t = [] \<and> act_objects t = Map.empty"
    using act_stopped_goes_on [OF ok] by (auto simp: act_all_done_def)
  ultimately show ?thesis by blast
qed

theorem action_server_shuts_down_witness:
  "act_connections one_action = [7]
   \<and> (\<exists>u. (act_step empty_database)\<^sup>*\<^sup>* (on_act_signal (act_finish Act_signal one_action)) u
        \<and> act_ops u = [] \<and> act_objects u = Map.empty)"
proof -
  have "Act_signal \<in> set (act_ops one_action)" by (simp add: one_action_simps)
  from action_server_shuts_down [OF one_action_reachable [of empty_database] this rtranclp.rtrancl_refl]
  show ?thesis by (auto simp: one_action_simps)
qed

end
