(* ===== verification/Daytime_Clients.thy ===== *)
theory Daytime_Clients
  imports Daytime_Tcp Daytime_Udp
begin

text \<open>
  The \<open>main\<close> functions of the daytime clients: boost_udp/sync_dc.cpp, the one with futures in
  boost_future/daytime_client.cpp, and boost_tcp/sync_dc.cpp, each with its server. The network
  is a parameter: what the resolver answers (\<open>None\<close>: it throws), whether the socket can be opened
  or connected, the error of the send, and what is received (\<open>None\<close>: nothing ever).
\<close>

section \<open>The clients on UDP\<close>

text \<open>
  How a client ends: after its usage text, after an exception it has caught, in \<open>std::terminate\<close>,
  not at all because it waits for a datagram, or after it has printed what came. Before, what it
  has sent.
\<close>

datatype client_outcome =
    Client_usage
  | Client_failed
  | Client_terminated
  | Client_blocked
  | Client_printed string

definition udp_client_main ::
    "(string \<Rightarrow> string \<Rightarrow> endpoint option) \<Rightarrow> bool \<Rightarrow> error_code \<Rightarrow> (error_code \<times> string) option
     \<Rightarrow> string list \<Rightarrow> (endpoint \<times> string) list \<times> client_outcome" where
  "udp_client_main resolve opens send received args =
     (if length args \<noteq> 2 then ([], Client_usage)
      else (case resolve (args ! 0) ''daytime'' of
          None \<Rightarrow> ([], Client_failed)
        | Some ep \<Rightarrow>
            if \<not> opens then ([], Client_failed)
            else if send \<noteq> No_error then ([], Client_failed)
            else ([(ep, udp_client_request (args ! 1))],
              case received of
                None \<Rightarrow> Client_blocked
              | Some (ec, bytes) \<Rightarrow>
                  (case udp_client_shown ec bytes of None \<Rightarrow> Client_failed | Some t \<Rightarrow> Client_printed t))))"

text \<open>
  \<open>get_daytime\<close> starts to resolve, opens the socket and waits for the first future, whose \<open>get\<close>
  throws what the resolver reported. Asio throws \<open>boost::system::system_error\<close>, which is no
  \<open>std::system_error\<close>: the handler does not catch it and it leaves the function (\<open>None\<close>).
\<close>

definition get_daytime ::
    "(string \<Rightarrow> string \<Rightarrow> endpoint option) \<Rightarrow> bool \<Rightarrow> error_code \<Rightarrow> (error_code \<times> string) option
     \<Rightarrow> string \<Rightarrow> (endpoint \<times> string) list \<times> client_outcome option" where
  "get_daytime resolve opens send received hostname =
     (let iter = resolve hostname ''daytime''
      in if \<not> opens then ([], None)
         else (case iter of
             None \<Rightarrow> ([], None)
           | Some ep \<Rightarrow>
               if send \<noteq> No_error then ([], None)
               else ([(ep, future_client_request)],
                 case received of
                   None \<Rightarrow> Some Client_blocked
                 | Some (ec, bytes) \<Rightarrow> map_option Client_printed (future_client_shown ec bytes))))"

text \<open>
  \<open>main\<close> then stops the \<open>io_service\<close> and joins its thread. An exception of \<open>get_daytime\<close> destroys
  the thread before it is joined, on the way to the handler, and that terminates the program.
\<close>

definition future_client_main ::
    "(string \<Rightarrow> string \<Rightarrow> endpoint option) \<Rightarrow> bool \<Rightarrow> error_code \<Rightarrow> (error_code \<times> string) option
     \<Rightarrow> string list \<Rightarrow> (endpoint \<times> string) list \<times> client_outcome" where
  "future_client_main resolve opens send received args =
     (if length args \<noteq> 1 then ([], Client_usage)
      else (case get_daytime resolve opens send received (args ! 0) of
          (sent, None) \<Rightarrow> (sent, Client_terminated)
        | (sent, Some outcome) \<Rightarrow> (sent, outcome)))"

text \<open>The two send to the same endpoint and end alike, but for what they make of a failure.\<close>

lemma udp_clients_alike:
  "snd (future_client_main resolve opens send received [host])
     = (case snd (udp_client_main resolve opens send received [host, arg]) of
          Client_failed \<Rightarrow> Client_terminated | outcome \<Rightarrow> outcome)
   \<and> map fst (fst (udp_client_main resolve opens send received [host, arg]))
     = map fst (fst (future_client_main resolve opens send received [host]))"
  by (auto simp: udp_client_main_def future_client_main_def get_daytime_def Let_def
      udp_client_shown_def future_client_shown_def split: option.split)

section \<open>The client on TCP\<close>

definition tcp_client_main ::
    "(string \<Rightarrow> string \<Rightarrow> 'e option) \<Rightarrow> ('e \<Rightarrow> bool) \<Rightarrow> (string \<times> error_code \<times> string) list
     \<Rightarrow> string list \<Rightarrow> (string list \<times> string \<times> client_end) main_run" where
  "tcp_client_main resolve connects rounds args =
     (if length args \<noteq> 2 then Main_usage
      else (case resolve (args ! 0) (args ! 1) of
          None \<Rightarrow> Main_caught
        | Some endpoints \<Rightarrow> if connects endpoints then Main_runs (tcp_client_loop rounds) else Main_caught))"

lemma tcp_client_loop_shown:
  "prefix (fst (snd (tcp_client_loop rounds))) (concat (map (snd \<circ> snd) rounds))"
  by (induction rounds rule: tcp_client_loop.induct) (auto split: prod.split)

lemma tcp_client_loop_left:
  assumes "\<forall>(line, ec, bytes) \<in> set rounds. ec = No_error"
  shows "tcp_client_loop (rounds @ [(line, Eof, bytes)])
    = (map fst rounds @ [line], concat (map (snd \<circ> snd) rounds), Client_left)"
  using assms by (induction rounds rule: tcp_client_loop.induct) auto

text \<open>
  The client with its server: what it reads is the beginning of what its connection was sent.
  What it prints is then the beginning of the text of a time the clock showed; when the write
  succeeded and the client has read to the end of the connection, it has printed all of it and
  leaves.
\<close>

theorem tcp_program_shows_the_time:
  assumes "tcp_reachable clock s" "c \<in> ran (tcp_objects s) \<union> set (tcp_gone s)"
    and "prefix (concat (map (snd \<circ> snd) rounds)) (tc_sent c)"
    and "tcp_client_main resolve connects rounds args = Main_runs (written, shown, e)"
  shows "shown = [] \<or> (\<exists>now \<in> clock. prefix shown (make_daytime_string now))"
    and "tc_result c = Some No_error \<Longrightarrow> rounds = rounds' @ [(line, Eof, [])] \<Longrightarrow>
      \<forall>(line, ec, bytes) \<in> set rounds'. ec = No_error \<Longrightarrow>
      concat (map (snd \<circ> snd) rounds') = tc_sent c \<Longrightarrow>
      e = Client_left \<and> (\<exists>now \<in> clock. shown = make_daytime_string now)"
proof -
  have run: "tcp_client_loop rounds = (written, shown, e)"
    using assms(4) by (auto simp: tcp_client_main_def split: if_splits option.splits)
  have "prefix shown (tc_sent c)"
    using tcp_client_loop_shown [of rounds] run assms(3) prefix_order.trans by fastforce
  then show "shown = [] \<or> (\<exists>now \<in> clock. prefix shown (make_daytime_string now))"
    using tcp_sent_cases [OF assms(1,2)] prefix_order.trans by auto
  show "e = Client_left \<and> (\<exists>now \<in> clock. shown = make_daytime_string now)"
    if "tc_result c = Some No_error" "rounds = rounds' @ [(line, Eof, [])]"
      "\<forall>(line, ec, bytes) \<in> set rounds'. ec = No_error" "concat (map (snd \<circ> snd) rounds') = tc_sent c"
    using tcp_client_loop_left [OF that(3), of line "[]"] run that(1,2,4) tcp_sent_cases [OF assms(1,2)]
    by simp
qed

section \<open>Properties\<close>

text \<open>
  Property C37. The daytime clients on UDP show the time: while the server waits, the one
  datagram either program sends is taken without an error and answered to the program's
  endpoint; when the answer arrives, what the program prints is the whole text of the server's
  clock, from which the time can be read. Until then it waits.
\<close>

theorem udp_clients_show_the_time:
  assumes "udp_run clock rs s" "Udp_receive \<in> set (udp_ops s)" "now \<in> clock"
    and "tm_year (localtime now) < 10000" and "resolve host ''daytime'' = Some server"
    and "client \<in> {(\<lambda>received. udp_client_main resolve True No_error received [host, arg]),
      (\<lambda>received. future_client_main resolve True No_error received [host])}"
  shows "\<exists>request t reply. client None = ([(server, request)], Client_blocked)
    \<and> udp_run clock (rs @ [(No_error, ep, request, now)]) t
    \<and> Udp_send ep reply \<in> set (udp_ops t) \<and> Udp_receive \<in> set (udp_ops t)
    \<and> client (Some (datagram_error 128 reply, reply))
        = ([(server, request)], Client_printed (make_daytime_string now))
    \<and> read_daytime (make_daytime_string now) = now"
proof -
  obtain request where request: "request \<in> {udp_client_request arg, future_client_request}"
    "client None = ([(server, request)], Client_blocked)"
    "\<And>ec bytes text. udp_client_shown ec bytes = Some text \<Longrightarrow>
       client (Some (ec, bytes)) = ([(server, request)], Client_printed text)"
    using assms(5,6)
    by (auto simp: udp_client_main_def future_client_main_def get_daytime_def
        udp_client_shown_def future_client_shown_def split: if_splits)
  from udp_client_gets_the_time [OF assms(1-4) request(1)] request(2,3) assms(4)
  show ?thesis by (fastforce simp: read_daytime_inverse)
qed

theorem udp_clients_show_the_time_witness:
  "\<exists>t reply. udp_run {0} [(No_error, 9, ''T'', 0)] t \<and> Udp_send 9 reply \<in> set (udp_ops t)
     \<and> udp_client_main (\<lambda>h s. Some 13) True No_error (Some (datagram_error 128 reply, reply))
         [''localhost'', ''Time''] = ([(13, ''T'')], Client_printed (make_daytime_string 0))"
proof -
  let ?client = "\<lambda>received. udp_client_main (\<lambda>h s. Some 13) True No_error received [''localhost'', ''Time'']"
  have "Udp_receive \<in> set (udp_ops (new_udp_server 0 ''?''))"
    by (simp add: new_udp_server_def start_receive_def)
  from udp_clients_show_the_time [OF udp_init this, of 0 "{0}" "\<lambda>h s. Some 13" "''localhost''" 13
      ?client "''Time''" 9] year_of_zero
  obtain request t reply where r: "?client None = ([(13, request)], Client_blocked)"
    "udp_run {0} ([] @ [(No_error, 9, request, 0)]) t" "Udp_send 9 reply \<in> set (udp_ops t)"
    "?client (Some (datagram_error 128 reply, reply))
      = ([(13, request)], Client_printed (make_daytime_string 0))" by auto
  have "request = ''T''"
    using r(1) by (simp add: udp_client_main_def udp_client_request_def)
  with r show ?thesis by auto
qed

end
