(* ===== verification/Action_Client.thy ===== *)
theory Action_Client
  imports Action_Server
begin

text \<open>
  The client of action/client: client.cpp with its request and reply. The constructor starts the
  connection and the read, which waits for a promise. Undefined behaviour is \<open>None\<close>, an exception
  is \<open>Inl\<close>. The completion handler of the read posts a setter of the promise that does not compile
  (client.cpp:47); it is not modelled, so there is no process of this client here, only its functions.
\<close>

section \<open>Requests and replies\<close>

text \<open>\<open>sizeof(request)\<close>: two 32 bit integers, three strings of 32 bytes, two floats.\<close>

definition client_request_size :: nat where
  "client_request_size = 4 + 4 + 3 * 32 + 4 + 4"

text \<open>
  A reply starts with the status and four bytes of padding; \<open>None\<close> is a byte nobody has written.
\<close>

record client_reply =
  cr_head :: "char option list"
  cr_secret :: string
  cr_gps_long :: "rat list"
  cr_gps_lat :: "rat list"

definition new_client_reply :: client_reply where
  "new_client_reply =
     \<lparr>cr_head = replicate 8 None, cr_secret = [], cr_gps_long = [], cr_gps_lat = []\<rparr>"

definition status_value :: "action_status \<Rightarrow> nat" where
  "status_value st =
     (case st of Act_ok \<Rightarrow> 200 | Act_created \<Rightarrow> 201 | Act_bad_request \<Rightarrow> 400
      | Act_not_found \<Rightarrow> 404 | Act_unavailable \<Rightarrow> 503)"

definition int_bytes :: "nat \<Rightarrow> string" where
  "int_bytes v = map (\<lambda>i. char_of (v div 256 ^ i)) [0..<4]"

definition client_stock_reply :: "action_status \<Rightarrow> client_reply" where
  "client_stock_reply st =
     new_client_reply\<lparr>cr_head := map Some (int_bytes (status_value st)) @ drop 4 (cr_head new_client_reply)\<rparr>"

definition client_to_buffer :: "client_reply \<Rightarrow> string" where
  "client_to_buffer rep = ''hi'' @ [NUL]"

text \<open>\<open>memcpy\<close> over a reply: beyond the padding it would reach into the string.\<close>

definition copy_over_reply :: "char option list \<Rightarrow> client_reply \<Rightarrow> client_reply option" where
  "copy_over_reply ds rep =
     (if length ds \<le> 8 then Some (rep\<lparr>cr_head := ds @ drop (length ds) (cr_head rep)\<rparr>) else None)"

section \<open>The client\<close>

datatype client_error = Resolve_failed | Bad_weak_ptr

datatype socket_state = Sock_open | Sock_shut | Sock_closed

datatype ac_op = Ac_connect | Ac_read | Ac_write | Ac_close

text \<open>
  \<open>ac_owned\<close> says whether a shared pointer owns the object, \<open>ac_waiting\<close> whether the thread of the
  constructor is in \<open>wait\<close>; \<open>ac_sent\<close> is what \<open>do_write\<close> has passed to the socket. No shared pointer
  owns an object that is being constructed.
\<close>

record action_client =
  ac_owned :: bool
  ac_socket :: socket_state
  ac_request :: action_request
  ac_reply :: client_reply
  ac_buffer :: "char option list"
  ac_ops :: "ac_op list"
  ac_waiting :: bool
  ac_sent :: "char option list"

definition new_action_client :: "action_request \<Rightarrow> client_reply \<Rightarrow> action_client" where
  "new_action_client req rep =
     \<lparr>ac_owned = False, ac_socket = Sock_open, ac_request = req, ac_reply = rep,
      ac_buffer = replicate 1024 None, ac_ops = [], ac_waiting = False, ac_sent = []\<rparr>"

definition ac_begin :: "ac_op \<Rightarrow> action_client \<Rightarrow> action_client" where
  "ac_begin p c = c\<lparr>ac_ops := ac_ops c @ [p]\<rparr>"

definition ac_finish :: "ac_op \<Rightarrow> action_client \<Rightarrow> action_client" where
  "ac_finish p c = c\<lparr>ac_ops := remove1 p (ac_ops c)\<rparr>"

definition ac_shared_from_this :: "action_client \<Rightarrow> client_error + unit" where
  "ac_shared_from_this c = (if ac_owned c then Inr () else Inl Bad_weak_ptr)"

definition ac_close :: "action_client \<Rightarrow> action_client" where
  "ac_close c = ac_begin Ac_close c"

definition ac_posted_close :: "action_client \<Rightarrow> action_client" where
  "ac_posted_close c = c\<lparr>ac_socket := Sock_closed\<rparr>"

text \<open>The memory sent is as \<open>malloc\<close> left it.\<close>

definition ac_do_write :: "action_client \<Rightarrow> client_error + action_client" where
  "ac_do_write c =
     (case ac_shared_from_this c of
        Inl e \<Rightarrow> Inl e
      | Inr self \<Rightarrow> Inr (ac_begin Ac_write (c\<lparr>ac_sent := ac_sent c @ replicate client_request_size None\<rparr>)))"

definition on_ac_write :: "error_code \<Rightarrow> action_client \<Rightarrow> action_client" where
  "on_ac_write ec c = (if ec \<noteq> Operation_aborted then ac_close c else c)"

definition ac_do_connect :: "action_client \<Rightarrow> client_error + action_client" where
  "ac_do_connect c =
     (case ac_shared_from_this c of Inl e \<Rightarrow> Inl e | Inr self \<Rightarrow> Inr (ac_begin Ac_connect c))"

definition on_ac_connect :: "error_code \<Rightarrow> action_client \<Rightarrow> client_error + action_client" where
  "on_ac_connect ec c = (if ec = No_error then ac_do_write c else Inr c)"

text \<open>\<open>do_read\<close> up to the wait for the promise.\<close>

definition ac_do_read :: "action_client \<Rightarrow> client_error + action_client" where
  "ac_do_read c =
     (case ac_shared_from_this c of
        Inl e \<Rightarrow> Inl e
      | Inr self \<Rightarrow> Inr ((ac_begin Ac_read c)\<lparr>ac_waiting := True\<rparr>))"

text \<open>\<open>do_set_reply\<close>, which copies what was read over the reply and calls the handler it is given.\<close>

definition ac_do_set_reply ::
    "char option list \<Rightarrow> nat \<Rightarrow> (action_client \<Rightarrow> action_client) \<Rightarrow> action_client
     \<Rightarrow> action_client option" where
  "ac_do_set_reply data n handler c =
     (case copy_over_reply (take n data) (ac_reply c) of
        None \<Rightarrow> None
      | Some rep \<Rightarrow> Some (handler (c\<lparr>ac_reply := rep\<rparr>)))"

text \<open>
  The constructor: the resolver is a parameter that gives the endpoints or fails, the body is
  \<open>start_client\<close>.
\<close>

definition start_client :: "action_client \<Rightarrow> client_error + action_client" where
  "start_client c = (case ac_do_connect c of Inl e \<Rightarrow> Inl e | Inr c1 \<Rightarrow> ac_do_read c1)"

definition construct_client ::
    "(string \<Rightarrow> string \<Rightarrow> 'e option) \<Rightarrow> string \<Rightarrow> string \<Rightarrow> action_request \<Rightarrow> client_reply
     \<Rightarrow> client_error + action_client" where
  "construct_client resolve addr port req rep =
     (case resolve addr port of
        None \<Rightarrow> Inl Resolve_failed
      | Some endpoints \<Rightarrow> start_client (new_action_client req rep))"

section \<open>What the client can do\<close>

lemma of_char_char_of: "of_char (char_of (n :: nat)) = (int (n mod 256))"
proof -
  have "(of_char (char_of n) :: int) = int (of_char (char_of n))" by (simp only: of_nat_of_char)
  then show ?thesis by (simp only: of_char_of)
qed

text \<open>The status of a stock reply reads back.\<close>

lemma stock_reply_status: "int_at 0 (cr_head (client_stock_reply st)) = Some (int (status_value st))"
  by (cases st) (simp_all add: int_at_def client_stock_reply_def int_bytes_def status_value_def
      new_client_reply_def upt_conv_Cons of_char_char_of)

text \<open>
  No client is ever made. The resolver fails, or the constructor takes a shared pointer to an object
  that nothing owns yet, which throws.
\<close>

lemma no_client_is_made:
  "construct_client resolve addr port req rep =
     (case resolve addr port of None \<Rightarrow> Inl Resolve_failed | Some endpoints \<Rightarrow> Inl Bad_weak_ptr)"
  by (simp add: construct_client_def start_client_def ac_do_connect_def ac_shared_from_this_def
      new_action_client_def split: option.split)

text \<open>
  If a shared pointer did own it, the constructor would wait with a connect and a read outstanding,
  and what a successful connect sends is 112 bytes that nobody has written.
\<close>

lemma owned_client_waits:
  assumes "ac_owned c"
  shows "start_client c = Inr (c\<lparr>ac_ops := ac_ops c @ [Ac_connect, Ac_read], ac_waiting := True\<rparr>)"
    "on_ac_connect No_error c = Inr (c\<lparr>ac_ops := ac_ops c @ [Ac_write],
       ac_sent := ac_sent c @ replicate 112 None\<rparr>)"
  using assms
  by (simp_all add: start_client_def ac_do_connect_def ac_do_read_def ac_do_write_def on_ac_connect_def
      ac_shared_from_this_def ac_begin_def client_request_size_def)

text \<open>A full buffer, which is all that \<open>async_read\<close> delivers without error, does not fit into the reply.\<close>

lemma set_reply_undefined:
  "ac_do_set_reply data n handler c = None \<longleftrightarrow> 8 < n \<and> 8 < length data"
  by (auto simp: ac_do_set_reply_def copy_over_reply_def)

text \<open>The request reaches the server in one piece of 112 bytes: its parser then is undefined.\<close>

lemma client_request_undefined:
  assumes "length bytes = client_request_size"
  shows "parse_action bytes r = None"
  using assms by (simp add: parse_action_def copy_over_def client_request_size_def)

text \<open>The text a server makes of a reply is far from the 1024 bytes the client's read waits for.\<close>

lemma server_reply_incomplete:
  "length (action_to_buffer rep) < 1024" "length (client_to_buffer crep) < 1024"
  by (simp_all add: action_to_buffer_def client_to_buffer_def)

end
