(* ===== verification/Login_Client.thy ===== *)
theory Login_Client
  imports Complex_Main Asio
begin

text \<open>
  The login dialogue of action/client/old.cpp. The class of its packets and the enumeration of
  their operations are in no file of the repository: they are the parameter \<open>pk\<close>, a record of
  what the dialogue calls. The blocking write and read return what \<open>writes\<close> and \<open>reads\<close> say for
  the round.
\<close>

section \<open>Packets and the terminal\<close>

text \<open>
  \<open>write\<close>, \<open>data\<close> up to \<open>length\<close>, \<open>decode_header\<close> with its effect on the packet, \<open>body_length\<close>,
  the body's bytes replaced by a read, and two values of \<open>Operation\<close>;
  what \<open>print\<close> shows of a packet is left out.
\<close>

record ('p, 'op) packet_class =
  pk_write :: "string \<Rightarrow> string \<Rightarrow> 'p \<Rightarrow> 'p"
  pk_bytes :: "'p \<Rightarrow> string"
  pk_decode_header :: "'p \<Rightarrow> 'op \<times> 'p"
  pk_body_length :: "'p \<Rightarrow> nat"
  pk_body :: "'p \<Rightarrow> string"
  pk_read_into :: "string \<Rightarrow> 'p \<Rightarrow> 'p"
  op_hash :: 'op
  op_login_fail :: 'op

text \<open>\<open>std::getline\<close> into a string; at the end of the input it leaves the empty string.\<close>

definition std_getline :: "string \<Rightarrow> string \<times> string" where
  "std_getline input =
     (let line = takeWhile (\<lambda>c. c \<noteq> LF) input in (line, drop (Suc (length line)) input))"

section \<open>The dialogue\<close>

record 'p login_state =
  lg_input :: string
  lg_packet :: 'p
  lg_sent :: "string list"
  lg_output :: string
  lg_errors :: nat

text \<open>How a round ends: with \<open>return 0\<close>, with \<open>continue\<close>, or with \<open>break\<close>.\<close>

datatype round_end = Round_returns | Round_continues | Round_breaks

definition ask_credentials :: "'p login_state \<Rightarrow> string \<times> 'p login_state" where
  "ask_credentials s =
     (case std_getline (lg_input s) of
        (uid, in1) \<Rightarrow>
          (case std_getline in1 of
             (pwd, in2) \<Rightarrow>
               (uid @ '' '' @ pwd,
                s\<lparr>lg_input := in2, lg_output := lg_output s @ ''ID : '' @ ''PWD: ''\<rparr>)))"

definition send_login ::
    "('p, 'op) packet_class \<Rightarrow> string \<Rightarrow> 'p login_state \<Rightarrow> 'p login_state" where
  "send_login pk tmp_body s =
     (let p = pk_write pk (CHR ''a'' # nat_to_string (length tmp_body)) tmp_body (lg_packet s)
      in s\<lparr>lg_packet := p, lg_sent := lg_sent s @ [pk_bytes pk p]\<rparr>)"

text \<open>
  The tests after the write: the first call of \<open>decode_header\<close> is made only when the write
  succeeded. A read that fails leaves what it has read in the packet; its error is not looked at.
\<close>

definition login_verdict ::
    "('p, 'op) packet_class \<Rightarrow> error_code \<Rightarrow> string \<Rightarrow> 'p login_state \<Rightarrow> round_end \<times> 'p login_state" where
  "login_verdict pk ec received s =
     (let first = (if ec = No_error then pk_decode_header pk (lg_packet s) else (op_login_fail pk, lg_packet s));
          s1 = s\<lparr>lg_packet := snd first\<rparr>
      in if ec = No_error \<and> fst first = op_hash pk then
           (let p = pk_read_into pk (take (pk_body_length pk (snd first)) received) (snd first)
            in (Round_returns,
                s1\<lparr>lg_packet := p,
                  lg_output := lg_output s @ take (pk_body_length pk p) (pk_body pk p)
                    @ ''Do_read_room_list'' @ [LF]\<rparr>))
         else
           (let again = pk_decode_header pk (snd first);
                s2 = s1\<lparr>lg_packet := snd again\<rparr>
            in if fst again = op_login_fail pk then (Round_continues, s2\<lparr>lg_errors := Suc (lg_errors s)\<rparr>)
               else if ec \<noteq> No_error then (Round_breaks, s2\<lparr>lg_errors := Suc (lg_errors s)\<rparr>)
               else (Round_continues, s2)))"

text \<open>The loop and the \<open>return 1\<close> after it.\<close>

function login_rounds ::
    "('p, 'op) packet_class \<Rightarrow> (nat \<Rightarrow> error_code) \<Rightarrow> (nat \<Rightarrow> string) \<Rightarrow> nat \<Rightarrow> 'p login_state
     \<Rightarrow> int \<times> 'p login_state"
  where
  "login_rounds pk writes reads i s =
     (if i < 3 then
        (case ask_credentials s of
           (tmp_body, s1) \<Rightarrow>
             (case login_verdict pk (writes i) (reads i) (send_login pk tmp_body s1) of
                (outcome, s2) \<Rightarrow>
                  if outcome = Round_returns then (0, s2)
                  else if outcome = Round_continues then login_rounds pk writes reads (Suc i) s2
                  else (1, s2)))
      else (1, s))"
  by auto
termination by (relation "measure (\<lambda>(pk, writes, reads, i, s). 3 - i)") auto

declare login_rounds.simps [simp del]

definition do_login ::
    "('p, 'op) packet_class \<Rightarrow> (nat \<Rightarrow> error_code) \<Rightarrow> (nat \<Rightarrow> string) \<Rightarrow> 'p \<Rightarrow> string
     \<Rightarrow> int \<times> 'p login_state" where
  "do_login pk writes reads p input =
     login_rounds pk writes reads 0
       \<lparr>lg_input = input, lg_packet = p, lg_sent = [], lg_output = [], lg_errors = 0\<rparr>"

section \<open>What the dialogue depends on\<close>

text \<open>The first \<open>n\<close> pairs of lines, as the packets carry them.\<close>

fun credentials :: "nat \<Rightarrow> string \<Rightarrow> string list" where
  "credentials 0 input = []"
| "credentials (Suc n) input =
     (let (uid, in1) = std_getline input; (pwd, in2) = std_getline in1
      in (uid @ '' '' @ pwd) # credentials n in2)"

lemma ask_credentials_simps:
  assumes "ask_credentials s = (body, s1)"
  shows "credentials (Suc n) (lg_input s) = body # credentials n (lg_input s1)"
    and "lg_sent s1 = lg_sent s" and "lg_packet s1 = lg_packet s"
  using assms by (auto simp: ask_credentials_def split: prod.splits)

lemma send_login_simps:
  "lg_input (send_login pk body s) = lg_input s"
  "lg_sent (send_login pk body s) = lg_sent s
     @ [pk_bytes pk (pk_write pk (CHR ''a'' # nat_to_string (length body)) body (lg_packet s))]"
  by (simp_all add: send_login_def Let_def)

lemma login_verdict_keeps:
  assumes "login_verdict pk ec received s = (outcome, t)"
  shows "lg_sent t = lg_sent s" and "lg_input t = lg_input s"
  using assms by (auto simp: login_verdict_def Let_def split: if_splits)

text \<open>What the server has sent is looked at only in the round that returns.\<close>

lemma login_verdict_received:
  "fst (login_verdict pk ec received' s) = fst (login_verdict pk ec received s)"
  "fst (login_verdict pk ec received s) \<noteq> Round_returns \<Longrightarrow>
     login_verdict pk ec received' s = login_verdict pk ec received s"
  by (auto simp: login_verdict_def Let_def)

lemma login_rounds_ignore_server:
  "fst (login_rounds pk writes reads' i s) = fst (login_rounds pk writes reads i s)
   \<and> lg_sent (snd (login_rounds pk writes reads' i s)) = lg_sent (snd (login_rounds pk writes reads i s))"
proof (induction pk writes reads i s rule: login_rounds.induct)
  case (1 pk writes reads i s)
  obtain body s1 where ask: "ask_credentials s = (body, s1)" by (cases "ask_credentials s")
  let ?m = "send_login pk body s1"
  obtain e t where v: "login_verdict pk (writes i) (reads i) ?m = (e, t)" by fastforce
  obtain e' t' where v': "login_verdict pk (writes i) (reads' i) ?m = (e', t')" by fastforce
  have same: "e' = e" "e \<noteq> Round_returns \<longrightarrow> t' = t"
    using login_verdict_received [of pk "writes i" "reads' i" ?m "reads i"] v v' by auto
  have "lg_sent t' = lg_sent t" using login_verdict_keeps [OF v] login_verdict_keeps [OF v'] by simp
  moreover have "i < 3 \<Longrightarrow> e = Round_continues \<Longrightarrow>
      fst (login_rounds pk writes reads' (Suc i) t) = fst (login_rounds pk writes reads (Suc i) t)
      \<and> lg_sent (snd (login_rounds pk writes reads' (Suc i) t))
          = lg_sent (snd (login_rounds pk writes reads (Suc i) t))"
    using "1.IH" [of body s1 e t] ask v by simp
  ultimately show ?case
    using ask v v' same by (simp add: login_rounds.simps [of pk writes _ i s])
qed

lemma login_rounds_sent:
  "\<exists>qs. length qs \<le> 3 - i \<and> lg_sent (snd (login_rounds pk writes reads i s)) = lg_sent s
     @ map2 (\<lambda>q body. pk_bytes pk (pk_write pk (CHR ''a'' # nat_to_string (length body)) body q))
         qs (credentials (length qs) (lg_input s))"
proof (induction pk writes reads i s rule: login_rounds.induct)
  case (1 pk writes reads i s)
  let ?f = "\<lambda>q body. pk_bytes pk (pk_write pk (CHR ''a'' # nat_to_string (length body)) body q)"
  obtain body s1 where ask: "ask_credentials s = (body, s1)" by (cases "ask_credentials s")
  obtain e t where v: "login_verdict pk (writes i) (reads i) (send_login pk body s1) = (e, t)" by fastforce
  note keeps = login_verdict_keeps [OF v] ask_credentials_simps [OF ask]
  show ?case
  proof (cases "i < 3 \<and> e = Round_continues")
    case True
    then obtain qs where "length qs \<le> 3 - Suc i"
      "lg_sent (snd (login_rounds pk writes reads (Suc i) t))
        = lg_sent t @ map2 ?f qs (credentials (length qs) (lg_input t))"
      using "1.IH" [of body s1 e t] ask v by auto
    with True ask v keeps show ?thesis
      by (intro exI [of _ "lg_packet s # qs"]) (auto simp: login_rounds.simps [of pk writes reads i s] send_login_simps simp del: credentials.simps)
  next
    case False
    show ?thesis
    proof (cases "i < 3")
      case True
      with False ask v keeps show ?thesis
        by (intro exI [of _ "[lg_packet s]"])
           (auto simp: login_rounds.simps [of pk writes reads i s] send_login_simps simp del: credentials.simps(2))
    next
      case no: False
      then show ?thesis by (intro exI [of _ "[]"]) (simp add: login_rounds.simps [of pk writes reads i s])
    qed
  qed
qed

lemma login_rounds_value: "fst (login_rounds pk writes reads i s) \<in> {0, 1}"
proof (induction pk writes reads i s rule: login_rounds.induct)
  case (1 pk writes reads i s)
  then show ?case
    by (cases "ask_credentials s")
       (auto simp: login_rounds.simps [of pk writes reads i s] split: prod.split)
qed

section \<open>Properties\<close>

text \<open>
  The login asks the user at most three times, sends the pairs of lines it reads in
  order, one packet for each, and returns 0 or 1; and the server has no say in it: the packets
  and the verdict are the same whatever the server sends.
\<close>

theorem login_ignores_the_server:
  "fst (do_login pk writes reads p input) \<in> {0, 1}
   \<and> (\<exists>qs. length qs \<le> 3 \<and> lg_sent (snd (do_login pk writes reads p input))
        = map2 (\<lambda>q body. pk_bytes pk (pk_write pk (CHR ''a'' # nat_to_string (length body)) body q))
            qs (credentials (length qs) input))
   \<and> fst (do_login pk writes reads' p input) = fst (do_login pk writes reads p input)
   \<and> lg_sent (snd (do_login pk writes reads' p input)) = lg_sent (snd (do_login pk writes reads p input))"
proof -
  let ?s = "\<lparr>lg_input = input, lg_packet = p, lg_sent = [], lg_output = [], lg_errors = 0\<rparr>"
  show ?thesis
    using login_rounds_value [of pk writes reads 0 ?s] login_rounds_sent [of 0 pk writes reads ?s]
      login_rounds_ignore_server [of pk writes reads' 0 ?s reads]
    by (simp add: do_login_def)
qed

end
