(* ===== verification/Old_Client.thy ===== *)
theory Old_Client
  imports Login_Client Program_Ends
begin

text \<open>
  The rest of action/client/old.cpp: the class \<open>client\<close>, whose connect handler runs the login, and
  the program, a thread that runs the \<open>io_service\<close> and a main thread that closes the client after a
  second and joins. \<open>main\<close> names a class \<open>chat_client\<close> that no file declares; its constructor is a
  parameter of \<open>old_main\<close>, and the steps are those of the program with the class \<open>client\<close>, which has
  the constructor and the \<open>close\<close> that \<open>main\<close> calls.
\<close>

section \<open>The class client\<close>

datatype old_op = Connect_login | Close_socket

datatype old_socket = Unopened | Connected | Closed

text \<open>
  The operations outstanding in the \<open>io_service\<close>, the socket, and what each call of \<open>do_login\<close> has
  returned and left.
\<close>

record 'p old_client =
  oc_ops :: "old_op list"
  oc_socket :: old_socket
  oc_logins :: "(int \<times> 'p login_state) list"

definition oc_do_connect :: "'p old_client \<Rightarrow> 'p old_client" where
  "oc_do_connect s = s\<lparr>oc_ops := oc_ops s @ [Connect_login]\<rparr>"

definition new_old_client :: "'p old_client" where
  "new_old_client = oc_do_connect \<lparr>oc_ops = [], oc_socket = Unopened, oc_logins = []\<rparr>"

definition oc_write :: "'p old_client \<Rightarrow> 'p old_client" where
  "oc_write s = s"

definition oc_close :: "'p old_client \<Rightarrow> 'p old_client" where
  "oc_close s = s\<lparr>oc_ops := oc_ops s @ [Close_socket]\<rparr>"

definition oc_posted_close :: "'p old_client \<Rightarrow> 'p old_client" where
  "oc_posted_close s = s\<lparr>oc_socket := Closed\<rparr>"

text \<open>
  The handler of \<open>async_connect\<close>; without an error the socket is connected, and the result of
  \<open>do_login\<close> chooses between two empty branches.
\<close>

definition on_oc_connect ::
    "('p, 'op) packet_class \<Rightarrow> (nat \<Rightarrow> error_code) \<Rightarrow> (nat \<Rightarrow> string) \<Rightarrow> 'p \<Rightarrow> string \<Rightarrow> error_code
     \<Rightarrow> 'p old_client \<Rightarrow> 'p old_client" where
  "on_oc_connect pk writes reads p input ec s =
     (if ec = No_error
      then s\<lparr>oc_socket := Connected, oc_logins := oc_logins s @ [do_login pk writes reads p input]\<rparr>
      else s)"

text \<open>The handler of a timer that nothing starts.\<close>

definition old_print :: "error_code \<Rightarrow> string" where
  "old_print ec = ''15Sec'' @ [LF]"

section \<open>The program\<close>

definition old_main ::
    "('it \<Rightarrow> 'c) \<Rightarrow> (string \<Rightarrow> string \<Rightarrow> 'it option) \<Rightarrow> string list \<Rightarrow> 'c main_run" where
  "old_main chat_client resolve args =
     (if length args \<noteq> 2 then Main_usage
      else (case resolve (args ! 0) (args ! 1) of
          None \<Rightarrow> Main_caught
        | Some endpoint_iterator \<Rightarrow> Main_runs (chat_client endpoint_iterator)))"

text \<open>The main thread sleeps, has called \<open>close\<close> and joins, or has returned from \<open>main\<close>.\<close>

datatype old_place = Sleeping | Joining | Ended

record 'p old_program =
  op_client :: "'p old_client"
  op_run_returned :: bool
  op_place :: old_place

definition new_old_program :: "'p old_program" where
  "new_old_program = \<lparr>op_client = new_old_client, op_run_returned = False, op_place = Sleeping\<rparr>"

definition oc_finish :: "old_op \<Rightarrow> 'p old_client \<Rightarrow> 'p old_client" where
  "oc_finish p s = s\<lparr>oc_ops := remove1 p (oc_ops s)\<rparr>"

text \<open>
  The thread completes an operation, and returns from \<open>run\<close> when none is left; a connect whose
  socket has been closed fails. The main thread closes the client and joins.
\<close>

inductive old_step ::
    "('p, 'op) packet_class \<Rightarrow> 'p old_program \<Rightarrow> 'p old_program \<Rightarrow> bool"
  for pk where
  connect_done: "\<not> op_run_returned s \<Longrightarrow> Connect_login \<in> set (oc_ops (op_client s)) \<Longrightarrow>
     (oc_socket (op_client s) = Closed \<Longrightarrow> ec \<noteq> No_error) \<Longrightarrow>
     old_step pk s (s\<lparr>op_client :=
       on_oc_connect pk writes reads p input ec (oc_finish Connect_login (op_client s))\<rparr>)"
| close_done: "\<not> op_run_returned s \<Longrightarrow> Close_socket \<in> set (oc_ops (op_client s)) \<Longrightarrow>
     old_step pk s (s\<lparr>op_client := oc_posted_close (oc_finish Close_socket (op_client s))\<rparr>)"
| run_returns: "\<not> op_run_returned s \<Longrightarrow> oc_ops (op_client s) = [] \<Longrightarrow>
     old_step pk s (s\<lparr>op_run_returned := True\<rparr>)"
| main_closes: "op_place s = Sleeping \<Longrightarrow>
     old_step pk s (s\<lparr>op_client := oc_close (op_client s), op_place := Joining\<rparr>)"
| main_joins: "op_place s = Joining \<Longrightarrow> op_run_returned s \<Longrightarrow>
     old_step pk s (s\<lparr>op_place := Ended\<rparr>)"

section \<open>It ends, and logs in at most once\<close>

text \<open>
  The connect is outstanding until it has completed, and only then there can have been a login,
  one that ended with 0 or 1; once \<open>run\<close> has returned only a close can be left behind.
\<close>

definition old_ok :: "'p old_program \<Rightarrow> bool" where
  "old_ok s \<longleftrightarrow>
     length (filter ((=) Connect_login) (oc_ops (op_client s))) + length (oc_logins (op_client s)) \<le> 1
     \<and> fst ` set (oc_logins (op_client s)) \<subseteq> {0, 1}
     \<and> (op_place s = Ended \<longrightarrow> op_run_returned s)
     \<and> (op_run_returned s \<longrightarrow> set (oc_ops (op_client s)) \<subseteq> {Close_socket})"

fun place_left :: "old_place \<Rightarrow> nat" where
  "place_left Sleeping = 3"
| "place_left Joining = 1"
| "place_left Ended = 0"

definition old_left :: "'p old_program \<Rightarrow> nat" where
  "old_left s = length (oc_ops (op_client s)) + (if op_run_returned s then 0 else 1) + place_left (op_place s)"

lemmas old_defs = on_oc_connect_def oc_posted_close_def oc_finish_def oc_close_def

lemma do_login_value: "fst (do_login pk writes reads p input) \<in> {0, 1}"
  unfolding do_login_def by (rule login_rounds_value)

lemma new_old_program_ok: "old_ok new_old_program"
  by (simp add: old_ok_def new_old_program_def new_old_client_def oc_do_connect_def)

lemma old_step_ok: "old_step pk s t \<Longrightarrow> old_ok s \<Longrightarrow> old_ok t"
proof (induction rule: old_step.induct)
  case (connect_done s ec writes reads p input)
  let ?c = "op_client s" and ?n = "length (filter ((=) Connect_login) (oc_ops (op_client s)))"
  have "filter ((=) Connect_login) (oc_ops ?c) \<noteq> []"
    using connect_done.hyps(2) by (auto simp: filter_empty_conv)
  then have "0 < ?n" by simp
  moreover have "?n + length (oc_logins ?c) \<le> 1" using connect_done.prems by (simp add: old_ok_def)
  ultimately have "length (oc_logins ?c) = 0" and one: "?n = 1" by linarith+
  then have none: "oc_logins ?c = []" by (simp only: length_0_conv)
  have "length (filter ((=) Connect_login) (remove1 Connect_login (oc_ops ?c))) = ?n - 1"
    using connect_done.hyps(2) by (simp add: filter_remove1 length_remove1)
  with one have left: "filter ((=) Connect_login) (remove1 Connect_login (oc_ops ?c)) = []" by simp
  have other: "op_place s = Ended \<longrightarrow> op_run_returned s"
    using connect_done.prems by (simp add: old_ok_def)
  show ?case
    unfolding old_ok_def old_defs
    using none left other connect_done.hyps(1) do_login_value [of pk writes reads p input] by simp
next
  case (close_done s)
  then show ?case by (auto simp: old_ok_def old_defs filter_remove1)
qed (auto simp: old_ok_def old_defs)

lemma old_step_nearer: "old_step pk s t \<Longrightarrow> old_left t < old_left s"
  by (induction rule: old_step.induct)
     (auto simp: old_left_def old_defs length_remove1 dest: length_pos_if_in_set)

lemma old_goes_on:
  assumes "old_ok s" "op_place s \<noteq> Ended"
  shows "\<exists>t. old_step pk s t"
proof (cases "op_place s")
  case Joining
  show ?thesis
  proof (cases "op_run_returned s \<or> oc_ops (op_client s) = []")
    case True
    with Joining main_joins run_returns show ?thesis by blast
  next
    case False
    then obtain p where p: "p \<in> set (oc_ops (op_client s))" using hd_in_set by blast
    show ?thesis
    proof (cases p)
      case Connect_login
      with p False connect_done [of s Other_error] show ?thesis by blast
    next
      case Close_socket
      with p False close_done show ?thesis by blast
    qed
  qed
qed (use assms main_closes in auto)

interpretation old_program: draining old_ok "old_step pk" "\<lambda>s. op_place s = Ended" "measure old_left" for pk
  by unfold_locales (auto intro: old_step_ok old_step_nearer old_goes_on)

text \<open>
  The old client ends: no run of its two threads is infinite, each can be carried on until
  \<open>main\<close> has returned, and stands still only there; and on the way it has logged in at most once,
  with the result 0 or 1 that it ignores.
\<close>

theorem old_client_ends:
  assumes "(old_step pk)\<^sup>*\<^sup>* new_old_program s"
  shows "(\<nexists>f. f 0 = s \<and> (\<forall>i. old_step pk (f i) (f (Suc i))))
    \<and> (\<exists>t. (old_step pk)\<^sup>*\<^sup>* s t \<and> op_place t = Ended)
    \<and> ((\<forall>t. \<not> old_step pk s t) \<longrightarrow> op_place s = Ended)
    \<and> length (oc_logins (op_client s)) \<le> 1 \<and> fst ` set (oc_logins (op_client s)) \<subseteq> {0, 1}"
proof -
  have ok: "old_ok s" by (rule old_program.run_ok [OF assms new_old_program_ok])
  have "\<nexists>f. f 0 = s \<and> (\<forall>i. old_step pk (f i) (f (Suc i)))"
    using old_program.no_infinite_run ok by metis
  moreover have "(\<forall>t. \<not> old_step pk s t) \<longrightarrow> op_place s = Ended"
    using old_goes_on [OF ok] by blast
  moreover have "length (oc_logins (op_client s)) \<le> 1" "fst ` set (oc_logins (op_client s)) \<subseteq> {0, 1}"
    using ok by (simp_all add: old_ok_def)
  ultimately show ?thesis
    using old_program.comes_to_idle [OF ok, of pk] by (intro conjI)
qed

text \<open>A connect that takes longer than the second of \<open>main\<close> never logs in.\<close>

lemma closed_never_logs_in:
  assumes "(old_step pk)\<^sup>*\<^sup>* s t" "oc_socket (op_client s) = Closed"
  shows "oc_socket (op_client t) = Closed \<and> oc_logins (op_client t) = oc_logins (op_client s)"
  using assms
proof (induction rule: rtranclp_induct)
  case (step t u)
  from step.hyps(2) step.IH [OF step.prems] show ?case
    by (induction rule: old_step.induct) (auto simp: old_defs)
qed simp

text \<open>
  The program ends with status 1 exactly on a wrong number of arguments; a host that cannot be
  resolved gives status 0, and so does a login that failed.
\<close>

lemma old_main_status:
  "(exit_status (old_main chat_client resolve args) = Some 1 \<longleftrightarrow> length args \<noteq> 2)
   \<and> (old_main chat_client resolve args = Main_caught \<longleftrightarrow>
        (\<exists>host service. args = [host, service] \<and> resolve host service = None))"
proof (cases "length args = 2")
  case True
  then obtain h p where "args = [h, p]" by (auto simp: numeral_2_eq_2 length_Suc_conv)
  then show ?thesis by (auto simp: old_main_def exit_status_def split: option.split)
qed (auto simp: old_main_def exit_status_def)

end
