(* ===== verification/Size_Test.thy ===== *)
theory Size_Test
  imports Cxx_Prelude
begin

text \<open>
  http_server/test.cpp: a program that prints three sizes and two members of a local object. The size
  of the enumeration is the compiler's choice, the parameter \<open>enum_size\<close>; a member that was never
  written is \<open>None\<close>, and reading it is undefined.
\<close>

record testt =
  tt_x :: "int option"
  tt_y :: "int option"
  tt_str :: string

definition new_testt :: testt where
  "new_testt = \<lparr>tt_x = None, tt_y = None, tt_str = []\<rparr>"

definition print_x :: "testt \<Rightarrow> string option" where
  "print_x t = map_option (\<lambda>x. int_to_string x @ [LF]) (tt_x t)"

definition print_str :: "testt \<Rightarrow> string" where
  "print_str t = tt_str t @ [LF]"

definition size_main :: "nat \<Rightarrow> string option" where
  "size_main enum_size =
     (let sizes = concat (replicate 3 (nat_to_string enum_size @ [LF]));
          ttt = new_testt
      in (case print_x ttt of
            None \<Rightarrow> None
          | Some line \<Rightarrow> Some (sizes @ line @ print_str ttt)))"

text \<open>So the program is undefined: it prints the member \<open>x\<close>, which nothing has written.\<close>

lemma size_main_undefined: "size_main enum_size = None"
  by (simp add: size_main_def Let_def print_x_def new_testt_def)

end
