(* ===== verification/Timer_Counter.thy ===== *)
theory Timer_Counter
  imports Complex_Main Cxx_Prelude
begin

text \<open>
  The timer programs with one thread: boost_tut/tut03.cpp, whose handler gets pointers to the
  timer and the count, and boost_tut/tut04.cpp, where both are members of a class; and before them
  boost_tut/tut01.cpp and boost_tut/tut02.cpp, which print once. A timer is
  its expiry time in seconds and the number of its outstanding waits; \<open>io_service::run\<close> calls a
  handler at the expiry time and returns when no wait is left. What is printed is kept with the
  time at which it is.
\<close>

section \<open>The programs\<close>

record timer_state =
  timer_now :: nat
  timer_expiry :: nat
  timer_waits :: nat
  timer_count :: int
  timer_shown :: "(nat \<times> int) list"

definition async_wait :: "timer_state \<Rightarrow> timer_state" where
  "async_wait s = s\<lparr>timer_waits := Suc (timer_waits s)\<rparr>"

definition expires_at :: "nat \<Rightarrow> timer_state \<Rightarrow> timer_state" where
  "expires_at e s = s\<lparr>timer_expiry := e\<rparr>"

text \<open>The wait that is over when its handler is called.\<close>

definition expire :: "timer_state \<Rightarrow> timer_state" where
  "expire s = s\<lparr>timer_now := max (timer_now s) (timer_expiry s), timer_waits := timer_waits s - 1\<rparr>"

definition print03 :: "timer_state \<Rightarrow> timer_state" where
  "print03 s =
     (if timer_count s < 5 then
        let s1 = s\<lparr>timer_shown := timer_shown s @ [(timer_now s, timer_count s)]\<rparr>;
            s2 = s1\<lparr>timer_count := timer_count s1 + 1\<rparr>
        in async_wait (expires_at (timer_expiry s2 + 1) s2)
      else s)"

definition main03 :: timer_state where
  "main03 = async_wait \<lparr>timer_now = 0, timer_expiry = 1, timer_waits = 0, timer_count = 0, timer_shown = []\<rparr>"

definition printer_print :: "timer_state \<Rightarrow> timer_state" where
  "printer_print s =
     (if timer_count s < 5 then
        async_wait (expires_at (timer_expiry s + 1)
          (s\<lparr>timer_shown := timer_shown s @ [(timer_now s, timer_count s)],
             timer_count := timer_count s + 1\<rparr>))
      else s)"

definition new_printer :: timer_state where
  "new_printer = async_wait \<lparr>timer_now = 0, timer_expiry = 1, timer_waits = 0, timer_count = 0, timer_shown = []\<rparr>"

text \<open>
  \<open>run\<close> with the one or the other handler. That it returns is the termination of the functions:
  a call of the handler uses up a wait or a step of the count.
\<close>

definition timer_work :: "timer_state \<Rightarrow> nat" where
  "timer_work s = timer_waits s + nat (5 - timer_count s)"

lemma print03_work: "timer_waits s \<noteq> 0 \<Longrightarrow> timer_work (print03 (expire s)) < timer_work s"
  by (simp add: print03_def expire_def async_wait_def expires_at_def timer_work_def)

lemma printer_print_work: "timer_waits s \<noteq> 0 \<Longrightarrow> timer_work (printer_print (expire s)) < timer_work s"
  by (simp add: printer_print_def expire_def async_wait_def expires_at_def timer_work_def)

function run03 :: "timer_state \<Rightarrow> timer_state" where
  "run03 s = (if timer_waits s = 0 then s else run03 (print03 (expire s)))"
  by auto
termination by (relation "measure timer_work") (simp_all add: print03_work)

function run04 :: "timer_state \<Rightarrow> timer_state" where
  "run04 s = (if timer_waits s = 0 then s else run04 (printer_print (expire s)))"
  by auto
termination by (relation "measure timer_work") (simp_all add: printer_print_work)

declare run03.simps [simp del] run04.simps [simp del]

text \<open>
  What the two programs print: a line for each call that counts, the first with the error code of a
  wait nobody has cancelled; and at the end a line of \<open>main\<close>, or of the destructor.
\<close>

definition output03 :: string where
  "output03 =
     (let s = run03 main03
      in concat (map (\<lambda>(t, k). int_to_string k @ '' system:0'' @ [LF]) (timer_shown s))
         @ ''Final count is '' @ int_to_string (timer_count s) @ [LF])"

definition printer_destroyed :: "timer_state \<Rightarrow> string" where
  "printer_destroyed s = ''FINAL count is '' @ int_to_string (timer_count s) @ [LF]"

definition output04 :: string where
  "output04 =
     (let s = run04 new_printer
      in concat (map (\<lambda>(t, k). int_to_string k @ [LF]) (timer_shown s)) @ printer_destroyed s)"

section \<open>The programs that print once\<close>

text \<open>\<open>wait\<close> blocks until the expiry time.\<close>

definition blocking_wait :: "timer_state \<Rightarrow> timer_state" where
  "blocking_wait s = s\<lparr>timer_now := max (timer_now s) (timer_expiry s)\<rparr>"

definition timer_of_five :: timer_state where
  "timer_of_five = \<lparr>timer_now = 0, timer_expiry = 5, timer_waits = 0, timer_count = 0, timer_shown = []\<rparr>"

definition main01 :: "(nat \<times> string) list" where
  "main01 = (let s = blocking_wait timer_of_five in [(timer_now s, ''Hello, World!'' @ [LF])])"

text \<open>The handler prints the error code, too: that of a wait nobody has cancelled.\<close>

definition print02 :: string where
  "print02 = ''Hello,world!'' @ [LF] @ ''system:0'' @ [LF]"

function run02 :: "timer_state \<Rightarrow> (nat \<times> string) list" where
  "run02 s = (if timer_waits s = 0 then [] else (timer_now (expire s), print02) # run02 (expire s))"
  by auto
termination by (relation "measure timer_waits") (simp_all add: expire_def)

declare run02.simps [simp del]

definition main02 :: "(nat \<times> string) list" where
  "main02 = run02 (async_wait timer_of_five)"

text \<open>The handler is called at the time at which the blocking wait returns, once, and \<open>run\<close> returns.\<close>

lemma blocking_and_async_agree:
  "map fst main01 = map fst main02 \<and> main02 = [(5, print02)]"
  by (simp add: main01_def main02_def timer_of_five_def blocking_wait_def async_wait_def
      run02.simps expire_def Let_def)

section \<open>What they do\<close>

lemma handlers_agree: "print03 s = printer_print s"
  by (simp add: print03_def printer_print_def Let_def)

lemma run_agree: "run03 s = run04 s"
proof (induction s rule: run03.induct)
  case (1 s)
  then show ?case by (simp add: run03.simps [of s] run04.simps [of s] handlers_agree)
qed

text \<open>A run with one wait outstanding, from a count that is still to be raised \<open>n\<close> times.\<close>

lemma run04_counts:
  "timer_waits s = 1 \<Longrightarrow> timer_count s = 5 - int n \<Longrightarrow> timer_now s \<le> timer_expiry s \<Longrightarrow>
     run04 s = s\<lparr>timer_now := timer_expiry s + n, timer_expiry := timer_expiry s + n, timer_waits := 0,
       timer_count := 5,
       timer_shown := timer_shown s @ map (\<lambda>k. (timer_expiry s + k, timer_count s + int k)) [0..<n]\<rparr>"
proof (induction n arbitrary: s)
  case 0
  let ?t = "s\<lparr>timer_now := timer_expiry s, timer_waits := 0\<rparr>"
  have "run04 s = run04 ?t"
    using 0 by (simp add: run04.simps [of s] printer_print_def expire_def max_absorb2)
  also have "\<dots> = ?t" by (simp add: run04.simps [of ?t])
  finally show ?case using 0 by (cases s) simp
next
  case (Suc n)
  let ?t = "printer_print (expire s)"
  have t: "?t = s\<lparr>timer_now := timer_expiry s, timer_expiry := timer_expiry s + 1, timer_waits := 1,
      timer_count := 5 - int n,
      timer_shown := timer_shown s @ [(timer_expiry s, timer_count s)]\<rparr>"
    using Suc.prems by (simp add: printer_print_def expire_def async_wait_def expires_at_def max_absorb2)
  have "map (\<lambda>k. (timer_expiry s + k, timer_count s + int k)) [0..<Suc n] =
      (timer_expiry s, timer_count s)
        # map (\<lambda>k. (timer_expiry s + 1 + k, timer_count s + 1 + int k)) [0..<n]"
    by (simp add: upt_conv_Cons map_Suc_upt [symmetric] del: upt_Suc)
  then show ?case
    using Suc.IH [of ?t] Suc.prems by (simp add: run04.simps [of s] t)
qed

section \<open>Property\<close>

text \<open>
  Both programs end: \<open>run\<close> returns after six calls of the handler, at second 6,
  with the count 5, having printed 0 to 4 at the seconds 1 to 5; the program with the pointers
  does the same as the one with the members.
\<close>

theorem timers_count_to_five:
  "run03 main03 = run04 new_printer
   \<and> run04 new_printer = \<lparr>timer_now = 6, timer_expiry = 6, timer_waits = 0, timer_count = 5,
       timer_shown = [(1, 0), (2, 1), (3, 2), (4, 3), (5, 4)]\<rparr>"
proof -
  have "run04 new_printer = \<lparr>timer_now = 6, timer_expiry = 6, timer_waits = 0, timer_count = 5,
       timer_shown = [(1, 0), (2, 1), (3, 2), (4, 3), (5, 4)]\<rparr>"
    using run04_counts [of new_printer 5] by (simp add: new_printer_def async_wait_def upt_rec)
  then show ?thesis by (simp add: run_agree main03_def new_printer_def)
qed

text \<open>The texts they leave on the terminal.\<close>

lemma timer_outputs:
  "output03 = ''0 system:0'' @ [LF] @ ''1 system:0'' @ [LF] @ ''2 system:0'' @ [LF] @ ''3 system:0'' @ [LF]
     @ ''4 system:0'' @ [LF] @ ''Final count is 5'' @ [LF]"
  "output04 = ''0'' @ [LF] @ ''1'' @ [LF] @ ''2'' @ [LF] @ ''3'' @ [LF] @ ''4'' @ [LF]
     @ ''FINAL count is 5'' @ [LF]"
proof -
  have "run04 new_printer = \<lparr>timer_now = 6, timer_expiry = 6, timer_waits = 0, timer_count = 5,
      timer_shown = [(1, 0), (2, 1), (3, 2), (4, 3), (5, 4)]\<rparr>"
    using run04_counts [of new_printer 5] by (simp add: new_printer_def async_wait_def upt_rec)
  moreover have "main03 = new_printer" by (simp add: main03_def new_printer_def)
  ultimately show
    "output03 = ''0 system:0'' @ [LF] @ ''1 system:0'' @ [LF] @ ''2 system:0'' @ [LF] @ ''3 system:0'' @ [LF]
       @ ''4 system:0'' @ [LF] @ ''Final count is 5'' @ [LF]"
    "output04 = ''0'' @ [LF] @ ''1'' @ [LF] @ ''2'' @ [LF] @ ''3'' @ [LF] @ ''4'' @ [LF]
       @ ''FINAL count is 5'' @ [LF]"
    by (simp_all add: output03_def output04_def printer_destroyed_def run_agree int_to_string_def
        nat_to_string.simps dec_digit_chars)
qed

end
