(* ===== verification/Strand_Printer.thy ===== *)
theory Strand_Printer
  imports Program_Ends Cxx_Prelude
begin

text \<open>
  boost_tut/tut05.cpp: two timers whose handlers count together, run by two threads. The waits
  that a handler starts are wrapped in a strand, but the first two, of the constructor, are not.
  The handlers are cut into the pieces that are atomic: the comparison of the count, the load
  and the store of its increment, and the start of the next wait. Each of the two threads can
  run one handler, so no more are ever held back by the threads. What is printed is left out.
\<close>

section \<open>The program\<close>

datatype timer_id = Timer1 | Timer2

fun other :: "timer_id \<Rightarrow> timer_id" where
  "other Timer1 = Timer2"
| "other Timer2 = Timer1"

text \<open>Where the handler of a timer is, and whether it is wrapped in the strand.\<close>

datatype handler_pc =
    Waiting bool
  | Checked bool
  | Loaded bool nat
  | Stored bool
  | Stopped

record strand_printer =
  print_count :: nat
  print_pc :: "timer_id \<Rightarrow> handler_pc"

fun strand_held :: "handler_pc \<Rightarrow> bool" where
  "strand_held (Checked w) = w"
| "strand_held (Loaded w v) = w"
| "strand_held (Stored w) = w"
| "strand_held _ = False"

definition set_pc :: "timer_id \<Rightarrow> handler_pc \<Rightarrow> strand_printer \<Rightarrow> strand_printer" where
  "set_pc i c s = s\<lparr>print_pc := (print_pc s)(i := c)\<rparr>"

definition new_strand_printer :: strand_printer where
  "new_strand_printer = \<lparr>print_count = 0, print_pc = (\<lambda>i. Waiting False)\<rparr>"

text \<open>
  The next piece of the handler of timer \<open>i\<close>; \<open>None\<close> if there is none, or if it must wait for the
  strand.
\<close>

definition print_step :: "timer_id \<Rightarrow> strand_printer \<Rightarrow> strand_printer option" where
  "print_step i s =
     (case print_pc s i of
        Waiting w \<Rightarrow>
          if w \<and> strand_held (print_pc s (other i)) then None
          else Some (set_pc i (if print_count s < 10 then Checked w else Stopped) s)
      | Checked w \<Rightarrow> Some (set_pc i (Loaded w (print_count s)) s)
      | Loaded w v \<Rightarrow> Some (set_pc i (Stored w) (s\<lparr>print_count := Suc v\<rparr>))
      | Stored w \<Rightarrow> Some (set_pc i (Waiting True) s)
      | Stopped \<Rightarrow> None)"

text \<open>The line of the destructor, which runs when both threads have returned from \<open>run\<close>.\<close>

definition strand_printer_destroyed :: "strand_printer \<Rightarrow> string" where
  "strand_printer_destroyed s = ''FINAL count is '' @ nat_to_string (print_count s) @ [LF]"

inductive printer_reachable :: "strand_printer \<Rightarrow> bool" where
  printer_init: "printer_reachable new_strand_printer"
| printer_next: "printer_reachable s \<Longrightarrow> print_step i s = Some t \<Longrightarrow> printer_reachable t"

fun run_schedule :: "timer_id list \<Rightarrow> strand_printer \<Rightarrow> strand_printer option" where
  "run_schedule [] s = Some s"
| "run_schedule (i # is) s = Option.bind (print_step i s) (run_schedule is)"

lemma run_schedule_reachable:
  "printer_reachable s \<Longrightarrow> run_schedule is s = Some t \<Longrightarrow> printer_reachable t"
proof (induction "is" arbitrary: s)
  case (Cons i "is")
  then show ?case using printer_next by (auto simp: bind_eq_Some_conv)
qed simp

section \<open>The invariant\<close>

fun quiet :: "handler_pc \<Rightarrow> bool" where
  "quiet (Checked w) = False"
| "quiet (Loaded w v) = False"
| "quiet _ = True"

definition pc_ok :: "nat \<Rightarrow> handler_pc \<Rightarrow> handler_pc \<Rightarrow> bool" where
  "pc_ok n c d = (case c of
       Checked w \<Rightarrow> n \<le> 10 \<and> (n = 10 \<longrightarrow> quiet d)
     | Loaded w v \<Rightarrow> v \<le> 10 \<and> (v = 10 \<longrightarrow> n = 10 \<and> quiet d)
     | _ \<Rightarrow> True)"

definition printer_ok :: "strand_printer \<Rightarrow> bool" where
  "printer_ok s \<longleftrightarrow> print_count s \<le> 11
     \<and> pc_ok (print_count s) (print_pc s Timer1) (print_pc s Timer2)
     \<and> pc_ok (print_count s) (print_pc s Timer2) (print_pc s Timer1)
     \<and> \<not> (strand_held (print_pc s Timer1) \<and> strand_held (print_pc s Timer2))
     \<and> (print_pc s Timer1 = Stopped \<and> print_pc s Timer2 = Stopped \<longrightarrow> 10 \<le> print_count s)"

lemma set_pc_simps [simp]:
  "print_count (set_pc i c s) = print_count s"
  "print_pc (set_pc i c s) = (print_pc s)(i := c)"
  by (simp_all add: set_pc_def)

lemma print_step_ok:
  assumes "print_step i s = Some t" "printer_ok s"
  shows "printer_ok t"
proof (cases i)
  case Timer1
  with assms show ?thesis
    by (cases "print_pc s Timer1"; cases "print_pc s Timer2")
       (auto simp: print_step_def printer_ok_def pc_ok_def split: if_splits)
next
  case Timer2
  with assms show ?thesis
    by (cases "print_pc s Timer2"; cases "print_pc s Timer1")
       (auto simp: print_step_def printer_ok_def pc_ok_def split: if_splits)
qed

lemma printer_reachable_ok: "printer_reachable s \<Longrightarrow> printer_ok s"
proof (induction rule: printer_reachable.induct)
  case printer_init
  show ?case by (simp add: printer_ok_def pc_ok_def new_strand_printer_def)
qed (rule print_step_ok)

lemma all_timers: "(\<forall>i. P i) \<longleftrightarrow> P Timer1 \<and> P Timer2"
  by (metis timer_id.exhaust)

section \<open>Termination\<close>

text \<open>
  Every step decreases, lexicographically: the steps left of the two handlers outside the strand;
  the handlers inside that have loaded a count that is no longer current; the distance of the
  count from 11; and the place in the handler.
\<close>

fun unwrapped_left :: "handler_pc \<Rightarrow> nat" where
  "unwrapped_left (Waiting w) = (if w then 0 else 4)"
| "unwrapped_left (Checked w) = (if w then 0 else 3)"
| "unwrapped_left (Loaded w v) = (if w then 0 else 2)"
| "unwrapped_left (Stored w) = (if w then 0 else 1)"
| "unwrapped_left Stopped = 0"

fun stale :: "nat \<Rightarrow> handler_pc \<Rightarrow> nat" where
  "stale n (Loaded w v) = (if w \<and> v \<noteq> n then 1 else 0)"
| "stale n _ = 0"

fun pc_rank :: "handler_pc \<Rightarrow> nat" where
  "pc_rank (Stored w) = 4"
| "pc_rank (Waiting w) = 3"
| "pc_rank (Checked w) = 2"
| "pc_rank (Loaded w v) = 1"
| "pc_rank Stopped = 0"

definition both :: "(handler_pc \<Rightarrow> nat) \<Rightarrow> strand_printer \<Rightarrow> nat" where
  "both f s = f (print_pc s Timer1) + f (print_pc s Timer2)"

definition printer_measures :: "(strand_printer \<times> strand_printer) set" where
  "printer_measures = measures
     [both unwrapped_left, \<lambda>s. both (stale (print_count s)) s, \<lambda>s. 11 - print_count s, both pc_rank]"

lemma other_neq [simp]: "other i \<noteq> i" "i \<noteq> other i"
  by (cases i; simp)+

lemma both_split: "both f s = f (print_pc s i) + f (print_pc s (other i))"
  by (cases i) (simp_all add: both_def)

lemma printer_ok_at:
  assumes "printer_ok s"
  shows "\<not> (strand_held (print_pc s i) \<and> strand_held (print_pc s (other i)))"
    "pc_ok (print_count s) (print_pc s i) (print_pc s (other i))"
  using assms unfolding printer_ok_def by (cases i; auto)+

lemma stale_unheld: "\<not> strand_held c \<Longrightarrow> stale n c = 0"
  by (cases c) auto

lemma print_step_decreases:
  assumes step: "print_step i s = Some t" and ok: "printer_ok s"
  shows "(t, s) \<in> printer_measures"
proof (cases "print_pc s i")
  case (Waiting w)
  with step show ?thesis
    by (cases w) (auto simp: print_step_def printer_measures_def both_split [of _ _ i] split: if_splits)
next
  case (Checked w)
  with step show ?thesis
    by (cases w) (auto simp: print_step_def printer_measures_def both_split [of _ _ i])
next
  case (Loaded w v)
  have "w \<Longrightarrow> stale n (print_pc s (other i)) = 0" for n
    using printer_ok_at(1) [OF ok, of i] Loaded by (intro stale_unheld) simp
  moreover have "v \<le> 10" using printer_ok_at(2) [OF ok, of i] Loaded by (simp add: pc_ok_def)
  ultimately show ?thesis
    using step Loaded
    by (cases w; cases "v = print_count s")
       (auto simp: print_step_def printer_measures_def both_split [of _ _ i])
next
  case (Stored w)
  with step show ?thesis
    by (cases w) (auto simp: print_step_def printer_measures_def both_split [of _ _ i])
next
  case Stopped
  with step show ?thesis by (simp add: print_step_def)
qed

text \<open>The handlers as a program that comes to an end: both timers have stopped.\<close>

definition thread_step :: "strand_printer \<Rightarrow> strand_printer \<Rightarrow> bool" where
  "thread_step s t \<longleftrightarrow> (\<exists>i. print_step i s = Some t)"

definition both_stopped :: "strand_printer \<Rightarrow> bool" where
  "both_stopped s \<longleftrightarrow> print_pc s Timer1 = Stopped \<and> print_pc s Timer2 = Stopped"

lemma stopped_iff:
  "printer_ok s \<Longrightarrow> (\<forall>i. print_step i s = None) \<longleftrightarrow> both_stopped s"
  by (auto simp: all_timers both_stopped_def print_step_def split: handler_pc.splits if_splits)

interpretation threads: draining printer_ok thread_step both_stopped printer_measures
proof
  show "wf printer_measures" by (simp add: printer_measures_def)
  show "\<exists>t. thread_step s t" if "printer_ok s" "\<not> both_stopped s" for s
    using stopped_iff [OF that(1)] that(2) by (auto simp: thread_step_def)
qed (auto simp: thread_step_def intro: print_step_ok print_step_decreases)

section \<open>Properties\<close>

text \<open>
  The two threads come to an end: no run of the program is infinite, however the
  scheduler interleaves the handlers, and although the race can set the count back.
\<close>

theorem strand_printer_terminates:
  "wf {(t, s). printer_reachable s \<and> (\<exists>i. print_step i s = Some t)}"
proof (rule wf_subset)
  show "wf printer_measures" by (simp add: printer_measures_def)
  show "{(t, s). printer_reachable s \<and> (\<exists>i. print_step i s = Some t)} \<subseteq> printer_measures"
    using print_step_decreases printer_reachable_ok by auto
qed

text \<open>
  The handlers never deadlock on the strand: when neither can go on both timers
  have stopped, and then the count is 10, or 11 after a race.
\<close>

theorem strand_printer_ends_counted:
  assumes "printer_reachable s" "print_step Timer1 s = None" "print_step Timer2 s = None"
  shows "print_pc s Timer1 = Stopped \<and> print_pc s Timer2 = Stopped \<and> print_count s \<in> {10, 11}"
proof -
  have ok: "printer_ok s" by (rule printer_reachable_ok [OF assms(1)])
  have "print_pc s Timer1 = Stopped \<and> print_pc s Timer2 = Stopped"
    using assms(2,3) by (auto simp: print_step_def split: handler_pc.splits if_splits)
  with ok show ?thesis by (auto simp: printer_ok_def)
qed

text \<open>
  The handler of the first timer, outside the strand, stands still between its comparison and
  its increment while the second timer counts to ten.
\<close>

definition late_increment :: "timer_id list" where
  "late_increment = Timer1 # replicate 41 Timer2 @ replicate 4 Timer1"

lemma late_increment_run:
  "\<exists>s. run_schedule late_increment new_strand_printer = Some s \<and> print_count s = 11
     \<and> print_pc s Timer1 = Stopped \<and> print_pc s Timer2 = Stopped"
proof -
  have "(case run_schedule late_increment new_strand_printer of
      None \<Rightarrow> False
    | Some s \<Rightarrow> print_count s = 11 \<and> print_pc s Timer1 = Stopped \<and> print_pc s Timer2 = Stopped)"
    by code_simp
  then show ?thesis by (auto split: option.splits)
qed

theorem strand_printer_ends_counted_witness:
  "\<exists>s. printer_reachable s \<and> print_count s = 11 \<and> print_count s \<in> {10, 11}"
proof -
  obtain s where s: "run_schedule late_increment new_strand_printer = Some s" "print_count s = 11"
    "print_pc s Timer1 = Stopped" "print_pc s Timer2 = Stopped"
    using late_increment_run by auto
  then have "printer_reachable s" using run_schedule_reachable [OF printer_init] by blast
  moreover have "print_step i s = None" for i using s(3,4) by (cases i) (simp_all add: print_step_def)
  ultimately show ?thesis using strand_printer_ends_counted s(2) by blast
qed

text \<open>
  Property C17. The two threads come to an end, however the scheduler interleaves the handlers,
  and although the race can set the count back: no run is infinite, every state leads to one in
  which both timers have stopped, the handlers stand still only there, so that the strand never
  deadlocks, and the count then is 10, or 11 after a race.
\<close>

theorem strand_printer_comes_to_its_end:
  assumes "printer_reachable s"
  shows "wf {(t, s). printer_reachable s \<and> thread_step s t}
    \<and> (\<exists>t. thread_step\<^sup>*\<^sup>* s t \<and> both_stopped t)
    \<and> ((\<forall>i. print_step i s = None) \<longleftrightarrow> both_stopped s)
    \<and> (both_stopped s \<longrightarrow> print_count s \<in> {10, 11})"
proof -
  have ok: "printer_ok s" by (rule printer_reachable_ok [OF assms])
  have "wf {(t, s). printer_reachable s \<and> thread_step s t}"
    by (rule wf_subset [OF threads.wf_steps]) (auto intro: printer_reachable_ok)
  moreover have "both_stopped s \<longrightarrow> print_count s \<in> {10, 11}"
    using ok by (auto simp: both_stopped_def printer_ok_def)
  ultimately show ?thesis
    using threads.comes_to_idle [OF ok] stopped_iff [OF ok] by (intro conjI)
qed

theorem strand_printer_comes_to_its_end_witness:
  "\<exists>s. printer_reachable s \<and> both_stopped s \<and> print_count s = 11 \<and> print_count s \<in> {10, 11}"
proof -
  obtain s where s: "run_schedule late_increment new_strand_printer = Some s" "print_count s = 11"
    "both_stopped s"
    using late_increment_run by (auto simp: both_stopped_def)
  then have "printer_reachable s" using run_schedule_reachable [OF printer_init] by blast
  from strand_printer_comes_to_its_end [OF this] this s show ?thesis by blast
qed

text \<open>So the last line of the program is one of two.\<close>

lemma strand_printer_says:
  assumes "printer_reachable s" "both_stopped s"
  shows "strand_printer_destroyed s \<in> {''FINAL count is 10'' @ [LF], ''FINAL count is 11'' @ [LF]}"
proof -
  have "print_count s \<in> {10, 11}"
    using printer_reachable_ok [OF assms(1)] assms(2) by (auto simp: both_stopped_def printer_ok_def)
  then show ?thesis
    by (auto simp: strand_printer_destroyed_def nat_to_string.simps [of 10] nat_to_string.simps [of 11]
        nat_to_string.simps [of "Suc 0"] dec_digit_chars)
qed

text \<open>
  The strand keeps the handlers it wraps apart, but not the first two: both can
  have loaded the count 0, so that one of two increments is lost, and a run can end with 11.
\<close>

theorem unwrapped_waits_race:
  "(\<exists>s t. printer_reachable s \<and> print_pc s Timer1 = Loaded False 0 \<and> print_pc s Timer2 = Loaded False 0
      \<and> run_schedule [Timer1, Timer2] s = Some t \<and> print_count t = 1)
   \<and> (\<exists>s. printer_reachable s \<and> print_count s = 11 \<and> print_pc s = (\<lambda>_. Stopped))"
proof -
  let ?s = "\<lparr>print_count = 0, print_pc = (\<lambda>_. Loaded False 0)\<rparr>"
  have "run_schedule [Timer1, Timer2, Timer1, Timer2] new_strand_printer = Some ?s"
    using all_timers by (simp add: print_step_def new_strand_printer_def set_pc_def fun_eq_iff)
  then have "printer_reachable ?s" by (rule run_schedule_reachable [OF printer_init])
  moreover have "\<exists>t. run_schedule [Timer1, Timer2] ?s = Some t \<and> print_count t = 1"
    by (simp add: print_step_def set_pc_def)
  moreover obtain s where "run_schedule late_increment new_strand_printer = Some s" "print_count s = 11"
    "print_pc s Timer1 = Stopped" "print_pc s Timer2 = Stopped"
    using late_increment_run by auto
  moreover from this have "print_pc s = (\<lambda>_. Stopped)"
    using all_timers by (simp add: fun_eq_iff)
  ultimately show ?thesis using run_schedule_reachable [OF printer_init] by fastforce
qed

end
