(* ===== verification/Spec2Isabelle.thy ===== *)
theory Spec2Isabelle
  imports Program_Starts Chat_Log Http_Shutdown Action_Shutdown Daytime_Clients Action_Client Old_Client Size_Test Timer_Counter Strand_Printer
begin

text \<open>
  A verification library for the network programs of this repository, all of them C++ on
  Boost.Asio: an HTTP file server (http_server), a chat server and its client (boost_chat), echo
  servers with custom handler memory (boost_alloc), the prototype of a service that answers
  requests from a database, with its clients (action), the daytime servers and clients (boost_tcp, boost_udp,
  boost_comb, boost_future, boost_buffer), the timer programs (boost_tut), and the log library
  (ctutkernel).

  \<^bold>\<open>How the programs are modelled.\<close> Each program is a set of completion handlers that asio
  calls one at a time. The state of a program is a record: its objects by address, its
  containers, and the list of operations it has outstanding in the \<open>io_service\<close>. A function of the
  code that runs to its end without waiting is a function on that record; starting an
  asynchronous operation adds it to the list, and the lambda given to it is a definition of its
  own (\<open>on_read\<close>, \<open>on_sent\<close>, ...) that takes what asio passes: the error code and the bytes. A
  step of a program (\<open>http_step\<close>, \<open>chat_step\<close>, \<open>client_step\<close>, \<open>act_step\<close>, \<open>echo_reachable\<close>,
  \<open>echo_server_reachable\<close>, \<open>tcp_step\<close>, \<open>udp_run\<close>, \<open>comb_run\<close>, \<open>rc_reachable\<close>, \<open>print_step\<close>) lets asio
  complete any outstanding operation with any result its documentation allows; those conditions
  are the premises of the steps. Destructors run by shared pointers are steps too. Undefined
  behaviour of C++ (signed overflow, access outside an array, use of an uninitialised or freed
  object) is the result \<open>None\<close>; a reachable state has not run into it. In three places the code reads
  memory that nobody has written or that lies behind an array, on its way to what it is for: the
  log of a reply's buffers in the HTTP server, the log of the echo session's buffer, and the byte
  the synchronous UDP server received. What such a read finds is a parameter there (\<open>beyond\<close>,
  \<open>junk\<close>), a value or \<open>None\<close>. C++ has it \<open>None\<close> everywhere, and then every reply of the HTTP
  server is undefined; the theorems hold for every value of the parameter and say what depends on
  it. Strings are lists of
  characters, \<open>char\<close> is signed, \<open>int\<close> has 32 bits and \<open>std::size_t\<close> 64.

  \<^bold>\<open>Theories.\<close>
  \<^item> Cxx_Prelude: integers, characters, the parts of the C and C++ libraries the code calls, and
    \<open>std::set\<close> as a sorted list.
  \<^item> Asio: error codes, and the locale \<open>registry\<close> of a set of shared pointers that keeps sessions
    alive; the connection manager and the chat room are its instances.
  \<^item> Http_Message: \<open>struct header\<close> and \<open>struct request\<close>.
  \<^item> Incremental_Machine: the locale of a parser that is fed a stream in pieces.
  \<^item> Http_Request_Parser: request_parser.cpp and request_parser.hpp; \<open>consume\<close> and \<open>parse\<close>, an
    instance of the locale, with the invariant of the parser.
  \<^item> Http_Request_Grammar: the messages of the protocol, and which input the parser accepts in
    each of its states.
  \<^item> Http_Reply: reply.hpp and reply.cpp; the buffers of a reply, the stock replies, a reader of
    replies, and the locale \<open>request_service\<close> of handlers whose replies are readable.
  \<^item> Http_Request_Handler: request_handler.cpp and mime_types.cpp; the file system is a parameter
    \<open>files\<close>, the bytes of a file by its name.
  \<^item> Http_Connection: connection.cpp and connection_manager.cpp.
  \<^item> Http_Server: server.cpp and the process; its invariant \<open>http_ok\<close>.
  \<^item> Program_Ends: the locale \<open>draining\<close> of step relations that come to an end; the shutdown of both
    HTTP servers, the threads of tut05.cpp and the old client are its instances.
  \<^item> Http_Shutdown: the steps of the HTTP server after a stop signal.
  \<^item> Write_Queue: the locale of a queue of which the front is being written; the chat session and
    the chat client are its instances.
  \<^item> Chat_Message: chat_message.hpp.
  \<^item> Chat_Server: chat_server.cpp, its room, sessions and acceptor.
  \<^item> Chat_Service: the process of the chat server; its invariant \<open>chat_ok\<close>, the framing of a
    session's input, and what each client is sent.
  \<^item> Chat_Log: the room's log as a merge of the frames of all inputs; \<open>chat_history\<close> is a run with its
    sessions numbered.
  \<^item> Chat_Client: chat_client.cpp, with its steps and invariant.
  \<^item> Chat_Conversation: the server and a client together, when the client reads what a session
    of the server has written.
  \<^item> Chat_Main: the \<open>main\<close> functions of both chat programs, the input loop of the client and the
    servers of several ports in one process; the client as its two threads, interleaved.
  \<^item> Handler_Memory: \<open>class handler_allocator\<close> of both files of boost_alloc, instances of the
    locale \<open>handler_storage\<close>.
  \<^item> Echo_Session: \<open>class session\<close> of both files, with the handlers' memory.
  \<^item> Echo_Server: \<open>class server\<close> of both files, their acceptors.
  \<^item> Action_Request, Action_Handler, Action_Server: the parser, the handler and the connections of
    action/server; the database is a parameter \<open>execute\<close>.
  \<^item> Action_Shutdown: the steps of that server after a stop signal.
  \<^item> Action_Client: the functions of client.cpp of action/client with its request and reply, but the
    handler of its read; an exception is \<open>Inl\<close>.
  \<^item> Login_Client: the login dialogue of old.cpp of action/client; the class of its packets is a
    parameter \<open>pk\<close>.
  \<^item> Old_Client: the class \<open>client\<close> of old.cpp, which runs that dialogue, and the program of two threads.
  \<^item> Size_Test: http_server/test.cpp.
  \<^item> Daytime_String: \<open>make_daytime_string\<close> and the log library, with \<open>ctime\<close> written out and a
    reader of its text. The clock is a parameter, the seconds since 1970 in local time. The locale
    \<open>time_service\<close> is what a client may rely on; the servers of Daytime_Tcp, Daytime_Udp and
    Shared_Buffer are its instances.
  \<^item> Daytime_Tcp, Daytime_Udp: the asynchronous and synchronous daytime servers of boost_tcp and
    boost_udp, and the clients, that of boost_future included.
  \<^item> Daytime_Clients: the \<open>main\<close> functions of the daytime clients, each with its server.
  \<^item> Daytime_Comb: boost_comb, the two servers on one \<open>io_service\<close>, as a product of their states.
  \<^item> Shared_Buffer: boost_buffer, the reference counted buffer and the server that uses it.
  \<^item> Timer_Counter: tut01.cpp to tut04.cpp of boost_tut, with \<open>io_service::run\<close> as a function, and
    the text they print.
  \<^item> Strand_Printer: tut05.cpp, two threads and a strand, as interleaved atomic pieces.
  \<^item> Program_Starts: the \<open>main\<close> functions of the servers, their arguments and exit status.
  \<^item> This theory: the HTTP server from request to reply, for a message, for a file that is asked for,
    and for input that is no message.

  \<^bold>\<open>What is shown.\<close> For the parser: it accepts exactly the well-formed messages
  and returns the request they denote, in whatever pieces they come, what it collects is well typed
  whatever the input, and its only undefined behaviour is the overflow of a version number. For the
  request handler: decoding undoes percent
  encoding, no file outside the document root is read, and every branch has its reply. For the
  processes: an invariant of the reachable states by rule induction, and from it that no handler
  finds its object gone, that a registered session always has an operation outstanding, that a
  client of the HTTP server gets the reply to its request and nothing else, where the log of the
  reply lets it be sent, and that a client of
  the chat gets a contiguous stretch of the room's log, which is a merge of the frames that all
  sessions have received. A client that asks the HTTP server for a file
  below the document root gets status 200 and its bytes; one whose input can no longer become a
  message is refused at once; and after a stop signal both HTTP servers come to an end. For the chat as a whole: what a client
  shows of it is the bodies of the first frames of a stretch of the merged inputs, the client, its two threads
  interleaved in any way, posts the lines of its input in order and queues nothing else, and the
  servers of one process are independent. For the daytime programs: each client is sent a prefix of
  the text of a time the clock
  showed, the asynchronous UDP server sends what the synchronous one does as far as that is defined,
  its clients print the time, the combined server is exactly the two servers side by side, and no shared buffer is freed
  under a write or leaked. For the timers: the single-threaded programs count to five, and the two
  threads always come to an end, with the count 10 or, after a race of the handlers outside the
  strand, 11. Where the code is wrong the theorem says what it does: the chat session reads four
  characters too many, the chat client sends no header and closes when its queue is empty, the
  newer echo server frees memory that is not on the heap, the older one logs memory it has not
  written, the action server answers nobody, the action client cannot be constructed, and the login
  of the old client does not depend on the server.

  \<^bold>\<open>Termination.\<close> Every loop of the code that is modelled ends, and is a structural recursion or
  a function with a measure; no fuel is used. The server loops that never end are the step
  relations. The loops of the synchronous programs recurse over what their blocking calls return;
  the end of that list is the call that still blocks. That the timer programs end is proved: their
  \<open>run\<close> is a total function, and the steps of the two threads are a well-founded relation. So are the
  steps of both HTTP servers after a stop signal and those of the old client: no run of them is
  infinite, and a run that cannot go on has nothing outstanding.

  \<^bold>\<open>Not modelled.\<close> The log calls of the servers that only print, and what they print to the
  console, asio itself, and the order in which timers expire on two threads. The class of the
  packets of old.cpp and the class chat_client its \<open>main\<close> names are in no file of the repository;
  they are parameters. The sketch sender.cpp only includes two headers.
  Code that does not compile as it stands is left out: the two functions of the singleton of
  action/server, whose pointer is not what they use it for (its mutex is all that is used), and the
  handler of the read in the action client, with the setter of its promise.
\<close>

section \<open>The HTTP server from request to reply\<close>

text \<open>The reply a client should get for a well-formed message.\<close>

definition expected_reply ::
    "(string \<Rightarrow> string option) \<Rightarrow> string \<Rightarrow> message \<Rightarrow> string" where
  "expected_reply files doc_root m =
     reply_bytes (reply_spec files doc_root (message_request m)
       \<lparr>rep_status = Ok, rep_headers = [], rep_content = []\<rparr>)"

text \<open>The status the reply had before does not show.\<close>

lemma expected_reply_eq:
  "reply_bytes (handle_request files doc_root (message_request m)
     \<lparr>rep_status = status, rep_headers = [], rep_content = []\<rparr>) = expected_reply files doc_root m"
  unfolding expected_reply_def handle_request_eq by (rule arg_cong [OF reply_spec_content]) simp

lemma parse_message:
  assumes "message_ok m"
  shows "\<exists>st. parse new_parser empty_request (render_message m @ rest) =
    Some (Good, rest, st, message_request m)"
  using accepts_message [of "render_message m @ rest" rest "message_request m"] assms
  by (auto simp: accepts_def)

lemma answer_message:
  assumes "answer (handle_request files doc_root) (render_message m @ rest) bytes" "message_ok m"
  shows "bytes = expected_reply files doc_root m"
  using assms(1) parse_message [OF assms(2), of rest]
  by (auto simp: answer_def verdict_def expected_reply_eq)

lemma handle_request_readable:
  "separators_readable beyond (handle_request files doc_root req rep) \<longleftrightarrow> readable_behind beyond"
  using handle_request_headers [of files doc_root req rep]
  by (intro separators_readable_headers) auto

lemma request_read:
  assumes reach: "http_reachable beyond (handle_request files doc_root) s"
    and op: "Read_op a \<in> set (http_ops s)" and c: "http_objects s a = Some c"
    and m: "message_ok m" "sock_received c @ bytes = render_message m @ rest"
  shows "\<exists>st status. conn_reply c = \<lparr>rep_status = status, rep_headers = [], rep_content = []\<rparr>
    \<and> sock_sent c = []
    \<and> parse (conn_parser c) (conn_request c) bytes = Some (Good, rest, st, message_request m)"
proof -
  have "op_ok (handle_request files doc_root) s (Read_op a)"
    using http_okD(2) [OF http_reachable_ok [OF reach] op] .
  with c have rd: "reading_ok c" by (simp add: op_ok_def)
  obtain st where "parse new_parser empty_request (sock_received c @ bytes) =
      Some (Good, rest, st, message_request m)"
    using parse_message [OF m(1), of rest] m(2) by auto
  with rd show ?thesis
    by (cases "conn_reply c") (auto simp: reading_ok_def parse_append)
qed

lemma request_write:
  assumes "http_reachable beyond (handle_request files doc_root) s"
    and "Read_op a \<in> set (http_ops s)" and c: "http_objects s a = Some c"
    and "message_ok m" "sock_received c @ bytes = render_message m @ rest"
    and readable: "readable_behind beyond"
  shows "\<exists>t d. on_read beyond (handle_request files doc_root) a No_error bytes (finish_op (Read_op a) s) = Some t
    \<and> Write_op a (expected_reply files doc_root m) \<in> set (http_ops t)
    \<and> http_objects t a = Some d \<and> sock_sent d = [] \<and> sock_received d = sock_received c @ bytes"
  using request_read [OF assms(1-5)] c readable
  by (auto simp: on_read_def Let_def do_write_eq handle_request_readable expected_reply_eq)

lemma request_log_undefined:
  assumes "http_reachable beyond (handle_request files doc_root) s"
    and "Read_op a \<in> set (http_ops s)" and c: "http_objects s a = Some c"
    and "message_ok m" "sock_received c @ bytes = render_message m @ rest"
    and unreadable: "\<not> readable_behind beyond"
  shows "on_read beyond (handle_request files doc_root) a No_error bytes (finish_op (Read_op a) s) = None"
  using request_read [OF assms(1-5)] c unreadable
  by (auto simp: on_read_None handle_request_readable)

lemma write_completes:
  assumes "http_objects t a = Some d" "sock_sent d = []"
  shows "\<exists>u e. on_write a bytes No_error (length bytes) (finish_op (Write_op a bytes) t) = Some u
    \<and> http_objects u a = Some e \<and> sock_sent e = bytes \<and> sock_shut e
    \<and> a \<notin> set (http_connections u)"
  using assms by (simp add: on_write_def Let_def)

section \<open>Input that is no message\<close>

text \<open>No continuation of the input begins with a well-formed message.\<close>

definition hopeless :: "string \<Rightarrow> bool" where
  "hopeless inp \<longleftrightarrow> (\<forall>more m rest. message_ok m \<longrightarrow> inp @ more \<noteq> render_message m @ rest)"

lemma hopeless_verdict:
  assumes "hopeless inp" "parse new_parser empty_request inp = Some (out, rest, st, r)"
  shows "out = Bad"
proof (cases out)
  case Good
  with assms(2) have "accepts new_parser empty_request inp rest r" by (auto simp: accepts_def)
  with assms(1) [unfolded hopeless_def] show ?thesis
    unfolding accepts_message by (metis append_Nil2)
next
  case Indeterminate
  with assms(2) asks_for_more_viable obtain t st'' r'' where
    "parse new_parser empty_request (inp @ t) = Some (Good, [], st'', r'')" by blast
  then have "accepts new_parser empty_request (inp @ t) [] r''" by (auto simp: accepts_def)
  with assms(1) [unfolded hopeless_def] show ?thesis unfolding accepts_message by blast
qed

lemma hopeless_answer:
  assumes "hopeless inp" "answer respond inp bytes"
  shows "bytes = reply_bytes (stock_reply Bad_request)"
  using assms hopeless_verdict [OF assms(1)] by (fastforce simp: answer_def verdict_def)

lemma hopeless_read:
  assumes "reading_ok c" "http_objects s a = Some c" "hopeless (sock_received c @ bytes)"
    and "on_read beyond respond a No_error bytes s = Some t"
  shows "Write_op a (reply_bytes (stock_reply Bad_request)) \<in> set (http_ops t)"
proof -
  obtain out rest st r where p: "parse (conn_parser c) (conn_request c) bytes = Some (out, rest, st, r)"
    using assms(2, 4) by (auto simp: on_read_def split: option.splits)
  with assms(1) have "parse new_parser empty_request (sock_received c @ bytes) = Some (out, rest, st, r)"
    by (simp add: reading_ok_def parse_append)
  then have "out = Bad" by (rule hopeless_verdict [OF assms(3)])
  with p assms(2, 4) show ?thesis
    by (auto simp: on_read_def Let_def do_write_eq split: if_splits)
qed

section \<open>A request for a file\<close>

text \<open>The message a client sends for the file \<open>p\<close>; it percent-encodes what a URI may not hold.\<close>

definition get_message :: "string \<Rightarrow> message" where
  "get_message p =
     \<lparr>msg_method = ''GET'', msg_uri = url_encode uri_char p, msg_major = ''1'', msg_minor = ''0'',
      msg_lines = []\<rparr>"

lemma hex_char_uri: "d < 16 \<Longrightarrow> uri_char (hex_char d)"
proof -
  assume d: "d < 16"
  then have "hex_char d \<noteq> CHR '' ''" using hex_char_plain(1) [OF d] by (auto simp: is_space_def)
  with d show "uri_char (hex_char d)"
    by (simp add: uri_char_def text_char_def is_ctl_def hex_char_value)
qed

lemma encoded_uri_ok: "c \<in> set (url_encode uri_char p) \<Longrightarrow> uri_char c"
proof -
  have "uri_char CHR ''%''" by (simp add: uri_char_def text_char_def is_ctl_def char_to_int_def)
  moreover have "uri_char (hex_char (of_char x div 16))" for x :: char
    using nat_of_char_less_256 [of x] by (intro hex_char_uri) (simp add: less_mult_imp_div_less)
  ultimately show "c \<in> set (url_encode uri_char p) \<Longrightarrow> uri_char c"
    by (auto simp: url_encode_def encode_char_def hex_char_uri split: if_splits)
qed

lemma get_message_ok: "message_ok (get_message p)"
  using encoded_uri_ok [of _ p]
  by (simp add: message_ok_def get_message_def version_digits_def dec_value_def is_dec_def
      token_char_def is_char_def is_ctl_def is_tspecial_def char_to_int_def int_max_def)

lemma file_reply:
  assumes "msg_uri m = url_encode keep p" "p \<noteq> []" "hd p = CHR ''/''" "\<not> sublist ''..'' p"
    and "NUL \<notin> set (doc_root @ p)" "files (doc_root @ add_index p) = Some content"
  shows "read_reply (expected_reply files doc_root m) =
    (status_text Ok,
     [\<lparr>header_name = ''Conetent-Length'', header_value = nat_to_string (length content)\<rparr>,
      \<lparr>header_name = ''Content-type'', header_value = extension_to_type (path_extension (add_index p))\<rparr>],
     content)"
proof -
  obtain q where p: "p = CHR ''/'' # q" using assms(2, 3) by (cases p) auto
  have "NUL \<notin> set (doc_root @ add_index p)"
    using assms(5) by (auto simp: add_index_def char_to_int_def)
  then have "c_str (doc_root @ add_index p) = doc_root @ add_index p"
    unfolding c_str_def takeWhile_eq_all_conv by metis
  then have "reply_spec files doc_root (message_request m)
      \<lparr>rep_status = Ok, rep_headers = [], rep_content = []\<rparr> =
    \<lparr>rep_status = Ok, rep_headers =
       [\<lparr>header_name = ''Conetent-Length'', header_value = nat_to_string (length content)\<rparr>,
        \<lparr>header_name = ''Content-type'',
         header_value = extension_to_type (path_extension (add_index p))\<rparr>],
     rep_content = content\<rparr>" (is "?r = ?s")
    using assms(1, 4, 6) decode_encode [of keep p] p
    by (simp add: reply_spec_def message_request_def)
  moreover have "read_reply (reply_bytes ?r) = (status_text (rep_status ?r), rep_headers ?r, rep_content ?r)"
    unfolding handle_request_eq [symmetric] by (rule http_service.respond_readable)
  ultimately show ?thesis by (simp add: expected_reply_def)
qed

section \<open>An example request\<close>

definition example_message :: message where
  "example_message =
     \<lparr>msg_method = ''GET'', msg_uri = ''/'', msg_major = ''1'', msg_minor = ''0'', msg_lines = []\<rparr>"

lemma example_message_ok: "message_ok example_message"
  by (simp add: message_ok_def example_message_def version_digits_def dec_value_def is_dec_def
      token_char_def uri_char_def text_char_def is_char_def is_ctl_def is_tspecial_def
      char_to_int_def int_max_def)

lemma example_memory_readable: "readable_behind example_memory"
  by (simp add: readable_behind_def example_memory_def)

lemma example_requested:
  "\<exists>s c. http_reachable example_memory (handle_request files doc_root) s \<and> http_objects s 7 = Some c
     \<and> sock_received c = render_message example_message @ []"
proof -
  let ?m = "render_message example_message"
  have len: "length ?m \<le> 8192"
    by (simp add: render_message_def example_message_def render_lines_def)
  have op: "Read_op 7 \<in> set (http_ops accepted_server)" by (simp add: accepted_server_simps)
  obtain t d where "on_read example_memory (handle_request files doc_root) 7 No_error ?m
      (finish_op (Read_op 7) accepted_server) = Some t"
    "http_objects t 7 = Some d" "sock_received d = ?m"
    using request_write [where files = files and doc_root = doc_root and bytes = ?m and rest = "[]"
        and c = "new_connection Created",
        OF accepted_server_reachable op _ example_message_ok _ example_memory_readable]
    by (auto simp: accepted_server_simps new_connection_def)
  with len op http_reachable.step [OF accepted_server_reachable http_step.read_done] show ?thesis
    by (metis append_Nil2 error_code.distinct(1))
qed

section \<open>Properties\<close>

text \<open>
  Property C1. Whatever has been sent to a client whose input begins with a well-formed
  message is the beginning of the one reply that message calls for, however the input was cut
  into reads and whatever else the server was doing.
\<close>

theorem client_gets_the_reply:
  assumes "http_reachable beyond (handle_request files doc_root) s" and "http_objects s a = Some c"
    and "message_ok m" and "sock_received c = render_message m @ rest"
  shows "prefix (sock_sent c) (expected_reply files doc_root m)"
proof -
  have "sent_ok (handle_request files doc_root) c"
    using http_okD(5) [OF http_reachable_ok [OF assms(1)] assms(2)] .
  then show ?thesis
    using answer_message [OF _ assms(3), of files doc_root rest] assms(4)
    by (auto simp: sent_ok_def)
qed

theorem client_gets_the_reply_witness:
  "\<exists>s c. http_reachable example_memory example_respond s \<and> http_objects s 7 = Some c
     \<and> prefix (sock_sent c) (expected_reply (\<lambda>_. None) [] example_message)"
proof -
  obtain s c where s: "http_reachable example_memory (handle_request (\<lambda>_. None) []) s" "http_objects s 7 = Some c"
    "sock_received c = render_message example_message @ []"
    using example_requested by blast
  from client_gets_the_reply [OF s(1,2) example_message_ok s(3)] s show ?thesis
    unfolding example_respond_def by blast
qed

text \<open>
  Property C2. Every request is answered in full, unless the log stands in the way: when the
  read that completes a well-formed message comes, and what lies behind the separator arrays can be
  read, the handler starts the write of the reply, and when that write has succeeded the client has
  been sent the whole reply and the connection is shut down and let go. When it cannot be read, as
  C++ has it, the handler runs into undefined behaviour instead.
\<close>

theorem request_is_answered:
  assumes "http_reachable beyond (handle_request files doc_root) s"
    and "Read_op a \<in> set (http_ops s)" and "http_objects s a = Some c"
    and "message_ok m" and "sock_received c @ bytes = render_message m @ rest"
  shows "if readable_behind beyond then
      \<exists>t u d. on_read beyond (handle_request files doc_root) a No_error bytes
          (finish_op (Read_op a) s) = Some t
      \<and> Write_op a (expected_reply files doc_root m) \<in> set (http_ops t)
      \<and> on_write a (expected_reply files doc_root m) No_error
          (length (expected_reply files doc_root m))
          (finish_op (Write_op a (expected_reply files doc_root m)) t) = Some u
      \<and> http_objects u a = Some d \<and> sock_sent d = expected_reply files doc_root m \<and> sock_shut d
      \<and> a \<notin> set (http_connections u)
    else on_read beyond (handle_request files doc_root) a No_error bytes
        (finish_op (Read_op a) s) = None"
proof (cases "readable_behind beyond")
  case True
  with request_write [OF assms] show ?thesis using write_completes by (simp only: if_True) blast
next
  case False
  with request_log_undefined [OF assms] show ?thesis by simp
qed

theorem request_is_answered_witness:
  "(\<exists>t u d. on_read example_memory example_respond 7 No_error (render_message example_message)
        (finish_op (Read_op 7) accepted_server) = Some t
     \<and> on_write 7 (expected_reply (\<lambda>_. None) [] example_message) No_error
        (length (expected_reply (\<lambda>_. None) [] example_message))
        (finish_op (Write_op 7 (expected_reply (\<lambda>_. None) [] example_message)) t) = Some u
     \<and> http_objects u 7 = Some d \<and> sock_sent d = expected_reply (\<lambda>_. None) [] example_message)
   \<and> on_read (\<lambda>_. None) example_respond 7 No_error (render_message example_message)
        (finish_op (Read_op 7) accepted_server) = None"
proof -
  have op: "Read_op 7 \<in> set (http_ops accepted_server)"
    "http_objects accepted_server 7 = Some (new_connection Created)"
    by (simp_all add: accepted_server_simps)
  have inp: "sock_received (new_connection Created) @ render_message example_message
      = render_message example_message @ []"
    by (simp add: new_connection_def)
  have "\<not> readable_behind (\<lambda>_. None)" by (simp add: readable_behind_def)
  with request_is_answered [where files = "\<lambda>_. None" and doc_root = "[]",
      OF accepted_server_reachable op example_message_ok inp]
  have "on_read (\<lambda>_. None) (handle_request (\<lambda>_. None) []) 7 No_error (render_message example_message)
        (finish_op (Read_op 7) accepted_server) = None"
    by (meson accepted_server_reachable)
  moreover from request_is_answered [where files = "\<lambda>_. None" and doc_root = "[]" and beyond = example_memory,
      OF accepted_server_reachable op example_message_ok inp]
  have "\<exists>t u d. on_read example_memory (handle_request (\<lambda>_. None) []) 7 No_error (render_message example_message)
        (finish_op (Read_op 7) accepted_server) = Some t
     \<and> on_write 7 (expected_reply (\<lambda>_. None) [] example_message) No_error
        (length (expected_reply (\<lambda>_. None) [] example_message))
        (finish_op (Write_op 7 (expected_reply (\<lambda>_. None) [] example_message)) t) = Some u
     \<and> http_objects u 7 = Some d \<and> sock_sent d = expected_reply (\<lambda>_. None) [] example_message"
    unfolding if_P [OF example_memory_readable] by blast
  ultimately show ?thesis unfolding example_respond_def by blast
qed

text \<open>
  Property C3. A client asks for a file and gets it: whatever the method, the version and the
  headers of its message, when the URI encodes an absolute path without \<open>..\<close> that names a file below
  the document root, the read that completes the message and the write of the reply leave the client
  with status 200, the length and the media type, and the bytes of that file. The path of a
  directory stands for its \<open>index.html\<close>. So it is where the log can read what lies behind the
  separators; where it cannot, the read is undefined and the client gets nothing.
\<close>

theorem file_is_served:
  assumes "http_reachable beyond (handle_request files doc_root) s"
    and "Read_op a \<in> set (http_ops s)" and "http_objects s a = Some c"
    and "message_ok m" and "sock_received c @ bytes = render_message m @ rest"
    and "msg_uri m = url_encode keep p" and "p \<noteq> []" and "hd p = CHR ''/''"
    and "\<not> sublist ''..'' p" and "NUL \<notin> set (doc_root @ p)"
    and "files (doc_root @ add_index p) = Some content"
  shows "if readable_behind beyond then
      \<exists>t sent u d. on_read beyond (handle_request files doc_root) a No_error bytes
          (finish_op (Read_op a) s) = Some t
      \<and> Write_op a sent \<in> set (http_ops t)
      \<and> on_write a sent No_error (length sent) (finish_op (Write_op a sent) t) = Some u
      \<and> http_objects u a = Some d
      \<and> read_reply (sock_sent d) =
          (status_text Ok,
           [\<lparr>header_name = ''Conetent-Length'', header_value = nat_to_string (length content)\<rparr>,
            \<lparr>header_name = ''Content-type'',
             header_value = extension_to_type (path_extension (add_index p))\<rparr>],
           content)
    else sock_sent c = []
      \<and> on_read beyond (handle_request files doc_root) a No_error bytes
          (finish_op (Read_op a) s) = None"
proof (cases "readable_behind beyond")
  case True
  with request_write [OF assms(1-5)] write_completes file_reply [where files = files, OF assms(6-11)]
  show ?thesis by (simp only: if_True) metis
next
  case False
  with request_log_undefined [OF assms(1-5)] request_read [OF assms(1-5)] show ?thesis by auto
qed

definition example_file :: "string \<Rightarrow> string option" where
  "example_file n = (if n = ''/srv/a b.html'' then Some ''<p>'' else None)"

theorem file_is_served_witness:
  "\<exists>t sent u d. on_read example_memory (handle_request example_file ''/srv'') 7 No_error
        (render_message (get_message ''/a b.html'')) (finish_op (Read_op 7) accepted_server) = Some t
     \<and> on_write 7 sent No_error (length sent) (finish_op (Write_op 7 sent) t) = Some u
     \<and> http_objects u 7 = Some d
     \<and> read_reply (sock_sent d) =
        (status_text Ok,
         [\<lparr>header_name = ''Conetent-Length'', header_value = nat_to_string (length ''<p>'')\<rparr>,
          \<lparr>header_name = ''Content-type'', header_value = ''text/html''\<rparr>], ''<p>'')"
proof -
  have op: "Read_op 7 \<in> set (http_ops accepted_server)"
    "http_objects accepted_server 7 = Some (new_connection Created)"
    by (simp_all add: accepted_server_simps)
  have input: "sock_received (new_connection Created) @ render_message (get_message ''/a b.html'')
      = render_message (get_message ''/a b.html'') @ []"
    by (simp add: new_connection_def)
  have uri: "msg_uri (get_message ''/a b.html'') = url_encode uri_char ''/a b.html''"
    by (simp add: get_message_def)
  have media_type: "extension_to_type (path_extension (add_index ''/a b.html'')) = ''text/html''"
    by (simp add: extension_to_type_def path_extension_def add_index_def mappings_def)
  have p: "''/a b.html'' \<noteq> []" "hd ''/a b.html'' = CHR ''/''" "NUL \<notin> set (''/srv'' @ ''/a b.html'')"
    "\<not> sublist ''..'' ''/a b.html''"
    by (simp_all add: sublist_Cons_right)
  have found: "example_file (''/srv'' @ add_index ''/a b.html'') = Some ''<p>''"
    by (simp add: add_index_def example_file_def)
  show ?thesis
    using file_is_served [where files = example_file and doc_root = "''/srv''",
        OF accepted_server_reachable op get_message_ok input uri p(1,2,4,3) found, of example_memory]
    unfolding media_type if_P [OF example_memory_readable] by blast
qed

text \<open>
  Property C4. What is no message is refused at once: as soon as no continuation of a client's
  input begins with a well-formed message, the connection reads no more, and what the client has been
  sent is the beginning of the stock reply for a bad request; and the read after which that is so,
  when it is defined, starts the write of this reply. The request handler has no
  say in it.
\<close>

theorem bad_request_is_refused:
  assumes "http_reachable beyond respond s" and "http_objects s a = Some c"
  shows "(hopeless (sock_received c) \<longrightarrow> Read_op a \<notin> set (http_ops s)
        \<and> prefix (sock_sent c) (reply_bytes (stock_reply Bad_request)))
    \<and> (\<forall>bytes t. Read_op a \<in> set (http_ops s) \<and> hopeless (sock_received c @ bytes)
        \<and> on_read beyond respond a No_error bytes (finish_op (Read_op a) s) = Some t
        \<longrightarrow> Write_op a (reply_bytes (stock_reply Bad_request)) \<in> set (http_ops t))"
proof -
  have ok: "http_ok respond s" using assms(1) by (rule http_reachable_ok)
  have reading: "Read_op a \<in> set (http_ops s) \<Longrightarrow> reading_ok c"
    using http_okD(2) [OF ok] assms(2) by (fastforce simp: op_ok_def)
  have "hopeless (sock_received c) \<Longrightarrow> Read_op a \<notin> set (http_ops s)"
    using reading hopeless_verdict [of "sock_received c"] by (fastforce simp: reading_ok_def)
  moreover have "hopeless (sock_received c) \<Longrightarrow>
      prefix (sock_sent c) (reply_bytes (stock_reply Bad_request))"
    using http_okD(5) [OF ok assms(2)] hopeless_answer by (auto simp: sent_ok_def)
  ultimately show ?thesis
    using reading assms(2) hopeless_read [where s = "finish_op (Read_op a) s" and c = c] by auto
qed

text \<open>A message cannot begin with a space.\<close>

lemma space_hopeless: "hopeless '' ''"
proof -
  have "parse new_parser empty_request ('' '' @ more) \<noteq> Some (Good, rest, st, r)" for more rest st r
    by (simp add: new_parser_def is_char_def is_ctl_def is_tspecial_def char_to_int_def)
  then show ?thesis using parse_message unfolding hopeless_def by metis
qed

theorem bad_request_is_refused_witness:
  "\<exists>t. on_read example_memory example_respond 7 No_error '' '' (finish_op (Read_op 7) accepted_server) = Some t
     \<and> Write_op 7 (reply_bytes (stock_reply Bad_request)) \<in> set (http_ops t)"
proof -
  have op: "Read_op 7 \<in> set (http_ops accepted_server)"
    "http_objects accepted_server 7 = Some (new_connection Created)"
    by (simp_all add: accepted_server_simps)
  obtain t where "on_read example_memory example_respond 7 No_error '' '' (finish_op (Read_op 7) accepted_server) = Some t"
    using op(2) by (simp add: on_read_def new_connection_def new_parser_def Let_def
        do_write_eq separators_readable_def example_memory_def
        is_char_def is_ctl_def is_tspecial_def char_to_int_def)
  moreover have "sock_received (new_connection Created) = []" by (simp add: new_connection_def)
  ultimately show ?thesis
    using bad_request_is_refused [OF accepted_server_reachable [of example_memory example_respond] op(2)] op(1)
      space_hopeless by (metis append_Nil)
qed

end
